(* ===== verification/LP_Prelude.thy ===== *)
theory LP_Prelude
  imports Main "HOL-Library.Word" "HOL-Library.AList" "HOL-Library.Char_ord"
    "HOL-Library.List_Lexorder" "HOL-Library.Signed_Division"
begin

text \<open>
  Shared vocabulary of the development: Go's fixed-width integers, byte strings and maps, and the
  generic lemmas about them that the component theories use.

  A Go \<open>int64\<close> is a \<open>64 word\<close>: \<open>+\<close>, \<open>-\<close> and \<open>*\<close> wrap around as Go's do, \<open>sint\<close> reads the
  two's complement value, and every comparison of the code is written on \<open>sint\<close>. A Go \<open>string\<close> and
  a \<open>[]byte\<close> are both a \<open>string\<close>: Isabelle's \<open>char\<close> is a byte. A Go \<open>map\<close> is an association
  list read with \<open>map_of\<close> and written with \<open>mput\<close> and \<open>mdel\<close>, which keep its keys distinct.
\<close>

named_theorems frame \<open>what an operation leaves unchanged\<close>

type_synonym i64 = "64 word"
type_synonym bytes = string
type_synonym ('k, 'v) gomap = "('k \<times> 'v) list"

section \<open>Fixed-width integers\<close>

lemma sint_add_exact:
  fixes a b :: i64
  assumes "- (2 ^ 63) \<le> sint a + sint b" "sint a + sint b < 2 ^ 63"
  shows "sint (a + b) = sint a + sint b"
  using assms by (simp add: sint_word_ariths signed_take_bit_int_eq_self)

lemma sint_sub_exact:
  fixes a b :: i64
  assumes "- (2 ^ 63) \<le> sint a - sint b" "sint a - sint b < 2 ^ 63"
  shows "sint (a - b) = sint a - sint b"
  using assms by (simp add: sint_word_ariths signed_take_bit_int_eq_self)

lemma sint_of_int_exact:
  assumes "- (2 ^ 63) \<le> i" "i < 2 ^ 63"
  shows "sint (of_int i :: i64) = i"
  using assms by (simp add: sint_sbintrunc' signed_take_bit_int_eq_self)

lemma sint_i64_lower: "- (2 ^ 63) \<le> sint (a :: i64)"
  using sint_ge [of a] by simp

lemma sint_i64_upper: "sint (a :: i64) < 2 ^ 63"
  using sint_lt [of a] by simp

lemmas sint_i64_bounds = sint_i64_lower sint_i64_upper

lemma of_int_sint_i64 [simp]: "(of_int (sint a) :: i64) = a"
  by simp

lemma sint_inject_i64: "sint a = sint b \<longleftrightarrow> a = (b :: i64)"
  by (metis of_int_sint_i64)

text \<open>
  Subtracting a smaller positive amount from a non-negative one never wraps; adding two
  non-negative amounts wraps only to a negative number.
\<close>

lemma sint_sub_nonneg:
  fixes a b :: i64
  assumes "0 \<le> sint b" "sint b \<le> sint a"
  shows "sint (a - b) = sint a - sint b"
  using assms sint_i64_upper [of a] by (intro sint_sub_exact) auto

lemma sint_add_no_wrap:
  fixes a b :: i64
  assumes "0 \<le> sint a" "0 \<le> sint b" "0 \<le> sint (a + b)"
  shows "sint (a + b) = sint a + sint b"
proof (rule ccontr)
  assume ne: "sint (a + b) \<noteq> sint a + sint b"
  then have big: "2 ^ 63 \<le> sint a + sint b"
    using assms sint_add_exact [of a b] by (cases "sint a + sint b < 2 ^ 63") auto
  have "sint (a + b) = sint a + sint b - 2 ^ 64"
  proof -
    have "(a + b) = (of_int (sint a + sint b - 2 ^ 64) :: i64)"
    proof -
      have "(of_int (2 ^ 64) :: i64) = 0"
        by simp
      then show ?thesis
        by (simp only: of_int_diff of_int_add of_int_sint_i64 diff_zero)
    qed
    moreover have "- (2 ^ 63) \<le> sint a + sint b - 2 ^ 64" "sint a + sint b - 2 ^ 64 < 2 ^ 63"
      using big sint_i64_upper [of a] sint_i64_upper [of b] by auto
    ultimately show ?thesis
      using sint_of_int_exact by metis
  qed
  with assms(3) sint_i64_upper [of a] sint_i64_upper [of b] show False
    by simp
qed

section \<open>Maps\<close>

definition mput :: "'k \<Rightarrow> 'v \<Rightarrow> ('k, 'v) gomap \<Rightarrow> ('k, 'v) gomap" where
  "mput k v m = AList.update k v m"

definition mdel :: "'k \<Rightarrow> ('k, 'v) gomap \<Rightarrow> ('k, 'v) gomap" where
  "mdel k m = AList.delete k m"

definition mkeys :: "('k, 'v) gomap \<Rightarrow> 'k list" where
  "mkeys m = map fst m"

text \<open>Go's \<open>m[k]\<close> on a missing key is the zero value.\<close>

definition mget0 :: "('k, 'v::zero) gomap \<Rightarrow> 'k \<Rightarrow> 'v" where
  "mget0 m k = (case map_of m k of None \<Rightarrow> 0 | Some v \<Rightarrow> v)"

lemma map_of_mput [simp]: "map_of (mput k v m) k' = (if k' = k then Some v else map_of m k')"
  by (simp add: mput_def update_conv')

lemma map_of_mput_fun: "map_of (mput k v m) = (map_of m)(k \<mapsto> v)"
  by (simp add: mput_def update_conv')

lemma map_of_mdel [simp]: "map_of (mdel k m) k' = (if k' = k then None else map_of m k')"
  by (simp add: mdel_def delete_conv')

lemma mget0_mput [simp]: "mget0 (mput k v m) k' = (if k' = k then v else mget0 m k')"
  by (simp add: mget0_def)

lemma mget0_Nil [simp]: "mget0 [] k = 0"
  by (simp add: mget0_def)

lemma distinct_mkeys_mput [simp]: "distinct (mkeys m) \<Longrightarrow> distinct (mkeys (mput k v m))"
  by (simp add: mput_def mkeys_def distinct_update)

lemma distinct_mkeys_mdel [simp]: "distinct (mkeys m) \<Longrightarrow> distinct (mkeys (mdel k m))"
  by (simp add: mdel_def mkeys_def distinct_delete)

lemma set_mkeys: "set (mkeys m) = dom (map_of m)"
  by (simp add: mkeys_def dom_map_of_conv_image_fst)

text \<open>
  The sum of a map's values moves by exactly the change of the written key: what the
  conservation proofs of the ledger rest on.
\<close>

lemma sum_list_mput:
  fixes m :: "('k, 'v::ab_group_add) gomap"
  assumes "distinct (mkeys m)"
  shows "sum_list (map snd (mput k v m)) = sum_list (map snd m) - mget0 m k + v"
  using assms
proof (induction m)
  case Nil
  then show ?case by (simp add: mput_def)
next
  case (Cons p m)
  obtain a b where p: "p = (a, b)" by fastforce
  show ?case
  proof (cases "a = k")
    case True
    with p show ?thesis
      by (simp add: mput_def mget0_def)
  next
    case False
    then have "mget0 (p # m) k = mget0 m k"
      by (simp add: p mget0_def)
    moreover have "mput k v (p # m) = p # mput k v m"
      using False by (simp add: p mput_def)
    ultimately show ?thesis
      using Cons by (simp add: p mkeys_def algebra_simps)
  qed
qed

section \<open>Lists and strings\<close>

text \<open>Go's \<open>strings.HasPrefix\<close> and \<open>strings.TrimPrefix\<close>.\<close>

definition HasPrefix :: "string \<Rightarrow> string \<Rightarrow> bool" where
  "HasPrefix s p \<longleftrightarrow> take (length p) s = p"

definition TrimPrefix :: "string \<Rightarrow> string \<Rightarrow> string" where
  "TrimPrefix s p = (if HasPrefix s p then drop (length p) s else s)"

lemma HasPrefix_append [simp]: "HasPrefix (p @ s) p"
  by (simp add: HasPrefix_def)

lemma HasPrefix_iff: "HasPrefix s p \<longleftrightarrow> (\<exists>r. s = p @ r)"
  unfolding HasPrefix_def by (metis append_eq_conv_conj append_take_drop_id)

lemma TrimPrefix_append [simp]: "TrimPrefix (p @ s) p = s"
  by (simp add: TrimPrefix_def)

text \<open>Sequencing a list of fallible results: the first error in list order, or all the values.\<close>

fun seq_all :: "('e + 'a) list \<Rightarrow> 'e + 'a list" where
  "seq_all [] = Inr []"
| "seq_all (Inl e # rs) = Inl e"
| "seq_all (Inr x # rs) = (case seq_all rs of Inl e \<Rightarrow> Inl e | Inr xs \<Rightarrow> Inr (x # xs))"

lemma seq_all_map_Inr [simp]: "seq_all (map Inr xs) = Inr xs"
  by (induction xs) auto

lemma seq_all_Inr_D: "seq_all rs = Inr xs \<Longrightarrow> rs = map Inr xs"
  by (induction rs arbitrary: xs rule: seq_all.induct) (auto split: sum.splits)

lemma seq_all_Inr_iff: "seq_all rs = Inr xs \<longleftrightarrow> rs = map Inr xs"
  using seq_all_Inr_D by auto

lemma seq_all_Inl: "seq_all rs = Inl e \<Longrightarrow> Inl e \<in> set rs"
  by (induction rs rule: seq_all.induct) (auto split: sum.splits)

definition is_ok :: "'e + 'a \<Rightarrow> bool" where
  "is_ok r \<longleftrightarrow> (case r of Inl _ \<Rightarrow> False | Inr _ \<Rightarrow> True)"

lemma is_ok_simps [simp]: "is_ok (Inr x)" "\<not> is_ok (Inl e)"
  by (simp_all add: is_ok_def)

lemma is_ok_iff: "is_ok r \<longleftrightarrow> (\<exists>x. r = Inr x)"
  by (cases r) auto

lemma all_ok_map: "\<forall>x \<in> set xs. is_ok (f x) \<Longrightarrow> \<exists>ys. map f xs = map Inr ys"
proof (induction xs)
  case (Cons x xs)
  then obtain y ys where "f x = Inr y" "map f xs = map Inr ys"
    by (auto simp: is_ok_iff)
  then have "map f (x # xs) = map Inr (y # ys)"
    by simp
  then show ?case ..
qed simp

lemma is_ok_seq_all: "\<forall>x \<in> set xs. is_ok (f x) \<Longrightarrow> is_ok (seq_all (map f xs))"
  using all_ok_map [of xs f] by auto

text \<open>Lists joined with a separator, as the writers of arrays and objects do.\<close>

fun join :: "string \<Rightarrow> string list \<Rightarrow> string" where
  "join sep [] = []"
| "join sep [s] = s"
| "join sep (s # t # ss) = s @ sep @ join sep (t # ss)"

lemma join_Cons: "join sep (s # ss) = (if ss = [] then s else s @ sep @ join sep ss)"
  by (cases ss) auto

end
