(* ===== verification/LP_Crypto.thy ===== *)
theory LP_Crypto
  imports LP_Text
begin

text \<open>
  The hashing and encoding of the Go standard library that the protocol pins: SHA-256 (FIPS 180-4,
  \<open>crypto/sha256\<close>) over 32-bit words and unpadded base64url (\<open>base64.RawURLEncoding\<close>), both executable.
\<close>

unbundle bit_operations_syntax

section \<open>SHA-256\<close>

type_synonym w32 = "32 word"

definition rotr :: "nat \<Rightarrow> w32 \<Rightarrow> w32" where
  "rotr n x = drop_bit n x OR push_bit (32 - n) x"

text \<open>
  The round constants and the initial state of the standard, in decimal: the first 32 bits of the fractional
  parts of the cube roots of the first 64 primes, and of the square roots of the first eight.
\<close>

definition sha_k :: "w32 list" where
  "sha_k =
   [1116352408, 1899447441, 3049323471, 3921009573, 961987163, 1508970993, 2453635748, 2870763221,
    3624381080, 310598401, 607225278, 1426881987, 1925078388, 2162078206, 2614888103, 3248222580,
    3835390401, 4022224774, 264347078, 604807628, 770255983, 1249150122, 1555081692, 1996064986,
    2554220882, 2821834349, 2952996808, 3210313671, 3336571891, 3584528711, 113926993, 338241895,
    666307205, 773529912, 1294757372, 1396182291, 1695183700, 1986661051, 2177026350, 2456956037,
    2730485921, 2820302411, 3259730800, 3345764771, 3516065817, 3600352804, 4094571909, 275423344,
    430227734, 506948616, 659060556, 883997877, 958139571, 1322822218, 1537002063, 1747873779,
    1955562222, 2024104815, 2227730452, 2361852424, 2428436474, 2756734187, 3204031479, 3329325298]"

definition sha_init :: "w32 list" where
  "sha_init =
   [1779033703, 3144134277, 1013904242, 2773480762, 1359893119, 2600822924, 528734635, 1541459225]"

text \<open>
  The message schedule keeps a window of the last sixteen words; each round consumes its head and
  appends the word sixteen places on.
\<close>

definition sched_next :: "w32 list \<Rightarrow> w32" where
  "sched_next w =
     (let s0 = (let x = w ! 1 in rotr 7 x XOR rotr 18 x XOR drop_bit 3 x);
          s1 = (let x = w ! 14 in rotr 17 x XOR rotr 19 x XOR drop_bit 10 x)
      in hd w + s0 + w ! 9 + s1)"

fun sha_round :: "w32 list \<Rightarrow> w32 \<Rightarrow> w32 \<Rightarrow> w32 list" where
  "sha_round [a, b, c, d, e, f, g, h] k w =
     (let t1 = h + (rotr 6 e XOR rotr 11 e XOR rotr 25 e) + ((e AND f) XOR (NOT e AND g)) + k + w;
          t2 = (rotr 2 a XOR rotr 13 a XOR rotr 22 a) + ((a AND b) XOR (a AND c) XOR (b AND c))
      in [t1 + t2, a, b, c, d + t1, e, f, g])"
| "sha_round _ k w = []"

fun sha_rounds :: "w32 list \<Rightarrow> w32 list \<Rightarrow> w32 list \<Rightarrow> w32 list" where
  "sha_rounds st [] w = st"
| "sha_rounds st (k # ks) w = sha_rounds (sha_round st k (hd w)) ks (tl w @ [sched_next w])"

definition sha_block :: "w32 list \<Rightarrow> w32 list \<Rightarrow> w32 list" where
  "sha_block st blk = map2 (+) st (sha_rounds st sha_k blk)"

definition be32 :: "char \<Rightarrow> char \<Rightarrow> char \<Rightarrow> char \<Rightarrow> w32" where
  "be32 a b c d = of_int (((of_char a * 256 + of_char b) * 256 + of_char c) * 256 + of_char d)"

fun words_of :: "bytes \<Rightarrow> w32 list" where
  "words_of (a # b # c # d # r) = be32 a b c d # words_of r"
| "words_of _ = []"

definition bytes_of :: "w32 \<Rightarrow> bytes" where
  "bytes_of w = (let n = uint w in
     [char_of (n div 16777216), char_of (n div 65536), char_of (n div 256), char_of n])"

definition len64 :: "int \<Rightarrow> bytes" where
  "len64 n = bytes_of (of_int (n div 4294967296)) @ bytes_of (of_int n)"

definition sha_pad :: "bytes \<Rightarrow> bytes" where
  "sha_pad m = m @ [CHR 0x80] @ replicate ((119 - length m mod 64) mod 64) (CHR 0x00) @ len64 (8 * int (length m))"

fun sha_blocks :: "nat \<Rightarrow> w32 list \<Rightarrow> w32 list \<Rightarrow> w32 list" where
  "sha_blocks 0 st ws = st"
| "sha_blocks (Suc n) st ws = sha_blocks n (sha_block st (take 16 ws)) (drop 16 ws)"

definition sha256 :: "bytes \<Rightarrow> bytes" where
  "sha256 m = (let ws = words_of (sha_pad m)
               in concat (map bytes_of (sha_blocks (length ws div 16) sha_init ws)))"


section \<open>Unpadded base64url\<close>

definition b64_char :: "int \<Rightarrow> char" where
  "b64_char n =
     (if n < 26 then char_of (65 + n) else if n < 52 then char_of (71 + n)
      else if n < 62 then char_of (n - 4) else if n = 62 then CHR ''-'' else CHR ''_'')"

definition b64_val :: "char \<Rightarrow> int option" where
  "b64_val c =
     (let n = of_char c :: int in
      if 65 \<le> n \<and> n \<le> 90 then Some (n - 65) else if 97 \<le> n \<and> n \<le> 122 then Some (n - 71)
      else if 48 \<le> n \<and> n \<le> 57 then Some (n + 4) else if c = CHR ''-'' then Some 62
      else if c = CHR ''_'' then Some 63 else None)"

fun b64_encode :: "bytes \<Rightarrow> string" where
  "b64_encode [] = []"
| "b64_encode [a] = (let n = of_char a in [b64_char (n div 4), b64_char (n mod 4 * 16)])"
| "b64_encode [a, b] =
     (let n = of_char a * 256 + of_char b in
      [b64_char (n div 1024), b64_char (n div 16 mod 64), b64_char (n mod 16 * 4)])"
| "b64_encode (a # b # c # r) =
     (let n = (of_char a * 256 + of_char b) * 256 + of_char c in
      b64_char (n div 262144) # b64_char (n div 4096 mod 64) # b64_char (n div 64 mod 64) #
      b64_char (n mod 64) # b64_encode r)"

text \<open>
  Decoding: \<open>encoding/base64\<close> skips line breaks, refuses every other byte outside the alphabet (so
  also padding) and a final group of one character, and, not being in its strict mode, ignores the
  unused low bits of the last group.
\<close>

fun b64_groups :: "int list \<Rightarrow> bytes option" where
  "b64_groups [] = Some []"
| "b64_groups [w] = None"
| "b64_groups [w, x] = Some [char_of ((w * 64 + x) div 16)]"
| "b64_groups [w, x, y] =
     (let n = (w * 64 + x) * 64 + y in Some [char_of (n div 1024), char_of (n div 4)])"
| "b64_groups (w # x # y # z # r) =
     (let n = ((w * 64 + x) * 64 + y) * 64 + z in
      map_option (\<lambda>t. char_of (n div 65536) # char_of (n div 256) # char_of n # t) (b64_groups r))"

fun b64_vals :: "string \<Rightarrow> int list option" where
  "b64_vals [] = Some []"
| "b64_vals (c # cs) =
     (if c = CHR 0x0A \<or> c = CHR 0x0D then b64_vals cs
      else case b64_val c of None \<Rightarrow> None | Some v \<Rightarrow> map_option ((#) v) (b64_vals cs))"

definition b64_decode :: "string \<Rightarrow> bytes option" where
  "b64_decode s = Option.bind (b64_vals s) b64_groups"

lemma b64_val_char [simp]: "0 \<le> n \<Longrightarrow> n < 64 \<Longrightarrow> b64_val (b64_char n) = Some n"
  by (auto simp: b64_char_def b64_val_def Let_def)

lemma b64_char_not_break [simp]:
  assumes "0 \<le> n" "n < 64"
  shows "b64_char n \<noteq> CHR 0x0A" "b64_char n \<noteq> CHR 0x0D"
  using b64_val_char [OF assms] by (auto simp: b64_val_def)

lemma b64_vals_Cons [simp]:
  "0 \<le> n \<Longrightarrow> n < 64 \<Longrightarrow> b64_vals (b64_char n # cs) = map_option ((#) n) (b64_vals cs)"
  by simp

lemma b64_vals_chars:
  "\<forall>v \<in> set vs. 0 \<le> v \<and> v < 64 \<Longrightarrow>
   b64_vals (map b64_char vs @ cs) = map_option ((@) vs) (b64_vals cs)"
  by (induction vs; cases "b64_vals cs") auto

lemma low_byte [simp]: "char_of (q * 256 + of_char b :: int) = b"
  by (metis char_of_char char_of_mod_256 mod_mult_self3)

lemma shift_byte [simp]: "(q * 256 + of_char b :: int) div 256 = q"
  using of_char_int_bounds [of b] by (simp add: div_pos_pos_trivial)

lemma shift_two_bytes [simp]: "((q * 256 + of_char b) * 256 + of_char c :: int) div 65536 = q"
proof -
  have "((q * 256 + of_char b) * 256 + of_char c :: int) div (256 * 256) = q"
    by (simp only: zdiv_zmult2_eq zero_le_numeral shift_byte)
  then show ?thesis
    by simp
qed

lemma regroup:
  fixes n d :: int
  assumes "0 < d"
  shows "n div (d * 64) * 64 + n div d mod 64 = n div d"
  using assms by (simp add: zdiv_zmult2_eq)

lemma sextet_bounds: "0 \<le> (n :: int) mod 64" "(n :: int) mod 64 < 64"
  by simp_all

lemma b64_decode_encode: "b64_decode (b64_encode s) = Some s"
proof (induction s rule: b64_encode.induct)
  case 1
  show ?case by (simp add: b64_decode_def)
next
  case (2 a)
  define n :: int where "n = of_char a"
  have n: "0 \<le> n" "n < 256" "char_of n = a"
    by (simp_all add: n_def)
  have "n div 4 * 64 + n mod 4 * 16 = n * 16"
    using mult_div_mod_eq [of 4 n] by linarith
  moreover have "0 \<le> n div 4" "n div 4 < 64" "0 \<le> n mod 4 * 16" "n mod 4 * 16 < 64"
    using n by linarith+
  ultimately show ?case
    using n(3) by (simp add: b64_decode_def Let_def flip: n_def)
next
  case (3 a b)
  define n :: int where "n = of_char a * 256 + of_char b"
  have n: "0 \<le> n" "n < 65536" "n div 256 = of_char a" "char_of n = b"
    using of_char_int_bounds [of a] of_char_int_bounds [of b] unfolding n_def
    by (linarith, linarith, simp_all)
  have "n div 1024 * 64 + n div 16 mod 64 = n div 16"
    using regroup [of 16 n] by simp
  moreover have "n div 16 * 64 + n mod 16 * 4 = n * 4"
    using mult_div_mod_eq [of 16 n] by linarith
  moreover have "n * 4 div 1024 = n div 256" "n * 4 div 4 = n"
    using div_mult_mult2 [of 4 n 256] by simp_all
  ultimately have groups: "b64_groups [n div 1024, n div 16 mod 64, n mod 16 * 4] = Some [a, b]"
    using n(3,4) by (simp only: b64_groups.simps Let_def char_of_char)
  have "0 \<le> n div 1024" "n div 1024 < 64" "0 \<le> n mod 16 * 4" "n mod 16 * 4 < 64"
    using n(1,2) by linarith+
  then have range: "\<forall>v \<in> set [n div 1024, n div 16 mod 64, n mod 16 * 4]. 0 \<le> v \<and> v < 64"
    using sextet_bounds [of "n div 16"] by (simp only: list.set ball_simps simp_thms insert_iff empty_iff)
  have "b64_encode [a, b] = map b64_char [n div 1024, n div 16 mod 64, n mod 16 * 4] @ []"
    by (simp add: Let_def n_def)
  then show ?case
    using b64_vals_chars [OF range, of "[]"] groups by (simp only: b64_decode_def) simp
next
  case (4 a b c r)
  define n :: int where "n = (of_char a * 256 + of_char b) * 256 + of_char c"
  define m :: int where "m = of_char a * 256 + of_char b"
  have "0 \<le> m" "m \<le> 65535"
    using of_char_int_bounds [of a] of_char_int_bounds [of b] unfolding m_def by linarith+
  moreover have "n = m * 256 + of_char c"
    by (simp add: n_def m_def)
  ultimately have "0 \<le> n" "n < 16777216"
    using of_char_int_bounds [of c] by linarith+
  moreover have "n div 65536 = of_char a" "char_of (n div 256) = b" "char_of n = c"
    unfolding n_def by (simp_all only: shift_two_bytes shift_byte low_byte)
  ultimately have n: "0 \<le> n" "n < 16777216" "n div 65536 = of_char a"
    "char_of (n div 256) = b" "char_of n = c" .
  have "((n div 262144 * 64 + n div 4096 mod 64) * 64 + n div 64 mod 64) * 64 + n mod 64 = n"
    using regroup [of 4096 n] regroup [of 64 n] by simp
  then have groups: "b64_groups ([n div 262144, n div 4096 mod 64, n div 64 mod 64, n mod 64] @ vs) =
      map_option (\<lambda>t. a # b # c # t) (b64_groups vs)" for vs
    using n(3-5) by (simp only: append.simps b64_groups.simps Let_def char_of_char)
  have "0 \<le> n div 262144" "n div 262144 < 64"
    using n(1,2) by linarith+
  then have range: "\<forall>v \<in> set [n div 262144, n div 4096 mod 64, n div 64 mod 64, n mod 64]. 0 \<le> v \<and> v < 64"
    using sextet_bounds by (simp only: list.set ball_simps simp_thms insert_iff empty_iff)
  have "b64_encode (a # b # c # r) =
      map b64_char [n div 262144, n div 4096 mod 64, n div 64 mod 64, n mod 64] @ b64_encode r"
    by (simp add: Let_def n_def)
  moreover obtain vs where "b64_vals (b64_encode r) = Some vs" "b64_groups vs = Some r"
    using "4.IH" by (auto simp: b64_decode_def bind_eq_Some_conv)
  ultimately show ?case
    using b64_vals_chars [OF range, of "b64_encode r"] groups [of vs]
    by (simp only: b64_decode_def option.map bind.bind_lunit)
qed

lemma b64_encode_inject: "b64_encode s = b64_encode t \<Longrightarrow> s = t"
  by (metis b64_decode_encode option.inject)

section \<open>Shape of the results\<close>

lemma length_sha_round: "length st = 8 \<Longrightarrow> length (sha_round st k w) = 8"
  by (induction st k w rule: sha_round.induct) (simp_all add: Let_def)

lemma length_sha_rounds: "length st = 8 \<Longrightarrow> length (sha_rounds st ks w) = 8"
  by (induction ks arbitrary: st w) (simp_all add: length_sha_round)

lemma length_sha_blocks: "length st = 8 \<Longrightarrow> length (sha_blocks n st ws) = 8"
  by (induction n arbitrary: st ws) (simp_all add: sha_block_def length_sha_rounds)

lemma length_sha256 [simp]: "length (sha256 m) = 32"
proof -
  have "length (concat (map bytes_of ws)) = 4 * length ws" for ws
    by (induction ws) (simp_all add: bytes_of_def Let_def)
  then show ?thesis
    by (simp add: sha256_def Let_def length_sha_blocks sha_init_def)
qed

lemma ascii_b64_char: "0 \<le> n \<Longrightarrow> of_char (b64_char n) < (128 :: int)"
  by (simp add: b64_char_def)

lemma ascii_b64 [simp]: "ascii (b64_encode s)"
  by (induction s rule: b64_encode.induct)
    (simp_all add: Let_def ascii_b64_char pos_imp_zdiv_nonneg_iff)

end
