(* ===== verification/LP_Canonical.thy ===== *)
theory LP_Canonical
  imports LP_Crypto
begin

text \<open>
  Canonical JSON (conformance/reference.go, \<open>Canonical\<close> and its writers): the dynamically typed values
  that envelopes are made of, their canonical bytes, and the two facts every signature and hash of the
  protocol rests on. The bytes do not depend on the order in which an object's members were put in,
  and two values with the same bytes are the same value up to that order.
\<close>

section \<open>Values\<close>

text \<open>
  The dynamic types that can sit in an \<open>any\<close> of the program: what \<open>DecodeJSON\<close> yields (\<open>nil\<close>,
  \<open>bool\<close>, \<open>string\<close>, \<open>json.Number\<close>, \<open>[]any\<close>, \<open>map[string]any\<close>), what the code builds by hand
  (\<open>int64\<close>, and \<open>int\<close>, which has the same width), the refused \<open>float64\<close>, and any other type.
\<close>

datatype gval =
    GNil
  | GBool bool
  | GStr string
  | GInt i64
  | GNumber string
  | GFloat
  | GArr "gval list"
  | GMap "(string \<times> gval) list"
  | GOther

type_synonym obj = "(string \<times> gval) list"

datatype canon_error = FloatInJSON string | Float64InJSON | UnsupportedType

section \<open>The canonical writer\<close>

definition has_float_char :: "string \<Rightarrow> bool" where
  "has_float_char s \<longleftrightarrow> (\<exists>c \<in> set s. c = CHR ''.'' \<or> c = CHR ''e'' \<or> c = CHR ''E'')"

text \<open>The object's keys in byte order, each once: \<open>sort.Strings\<close> over the keys of a Go map.\<close>

definition sorted_keys :: "(string \<times> 'v) list \<Rightarrow> string list" where
  "sorted_keys kvs = sort (remdups (map fst kvs))"

definition write_member :: "(string \<times> (canon_error + string)) list \<Rightarrow> string \<Rightarrow> canon_error + string" where
  "write_member ws k =
     (case map_of ws k of
        Some (Inr s) \<Rightarrow> Inr (json_quote k @ '':'' @ s)
      | Some (Inl e) \<Rightarrow> Inl e
      | None \<Rightarrow> Inl UnsupportedType)"

fun writeCanonical :: "gval \<Rightarrow> canon_error + string" where
  "writeCanonical GNil = Inr ''null''"
| "writeCanonical (GBool b) = Inr (if b then ''true'' else ''false'')"
| "writeCanonical (GStr s) = Inr (json_quote s)"
| "writeCanonical (GInt i) = Inr (dec64 i)"
| "writeCanonical (GNumber s) = (if has_float_char s then Inl (FloatInJSON s) else Inr s)"
| "writeCanonical GFloat = Inl Float64InJSON"
| "writeCanonical (GArr xs) =
     (case seq_all (map writeCanonical xs) of
        Inl e \<Rightarrow> Inl e
      | Inr ss \<Rightarrow> Inr (''['' @ join '','' ss @ '']''))"
| "writeCanonical (GMap kvs) =
     (let ws = map (\<lambda>kv. (fst kv, writeCanonical (snd kv))) kvs in
      case seq_all (map (write_member ws) (sorted_keys kvs)) of
        Inl e \<Rightarrow> Inl e
      | Inr ss \<Rightarrow> Inr (CHR 0x7B # join '','' ss @ [CHR 0x7D]))"
| "writeCanonical GOther = Inl UnsupportedType"

definition Canonical :: "gval \<Rightarrow> canon_error + bytes" where
  "Canonical v = writeCanonical v"

section \<open>Independence of member order\<close>

lemma sorted_keys_cong:
  "set (map fst kvs) = set (map fst kvs') \<Longrightarrow> sorted_keys kvs = sorted_keys kvs'"
  unfolding sorted_keys_def
  by (rule sorted_distinct_set_unique) (simp_all add: distinct_sort)

lemma set_sorted_keys [simp]: "set (sorted_keys kvs) = fst ` set kvs"
  by (simp add: sorted_keys_def)

lemma distinct_sorted_keys [simp]: "distinct (sorted_keys kvs)"
  by (simp add: sorted_keys_def distinct_sort)

lemma map_of_map_snd: "map_of (map (\<lambda>kv. (fst kv, f (snd kv))) kvs) k = map_option f (map_of kvs k)"
  by (induction kvs) auto

text \<open>Two association lists that are the same Go map have the same canonical bytes.\<close>

lemma writeCanonical_GMap_cong:
  assumes "map_of kvs = map_of kvs'"
  shows "writeCanonical (GMap kvs) = writeCanonical (GMap kvs')"
proof -
  have "set (map fst kvs) = set (map fst kvs')"
    by (metis assms dom_map_of_conv_image_fst set_map)
  then have "sorted_keys kvs = sorted_keys kvs'"
    by (rule sorted_keys_cong)
  moreover have "write_member (map (\<lambda>kv. (fst kv, writeCanonical (snd kv))) kvs) =
      write_member (map (\<lambda>kv. (fst kv, writeCanonical (snd kv))) kvs')"
    by (simp add: write_member_def map_of_map_snd assms fun_eq_iff)
  ultimately show ?thesis
    by (simp only: writeCanonical.simps Let_def)
qed

section \<open>When the writer succeeds\<close>

fun float_free :: "gval \<Rightarrow> bool" where
  "float_free (GNumber s) = (\<not> has_float_char s)"
| "float_free GFloat = False"
| "float_free GOther = False"
| "float_free (GArr xs) = (\<forall>x \<in> set xs. float_free x)"
| "float_free (GMap kvs) = (\<forall>kv \<in> set kvs. float_free (snd kv))"
| "float_free _ = True"

definition canon_ok :: "gval \<Rightarrow> bool" where
  "canon_ok v \<longleftrightarrow> is_ok (writeCanonical v)"

lemma write_member_ok:
  assumes "\<forall>kv \<in> set kvs. canon_ok (snd kv)" "k \<in> set (sorted_keys kvs)"
  shows "is_ok (write_member (map (\<lambda>kv. (fst kv, writeCanonical (snd kv))) kvs) k)"
proof -
  from assms(2) obtain v where v: "map_of kvs k = Some v"
    by (metis domD dom_map_of_conv_image_fst set_sorted_keys)
  then have "canon_ok v"
    using assms(1) by (metis map_of_SomeD snd_conv)
  with v show ?thesis
    by (auto simp: write_member_def map_of_map_snd canon_ok_def is_ok_iff)
qed

lemma canon_ok_GArr: "\<forall>x \<in> set xs. canon_ok x \<Longrightarrow> canon_ok (GArr xs)"
  using is_ok_seq_all [of xs writeCanonical] by (auto simp: canon_ok_def is_ok_iff)

lemma canon_ok_GMap: "\<forall>kv \<in> set kvs. canon_ok (snd kv) \<Longrightarrow> canon_ok (GMap kvs)"
  using is_ok_seq_all [of "sorted_keys kvs" "write_member (map (\<lambda>kv. (fst kv, writeCanonical (snd kv))) kvs)"]
    write_member_ok [of kvs]
  by (auto simp: canon_ok_def is_ok_iff Let_def)

lemma float_free_canon_ok: "float_free v \<Longrightarrow> canon_ok v"
proof (induction v)
  case (GMap kvs)
  then have "\<forall>kv \<in> set kvs. canon_ok (snd kv)"
    by (metis float_free.simps(5) prod.collapse snds.intros)
  then show ?case
    by (rule canon_ok_GMap)
qed (simp_all add: canon_ok_GArr, simp_all add: canon_ok_def)

section \<open>Injectivity\<close>

text \<open>
  The value up to what canonical JSON forgets: an \<open>int64\<close> is the number with its decimal text, and an
  object's members are sorted.
\<close>

fun norm :: "gval \<Rightarrow> gval" where
  "norm (GInt i) = GNumber (dec64 i)"
| "norm (GArr xs) = GArr (map norm xs)"
| "norm (GMap kvs) =
     (let ns = map (\<lambda>kv. (fst kv, norm (snd kv))) kvs in
      GMap (map (\<lambda>k. (k, case map_of ns k of Some v \<Rightarrow> v | None \<Rightarrow> GNil)) (sorted_keys kvs)))"
| "norm v = v"

definition num_char :: "char \<Rightarrow> bool" where
  "num_char c \<longleftrightarrow> is_digit c \<or> c = CHR ''-''"

text \<open>The values the theorem is about: ASCII text and integer numbers, the protocol's ids, names and amounts.\<close>

fun plain :: "gval \<Rightarrow> bool" where
  "plain (GStr s) = ascii s"
| "plain (GNumber s) = (s \<noteq> [] \<and> (\<forall>c \<in> set s. num_char c))"
| "plain GFloat = False"
| "plain GOther = False"
| "plain (GArr xs) = (\<forall>x \<in> set xs. plain x)"
| "plain (GMap kvs) = (\<forall>kv \<in> set kvs. ascii (fst kv) \<and> plain (snd kv))"
| "plain _ = True"

definition ends :: "string \<Rightarrow> bool" where
  "ends x \<longleftrightarrow> (case x of [] \<Rightarrow> True | c # _ \<Rightarrow> \<not> num_char c)"

lemma dec64_num: "dec64 i \<noteq> [] \<and> (\<forall>c \<in> set (dec64 i). num_char c)"
  using dec_pos_digits [of "sint i"] dec_pos_digits [of "- sint i"]
  by (auto simp: dec64_def dec_int_def num_char_def)

lemma num_prefix_free:
  assumes "\<forall>c \<in> set s. num_char c" "\<forall>c \<in> set t. num_char c" "ends x" "ends y" "s @ x = t @ y"
  shows "s = t \<and> x = y"
proof -
  have "takeWhile num_char (s @ x) = s" if "\<forall>c \<in> set s. num_char c" "ends x" for s x
    using that by (cases x) (auto simp: ends_def)
  from this [OF assms(1,3)] this [OF assms(2,4)] assms(5) show ?thesis
    by auto
qed

text \<open>Joined items between a separator and a closing mark can be read off from the left.\<close>

lemma join_prefix_free:
  assumes "\<forall>s \<in> set ss. \<forall>t \<in> set ts. \<forall>x y. ends x \<longrightarrow> ends y \<longrightarrow> s @ x = t @ y \<longrightarrow> s = t \<and> x = y"
    and "\<forall>s \<in> set ss \<union> set ts. s \<noteq> [] \<and> hd s \<noteq> c"
    and "\<not> num_char c" "c \<noteq> CHR '',''"
    and "join '','' ss @ c # x = join '','' ts @ c # y"
  shows "ss = ts \<and> x = y"
  using assms(1,2,5)
proof (induction ss arbitrary: ts)
  case Nil
  show ?case
  proof (cases ts)
    case (Cons t ts')
    then have "t \<noteq> []" "hd t \<noteq> c"
      using Nil.prems(2) by auto
    moreover have "hd (join '','' ts @ c # y) = hd t"
      using Cons \<open>t \<noteq> []\<close> by (cases t) (simp_all add: join_Cons)
    ultimately show ?thesis
      using Nil.prems(3) by (metis append_Nil join.simps(1) list.sel(1))
  qed (use Nil in simp)
next
  case (Cons s ss)
  let ?tail = "\<lambda>us z. if us = [] then c # z else '','' @ join '','' us @ c # z"
  have tail: "join '','' (u # us) @ c # z = u @ ?tail us z" for u us z
    by (simp add: join_Cons)
  have ends: "ends (?tail us z)" for us z
    using assms(3) by (simp add: ends_def num_char_def is_digit_def)
  show ?case
  proof (cases ts)
    case Nil
    with Cons.prems have "s @ ?tail ss x = c # y"
      by (simp only: tail) simp
    moreover have "s \<noteq> []" "hd s \<noteq> c"
      using Cons.prems by auto
    ultimately show ?thesis
      by (metis hd_append2 list.sel(1))
  next
    case (Cons t ts')
    with Cons.prems(3) have eq: "s @ ?tail ss x = t @ ?tail ts' y"
      by (simp only: tail)
    have "s \<in> set (s # ss)" "t \<in> set ts"
      using Cons by simp_all
    note pf = bspec [OF bspec [OF Cons.prems(1) this(1)] this(2), rule_format]
    have st: "s = t" "?tail ss x = ?tail ts' y"
      using pf [OF ends ends eq] by simp_all
    show ?thesis
    proof (cases "ss = [] \<or> ts' = []")
      case True
      with st(2) assms(4) show ?thesis
        using Cons st(1) by (auto split: if_splits)
    next
      case False
      with st(2) have "join '','' ss @ c # x = join '','' ts' @ c # y"
        by simp
      moreover have "\<forall>s \<in> set ss. \<forall>t \<in> set ts'. \<forall>x y. ends x \<longrightarrow> ends y \<longrightarrow>
          s @ x = t @ y \<longrightarrow> s = t \<and> x = y"
        using Cons.prems(1) unfolding Cons by (meson list.set_intros(2))
      moreover have "\<forall>s \<in> set ss \<union> set ts'. s \<noteq> [] \<and> hd s \<noteq> c"
        using Cons.prems(2) unfolding Cons by (meson UnCI UnE list.set_intros(2))
      ultimately have "ss = ts' \<and> x = y"
        by (intro Cons.IH)
      with Cons st(1) show ?thesis
        by simp
    qed
  qed
qed

text \<open>What the output of each kind of value looks like, and the first byte that tells the kinds apart.\<close>

lemma writeCanonical_GArr_D:
  "writeCanonical (GArr xs) = Inr a \<Longrightarrow>
   \<exists>ss. map writeCanonical xs = map Inr ss \<and> a = CHR ''['' # join '','' ss @ '']''"
  by (auto split: sum.splits dest: seq_all_Inr_D)

definition members :: "(string \<times> gval) list \<Rightarrow> (string \<times> (canon_error + string)) list" where
  "members kvs = map (\<lambda>kv. (fst kv, writeCanonical (snd kv))) kvs"

lemma writeCanonical_GMap_D:
  "writeCanonical (GMap kvs) = Inr a \<Longrightarrow>
   \<exists>ss. map (write_member (members kvs)) (sorted_keys kvs) = map Inr ss \<and>
        a = CHR 0x7B # join '','' ss @ [CHR 0x7D]"
  by (auto simp: Let_def members_def split: sum.splits dest: seq_all_Inr_D)

lemma write_member_D:
  assumes "write_member (members kvs) k = Inr m"
  obtains v s where "map_of kvs k = Some v" "(k, v) \<in> set kvs" "writeCanonical v = Inr s"
    "m = json_quote k @ CHR '':'' # s"
  using assms
  by (auto simp: write_member_def members_def map_of_map_snd split: option.splits sum.splits
      dest: map_of_SomeD)

definition tag_of :: "char \<Rightarrow> char" where
  "tag_of c = (if num_char c then CHR ''0'' else c)"

fun tag :: "gval \<Rightarrow> char" where
  "tag GNil = CHR ''n''"
| "tag (GBool b) = (if b then CHR ''t'' else CHR ''f'')"
| "tag (GStr s) = quot"
| "tag (GArr xs) = CHR ''[''"
| "tag (GMap kvs) = CHR 0x7B"
| "tag _ = CHR ''0''"

lemma canon_tag:
  assumes "plain v" "writeCanonical v = Inr a"
  shows "a \<noteq> [] \<and> tag_of (hd a) = tag v"
proof (cases v)
  case (GInt i)
  then show ?thesis
    using assms dec64_num [of i] by (cases a) (auto simp: tag_of_def)
next
  case (GNumber s)
  then show ?thesis
    using assms by (cases a) (auto simp: tag_of_def split: if_splits)
next
  case (GArr xs)
  then show ?thesis
    using assms(2) writeCanonical_GArr_D [of xs a] by (auto simp: tag_of_def num_char_def is_digit_def)
next
  case (GMap kvs)
  then show ?thesis
    using assms(2) writeCanonical_GMap_D [of kvs a] by (auto simp: tag_of_def num_char_def is_digit_def)
qed (use assms in \<open>auto simp: tag_of_def num_char_def is_digit_def json_quote_def quot_def split: if_splits\<close>)

lemma same_tag:
  assumes "plain v" "plain w" "writeCanonical v = Inr a" "writeCanonical w = Inr b" "a @ x = b @ y"
  shows "tag v = tag w"
  using canon_tag [OF assms(1,3)] canon_tag [OF assms(2,4)] assms(5)
  by (metis hd_append2)

text \<open>A canonical text is not a proper prefix of another one, unless a number goes on.\<close>

definition prefix_free :: "gval \<Rightarrow> bool" where
  "prefix_free v \<longleftrightarrow>
     (\<forall>w a b x y. plain w \<longrightarrow> writeCanonical v = Inr a \<longrightarrow> writeCanonical w = Inr b \<longrightarrow>
        ends x \<longrightarrow> ends y \<longrightarrow> a @ x = b @ y \<longrightarrow> a = b \<and> x = y)"

lemma prefix_freeI:
  assumes "\<And>w a b x y. plain w \<Longrightarrow> writeCanonical v = Inr a \<Longrightarrow> writeCanonical w = Inr b \<Longrightarrow>
    ends x \<Longrightarrow> ends y \<Longrightarrow> a @ x = b @ y \<Longrightarrow> tag v = tag w \<Longrightarrow> a = b \<and> x = y" "plain v"
  shows "prefix_free v"
  using assms same_tag unfolding prefix_free_def by metis

lemma prefix_freeD:
  assumes "prefix_free v" "plain w" "writeCanonical v = Inr a" "writeCanonical w = Inr b"
    "ends x" "ends y" "a @ x = b @ y"
  shows "a = b \<and> x = y"
  using assms unfolding prefix_free_def by blast

lemma num_text:
  assumes "plain v" "tag v = CHR ''0''" "writeCanonical v = Inr a"
  shows "\<forall>c \<in> set a. num_char c"
  using assms dec64_num by (cases v) (auto simp: quot_def split: if_splits)

lemma tag_num_cases: "tag v = CHR ''0'' \<longleftrightarrow> (\<exists>i. v = GInt i) \<or> (\<exists>s. v = GNumber s) \<or> v = GFloat \<or> v = GOther"
  by (cases v) (auto simp: quot_def)

lemma prefix_free_num:
  assumes "plain v" "tag v = CHR ''0''"
  shows "prefix_free v"
proof (rule prefix_freeI [OF _ assms(1)])
  fix w a b x y
  assume w: "plain w" "writeCanonical v = Inr a" "writeCanonical w = Inr b" "ends x" "ends y"
    "a @ x = b @ y" "tag v = tag w"
  then have "\<forall>c \<in> set a. num_char c" "\<forall>c \<in> set b. num_char c"
    using num_text assms by metis+
  with w show "a = b \<and> x = y"
    using num_prefix_free by blast
qed

lemma mem_of_map_Inr: "map f zs = map Inr us \<Longrightarrow> u \<in> set us \<Longrightarrow> \<exists>z \<in> set zs. f z = Inr u"
  by (metis imageE image_eqI list.set_map)

lemma array_items:
  assumes "\<forall>v \<in> set xs. prefix_free v" "\<forall>v \<in> set xs \<union> set ys. plain v"
    and ss: "map writeCanonical xs = map Inr ss" and ts: "map writeCanonical ys = map Inr ts"
    and eq: "join '','' ss @ CHR '']'' # x = join '','' ts @ CHR '']'' # y"
  shows "ss = ts \<and> x = y"
proof (rule join_prefix_free [OF _ _ _ _ eq])
  show "\<forall>s \<in> set ss. \<forall>t \<in> set ts. \<forall>x y. ends x \<longrightarrow> ends y \<longrightarrow> s @ x = t @ y \<longrightarrow> s = t \<and> x = y"
    using mem_of_map_Inr [OF ss] mem_of_map_Inr [OF ts] assms(1,2) by (metis UnCI prefix_freeD)
  have "tag v \<noteq> CHR '']''" for v
    by (cases v) (auto simp: quot_def)
  moreover have "tag_of (CHR '']'') = CHR '']''"
    by (simp add: tag_of_def num_char_def is_digit_def)
  ultimately show "\<forall>s \<in> set ss \<union> set ts. s \<noteq> [] \<and> hd s \<noteq> CHR '']''"
    using mem_of_map_Inr [OF ss] mem_of_map_Inr [OF ts] assms(2) canon_tag by (metis Un_iff)
qed (simp_all add: num_char_def is_digit_def)

lemma prefix_free_array:
  assumes "\<forall>v \<in> set xs. prefix_free v" "plain (GArr xs)"
  shows "prefix_free (GArr xs)"
proof (rule prefix_freeI [OF _ assms(2)])
  fix w a b x y
  assume w: "plain w" "writeCanonical (GArr xs) = Inr a" "writeCanonical w = Inr b" "ends x" "ends y"
    "a @ x = b @ y" "tag (GArr xs) = tag w"
  then obtain ys where ys: "w = GArr ys"
    by (cases w) (auto simp: quot_def split: if_splits)
  obtain ss ts where ss: "map writeCanonical xs = map Inr ss" "a = CHR ''['' # join '','' ss @ '']''"
    and ts: "map writeCanonical ys = map Inr ts" "b = CHR ''['' # join '','' ts @ '']''"
    using writeCanonical_GArr_D w(2,3) ys by metis
  have "\<forall>v \<in> set xs \<union> set ys. plain v"
    using assms(2) w(1) ys by auto
  moreover have "join '','' ss @ CHR '']'' # x = join '','' ts @ CHR '']'' # y"
    using w(6) ss ts by simp
  ultimately have "ss = ts \<and> x = y"
    using array_items [OF assms(1)] ss(1) ts(1) by blast
  with ss ts show "a = b \<and> x = y"
    by simp
qed

text \<open>A member is told apart by its key, then by its value.\<close>

lemma member_prefix_free:
  assumes "\<forall>kv \<in> set kvs. prefix_free (snd kv)" "plain (GMap kvs)" "plain (GMap kws)"
    and "write_member (members kvs) k = Inr s" "write_member (members kws) k' = Inr t"
    and "ends x" "ends y" "s @ x = t @ y"
  shows "k = k' \<and> s = t \<and> x = y"
proof -
  obtain v c where v: "(k, v) \<in> set kvs" "writeCanonical v = Inr c" "s = json_quote k @ CHR '':'' # c"
    using write_member_D [OF assms(4)] by metis
  obtain v' c' where v': "(k', v') \<in> set kws" "writeCanonical v' = Inr c'" "t = json_quote k' @ CHR '':'' # c'"
    using write_member_D [OF assms(5)] by metis
  have plain: "ascii k" "ascii k'" "plain v'" and pf: "prefix_free v"
    using assms(1,2,3) v(1) v'(1) by fastforce+
  have "json_quote k @ CHR '':'' # c @ x = json_quote k' @ CHR '':'' # c' @ y"
    using assms(8) v(3) v'(3) by simp
  then have kk: "k = k'" and "c @ x = c' @ y"
    using json_quote_prefix_free [OF plain(1,2)] by (metis list.inject)+
  then show ?thesis
    using prefix_freeD [OF pf plain(3) v(2) v'(2) assms(6,7)] v(3) v'(3) by simp
qed

lemma object_items:
  assumes pf: "\<forall>kv \<in> set kvs. prefix_free (snd kv)" and "plain (GMap kvs)" "plain (GMap kws)"
    and ss: "map (write_member (members kvs)) ks = map Inr ss"
    and ts: "map (write_member (members kws)) ks' = map Inr ts"
    and eq: "join '','' ss @ CHR 0x7D # x = join '','' ts @ CHR 0x7D # y"
  shows "ss = ts \<and> x = y"
proof (rule join_prefix_free [OF _ _ _ _ eq])
  show "\<forall>s \<in> set ss. \<forall>t \<in> set ts. \<forall>x y. ends x \<longrightarrow> ends y \<longrightarrow> s @ x = t @ y \<longrightarrow> s = t \<and> x = y"
  proof (intro ballI allI impI)
    fix s t x y
    assume "s \<in> set ss" "t \<in> set ts" "ends x" "ends y" "s @ x = t @ y"
    then show "s = t \<and> x = y"
      using mem_of_map_Inr [OF ss] mem_of_map_Inr [OF ts] member_prefix_free [OF assms(1-3)] by meson
  qed
  have "json_quote k @ r \<noteq> []" "hd (json_quote k @ r) \<noteq> CHR 0x7D" for k r
    by (simp_all add: json_quote_def quot_def)
  then have "s \<noteq> [] \<and> hd s \<noteq> CHR 0x7D" if "write_member (members ms) k = Inr s" for ms k s
    using write_member_D [OF that] by metis
  then show "\<forall>s \<in> set ss \<union> set ts. s \<noteq> [] \<and> hd s \<noteq> CHR 0x7D"
    using mem_of_map_Inr [OF ss] mem_of_map_Inr [OF ts] by (metis Un_iff)
qed (simp_all add: num_char_def is_digit_def)

lemma prefix_free_object:
  assumes "\<forall>kv \<in> set kvs. prefix_free (snd kv)" "plain (GMap kvs)"
  shows "prefix_free (GMap kvs)"
proof (rule prefix_freeI [OF _ assms(2)])
  fix w a b x y
  assume w: "plain w" "writeCanonical (GMap kvs) = Inr a" "writeCanonical w = Inr b" "ends x" "ends y"
    "a @ x = b @ y" "tag (GMap kvs) = tag w"
  then obtain kws where kws: "w = GMap kws"
    by (cases w) (auto simp: quot_def split: if_splits)
  obtain ss ts where
      ss: "map (write_member (members kvs)) (sorted_keys kvs) = map Inr ss" "a = CHR 0x7B # join '','' ss @ [CHR 0x7D]"
    and ts: "map (write_member (members kws)) (sorted_keys kws) = map Inr ts" "b = CHR 0x7B # join '','' ts @ [CHR 0x7D]"
    using writeCanonical_GMap_D w(2,3) kws by metis
  moreover have "join '','' ss @ CHR 0x7D # x = join '','' ts @ CHR 0x7D # y"
    using w(6) ss ts by simp
  ultimately have "ss = ts \<and> x = y"
    using object_items [OF assms w(1) [unfolded kws] ss(1) ts(1)] by blast
  with ss ts show "a = b \<and> x = y"
    by simp
qed

lemma tag_eqs:
  "tag GNil = tag w \<longleftrightarrow> w = GNil"
  "tag (GBool c) = tag w \<longleftrightarrow> w = GBool c"
  "tag (GStr s) = tag w \<longleftrightarrow> (\<exists>t. w = GStr t)"
  by (cases w; auto simp: quot_def)+

lemma plain_prefix_free: "plain v \<Longrightarrow> prefix_free v"
proof (induction v)
  case GNil
  show ?case
    by (rule prefix_freeI) (auto simp: tag_eqs simp del: tag.simps)
next
  case (GBool b)
  show ?case
    by (rule prefix_freeI) (auto simp: tag_eqs simp del: tag.simps)
next
  case (GStr s)
  then have "json_quote s @ x = json_quote t @ y \<Longrightarrow> ascii t \<Longrightarrow> json_quote s = json_quote t \<and> x = y" for t x y
    using json_quote_prefix_free by (metis plain.simps(1))
  with GStr show ?case
    by (intro prefix_freeI) (simp_all only: tag_eqs, auto)
next
  case (GArr xs)
  then show ?case
    by (intro prefix_free_array) auto
next
  case (GMap kvs)
  then have "\<forall>kv \<in> set kvs. prefix_free (snd kv)"
    by (metis plain.simps(6) prod.collapse snds.intros)
  with GMap.prems show ?case
    by (intro prefix_free_object)
qed (simp_all add: prefix_free_num)

lemma canon_prefix_free:
  assumes "plain v" "plain w" "writeCanonical v = Inr a" "writeCanonical w = Inr b"
    "ends x" "ends y" "a @ x = b @ y"
  shows "a = b \<and> x = y"
  using prefix_freeD [OF plain_prefix_free] assms by blast


text \<open>Equal canonical bytes mean equal values, up to member order and the two spellings of an integer.\<close>

lemma norm_GMap: "norm (GMap kvs) =
  GMap (map (\<lambda>k. (k, case map_option norm (map_of kvs k) of Some v \<Rightarrow> v | None \<Rightarrow> GNil)) (sorted_keys kvs))"
  by (simp add: Let_def map_of_map_snd)

lemma array_inject:
  assumes "plain (GArr xs)" "plain (GArr ys)" "writeCanonical (GArr xs) = Inr a" "writeCanonical (GArr ys) = Inr a"
  shows "map writeCanonical xs = map writeCanonical ys"
proof -
  obtain ss ts where ss: "map writeCanonical xs = map Inr ss" "a = CHR ''['' # join '','' ss @ '']''"
    and ts: "map writeCanonical ys = map Inr ts" "a = CHR ''['' # join '','' ts @ '']''"
    using writeCanonical_GArr_D assms(3,4) by metis
  have "ss = ts \<and> ([] :: string) = []"
    by (rule array_items [OF _ _ ss(1) ts(1)]) (use assms(1,2) plain_prefix_free ss(2) ts(2) in auto)
  with ss(1) ts(1) show ?thesis
    by simp
qed

lemma map_Inr_determined:
  assumes "map f ks = map Inr ss" "map g ks' = map Inr ss"
    and "\<And>k k' s. k \<in> set ks \<Longrightarrow> k' \<in> set ks' \<Longrightarrow> f k = Inr s \<Longrightarrow> g k' = Inr s \<Longrightarrow> k = k'"
  shows "ks = ks'"
  using assms
proof (induction ks arbitrary: ks' ss)
  case Nil
  then show ?case by simp
next
  case (Cons k ks)
  then obtain k' ks'' s ss' where eq: "ks' = k' # ks''" "ss = s # ss'"
    by (cases ks'; cases ss) auto
  have "f k = Inr s" "g k' = Inr s" and tails: "map f ks = map Inr ss'" "map g ks'' = map Inr ss'"
    using Cons.prems(1,2) eq by simp_all
  then have "k = k'"
    using eq(1) by (intro Cons.prems(3)) simp_all
  moreover have "ks = ks''"
    by (rule Cons.IH [OF tails]) (use Cons.prems(3) eq(1) in simp)
  ultimately show ?case
    by (simp add: eq(1))
qed

text \<open>Two objects with the same bytes have the same keys, and under each key values with the same bytes.\<close>

lemma object_inject:
  assumes "plain (GMap kvs)" "plain (GMap kws)" "writeCanonical (GMap kvs) = Inr a" "writeCanonical (GMap kws) = Inr a"
  shows "sorted_keys kvs = sorted_keys kws"
    and "\<And>k v. map_of kvs k = Some v \<Longrightarrow> \<exists>w. map_of kws k = Some w \<and> writeCanonical v = writeCanonical w"
proof -
  obtain ss ts where
      ss: "map (write_member (members kvs)) (sorted_keys kvs) = map Inr ss" "a = CHR 0x7B # join '','' ss @ [CHR 0x7D]"
    and ts: "map (write_member (members kws)) (sorted_keys kws) = map Inr ts" "a = CHR 0x7B # join '','' ts @ [CHR 0x7D]"
    using writeCanonical_GMap_D assms(3,4) by metis
  have pf: "\<forall>kv \<in> set kvs. prefix_free (snd kv)"
    using assms(1) plain_prefix_free by simp
  have "ss = ts \<and> ([] :: string) = []"
    by (rule object_items [OF pf assms(1,2) ss(1) ts(1)]) (use ss(2) ts(2) in auto)
  then have ts': "map (write_member (members kws)) (sorted_keys kws) = map Inr ss"
    using ts(1) by simp
  have key: "k = k'" if "write_member (members kvs) k = Inr s" "write_member (members kws) k' = Inr s" for k k' s
    using member_prefix_free [OF pf assms(1,2) that, of "[]" "[]"] by (simp add: ends_def)
  show keys: "sorted_keys kvs = sorted_keys kws"
    by (rule map_Inr_determined [OF ss(1) ts']) (rule key)
  fix k v
  assume v: "map_of kvs k = Some v"
  then have "k \<in> set (sorted_keys kvs)"
    by (metis domI dom_map_of_conv_image_fst set_sorted_keys)
  moreover have "map (write_member (members kvs)) (sorted_keys kvs) = map (write_member (members kws)) (sorted_keys kvs)"
    using ss(1) ts' keys by simp
  ultimately have same: "write_member (members kvs) k = write_member (members kws) k"
    by (auto simp: map_eq_conv)
  obtain s where "write_member (members kvs) k = Inr s"
    using \<open>k \<in> set (sorted_keys kvs)\<close> ss(1) by (metis imageE image_eqI list.set_map)
  with same obtain w c where "map_of kws k = Some w" "writeCanonical w = Inr c" "s = json_quote k @ CHR '':'' # c"
    by (metis write_member_D)
  moreover obtain c' where "writeCanonical v = Inr c'" "s = json_quote k @ CHR '':'' # c'"
    using \<open>write_member (members kvs) k = Inr s\<close> v by (metis option.inject write_member_D)
  ultimately show "\<exists>w. map_of kws k = Some w \<and> writeCanonical v = writeCanonical w"
    by auto
qed

lemma map_eq_lift:
  assumes "map f xs = map f ys" "\<And>x y. x \<in> set xs \<Longrightarrow> y \<in> set ys \<Longrightarrow> f x = f y \<Longrightarrow> g x = g y"
  shows "map g xs = map g ys"
  using assms
proof (induction xs arbitrary: ys)
  case (Cons x xs)
  then obtain y ys' where "ys = y # ys'" "f x = f y" "map f xs = map f ys'"
    by (cases ys) auto
  with Cons show ?case
    by simp
qed simp

lemma plain_float_free: "plain v \<Longrightarrow> float_free v"
proof (induction v)
  case (GMap kvs)
  then show ?case
    by (metis float_free.simps(5) plain.simps(6) prod.collapse snds.intros)
qed (auto simp: has_float_char_def num_char_def is_digit_def)

lemma plain_canonical: "plain v \<Longrightarrow> \<exists>a. writeCanonical v = Inr a"
  using plain_float_free float_free_canon_ok by (auto simp: canon_ok_def is_ok_iff)

lemma same_tag_canonical:
  assumes "plain v" "plain w" "writeCanonical v = writeCanonical w"
  shows "tag v = tag w"
proof -
  obtain a where a: "writeCanonical v = Inr a"
    using plain_canonical assms(1) by blast
  show ?thesis
    by (rule same_tag [OF assms(1,2) a a [unfolded assms(3)] refl])
qed

lemma norm_num:
  "plain v \<Longrightarrow> tag v = CHR ''0'' \<Longrightarrow> writeCanonical v = Inr a \<Longrightarrow> norm v = GNumber a"
  by (cases v) (auto simp: quot_def split: if_splits)

lemma norm_GMap_eqI:
  assumes "sorted_keys kvs = sorted_keys kws"
    and "\<And>k. k \<in> fst ` set kvs \<Longrightarrow> map_option norm (map_of kvs k) = map_option norm (map_of kws k)"
  shows "norm (GMap kvs) = norm (GMap kws)"
proof -
  have "k \<in> set (sorted_keys kws) \<Longrightarrow> map_option norm (map_of kvs k) = map_option norm (map_of kws k)" for k
    by (rule assms(2)) (metis assms(1) set_sorted_keys)
  then have "(case map_option norm (map_of kvs k) of Some v \<Rightarrow> v | None \<Rightarrow> GNil) =
      (case map_option norm (map_of kws k) of Some v \<Rightarrow> v | None \<Rightarrow> GNil)"
    if "k \<in> set (sorted_keys kws)" for k
    using that by (simp only:)
  then show ?thesis
    unfolding norm_GMap assms(1) by (simp only: map_eq_conv gval.inject prod.inject simp_thms) blast
qed

lemma canonical_norm: "plain v \<Longrightarrow> plain w \<Longrightarrow> writeCanonical v = writeCanonical w \<Longrightarrow> norm v = norm w"
proof (induction v arbitrary: w)
  case GNil
  then show ?case using same_tag_canonical tag_eqs(1) by metis
next
  case (GBool b)
  then show ?case using same_tag_canonical tag_eqs(2) by metis
next
  case (GStr s)
  then obtain t where t: "w = GStr t"
    using same_tag_canonical tag_eqs(3) by metis
  with GStr have "json_quote s @ [] = json_quote t @ []" "ascii s" "ascii t"
    by simp_all
  then have "s = t"
    using json_quote_prefix_free by blast
  with t show ?case
    by simp
next
  case (GArr xs)
  then have "tag w = CHR ''[''"
    using same_tag_canonical [of "GArr xs" w] by simp
  then obtain ys where ys: "w = GArr ys"
    by (cases w) (auto simp: quot_def split: if_splits)
  obtain a where "writeCanonical (GArr xs) = Inr a"
    using plain_canonical GArr.prems(1) by blast
  with GArr.prems ys have "map writeCanonical xs = map writeCanonical ys"
    by (intro array_inject [of _ _ a]) simp_all
  then have "map norm xs = map norm ys"
    by (rule map_eq_lift) (use GArr ys in auto)
  with ys show ?case
    by simp
next
  case (GMap kvs)
  then have "tag w = CHR 0x7B"
    using same_tag_canonical [of "GMap kvs" w] by simp
  then obtain kws where ws: "w = GMap kws"
    by (cases w) (auto simp: quot_def split: if_splits)
  obtain a where a: "writeCanonical (GMap kvs) = Inr a" "writeCanonical (GMap kws) = Inr a"
    using plain_canonical GMap.prems ws by metis
  note inj = object_inject [OF GMap.prems(1) GMap.prems(2) [unfolded ws] a]
  show ?case
    unfolding ws
  proof (rule norm_GMap_eqI [OF inj(1)])
    fix k assume "k \<in> fst ` set kvs"
    then obtain v where v: "map_of kvs k = Some v"
      by (metis domD dom_map_of_conv_image_fst)
    then obtain w' where w': "map_of kws k = Some w'" "writeCanonical v = writeCanonical w'"
      using inj(2) by blast
    have mem: "(k, v) \<in> set kvs" "(k, w') \<in> set kws"
      using v w' by (simp_all add: map_of_SomeD)
    then have "plain v" "plain w'"
      using GMap.prems ws by fastforce+
    then have "norm v = norm w'"
      by (intro GMap.IH [OF mem(1) _ _ _ w'(2)]) (simp_all add: snds.simps)
    with v w' show "map_option norm (map_of kvs k) = map_option norm (map_of kws k)"
      by simp
  qed
next
  case (GInt i)
  then show ?case
    using same_tag_canonical [OF GInt] norm_num [of w "dec64 i"] by simp
next
  case (GNumber s)
  have s: "writeCanonical (GNumber s) = Inr s"
    using plain_float_free [OF GNumber(1)] by simp
  have "tag w = CHR ''0''"
    using same_tag_canonical [OF GNumber] by simp
  then have "norm w = GNumber s"
    by (rule norm_num [OF GNumber(2)]) (use s GNumber(3) in \<open>simp only:\<close>)
  then show ?case
    by simp
qed simp_all

text \<open>The bytes are a function of the normal form, so for plain values the two are equivalent.\<close>

lemma write_member_norm:
  assumes "\<forall>kv \<in> set kvs. writeCanonical (norm (snd kv)) = writeCanonical (snd kv)"
  shows "write_member (map (\<lambda>kv. (fst kv, writeCanonical (norm (snd kv)))) kvs) = write_member (members kvs)"
  using assms by (simp add: members_def cong: map_cong)

lemma norm_members:
  assumes "k \<in> set (sorted_keys kvs)"
  shows "map_of (map (\<lambda>k. (k, case map_option norm (map_of kvs k) of Some v \<Rightarrow> v | None \<Rightarrow> GNil)) (sorted_keys kvs)) k
    = map_option norm (map_of kvs k)"
proof -
  obtain v where "map_of kvs k = Some v"
    using assms by (metis domD dom_map_of_conv_image_fst set_sorted_keys)
  then show ?thesis
    using assms by (simp add: map_of_map_restrict restrict_map_def del: set_sorted_keys)
qed

lemma write_member_map_of:
  "write_member (members kvs) k =
     (case map_of kvs k of
        None \<Rightarrow> Inl UnsupportedType
      | Some v \<Rightarrow> (case writeCanonical v of Inl e \<Rightarrow> Inl e | Inr s \<Rightarrow> Inr (json_quote k @ '':'' @ s)))"
  by (simp add: write_member_def members_def map_of_map_snd split: option.splits sum.splits)

lemma sorted_keys_idem: "sorted_keys (map (\<lambda>k. (k, f k)) (sorted_keys kvs)) = sorted_keys kvs"
proof -
  have "sorted_keys (map (\<lambda>k. (k, f k)) ks) = ks" if "sorted ks" "distinct ks" for ks
    using that by (simp add: sorted_keys_def comp_def distinct_remdups_id sort_key_id_if_sorted)
  moreover have "sorted (sorted_keys kvs)"
    by (simp add: sorted_keys_def)
  ultimately show ?thesis
    by simp
qed

lemma writeCanonical_norm: "writeCanonical (norm v) = writeCanonical v"
proof (induction v)
  case (GInt i)
  have "float_free (GNumber (dec64 i))"
    using plain_float_free [of "GNumber (dec64 i)"] dec64_num by simp
  then show ?case by simp
next
  case (GArr xs)
  then show ?case by (simp add: comp_def cong: map_cong)
next
  case (GMap kvs)
  let ?n = "map (\<lambda>k. (k, case map_option norm (map_of kvs k) of Some v \<Rightarrow> v | None \<Rightarrow> GNil)) (sorted_keys kvs)"
  have each: "\<forall>kv \<in> set kvs. writeCanonical (norm (snd kv)) = writeCanonical (snd kv)"
    using GMap by (metis prod.collapse snds.intros)
  have "write_member (members ?n) k = write_member (members kvs) k" if k: "k \<in> set (sorted_keys kvs)" for k
  proof -
    obtain v where v: "map_of kvs k = Some v"
      using k by (metis domD dom_map_of_conv_image_fst set_sorted_keys)
    then have "writeCanonical (norm v) = writeCanonical v"
      using each by (metis map_of_SomeD snd_conv)
    moreover have "map_of ?n k = Some (norm v)"
      by (subst norm_members [OF k]) (simp add: v)
    ultimately show ?thesis
      unfolding write_member_map_of v by simp
  qed
  then have "map (write_member (members ?n)) (sorted_keys kvs) = map (write_member (members kvs)) (sorted_keys kvs)"
    by (simp only: map_eq_conv) blast
  then show ?case
    unfolding norm_GMap writeCanonical.simps Let_def sorted_keys_idem members_def [symmetric] by (simp only:)
qed simp_all

text \<open>Equal normal forms of objects agree member by member.\<close>

lemma norm_GMap_keys: "norm (GMap a) = norm (GMap b) \<Longrightarrow> sorted_keys a = sorted_keys b"
proof -
  assume "norm (GMap a) = norm (GMap b)"
  then have "map fst (map (\<lambda>k. (k, case map_option norm (map_of a k) of Some v \<Rightarrow> v | None \<Rightarrow> GNil)) (sorted_keys a)) =
      map fst (map (\<lambda>k. (k, case map_option norm (map_of b k) of Some v \<Rightarrow> v | None \<Rightarrow> GNil)) (sorted_keys b))"
    unfolding norm_GMap by (simp only: gval.inject)
  then show ?thesis
    by (simp only: map_map comp_def fst_conv map_ident)
qed

lemma norm_GMap_member:
  assumes "norm (GMap a) = norm (GMap b)"
  shows "map_option norm (map_of a k) = map_option norm (map_of b k)"
proof (cases "k \<in> set (sorted_keys a)")
  case True
  have keys: "sorted_keys a = sorted_keys b"
    using norm_GMap_keys assms .
  with assms have "\<forall>k \<in> set (sorted_keys a).
      (case map_option norm (map_of a k) of Some v \<Rightarrow> v | None \<Rightarrow> GNil) =
      (case map_option norm (map_of b k) of Some v \<Rightarrow> v | None \<Rightarrow> GNil)"
    unfolding norm_GMap keys by (simp only: gval.inject map_eq_conv prod.inject) blast
  moreover obtain v w where "map_of a k = Some v" "map_of b k = Some w"
    using True keys by (metis domD dom_map_of_conv_image_fst set_sorted_keys)
  ultimately show ?thesis
    using True by fastforce
next
  case False
  moreover have "sorted_keys a = sorted_keys b"
    using norm_GMap_keys assms .
  ultimately have "map_of a k = None" "map_of b k = None"
    by (metis map_of_eq_None_iff set_sorted_keys)+
  then show ?thesis
    by simp
qed

text \<open>A Go map has each key once; on such values the writer's success is decided exactly.\<close>

fun keys_once :: "gval \<Rightarrow> bool" where
  "keys_once (GArr xs) = (\<forall>x \<in> set xs. keys_once x)"
| "keys_once (GMap kvs) = (distinct (map fst kvs) \<and> (\<forall>kv \<in> set kvs. keys_once (snd kv)))"
| "keys_once _ = True"

lemma canon_ok_float_free: "keys_once v \<Longrightarrow> canon_ok v \<Longrightarrow> float_free v"
proof (induction v)
  case (GArr xs)
  then obtain a where "writeCanonical (GArr xs) = Inr a"
    by (auto simp: canon_ok_def is_ok_iff)
  then obtain ss where "map writeCanonical xs = map Inr ss"
    using writeCanonical_GArr_D by blast
  then have "\<forall>x \<in> set xs. canon_ok x"
    unfolding canon_ok_def by (metis image_eqI imageE is_ok_simps(1) list.set_map)
  with GArr show ?case
    by simp
next
  case (GMap kvs)
  then obtain a where "writeCanonical (GMap kvs) = Inr a"
    by (auto simp: canon_ok_def is_ok_iff)
  then obtain ss where ss: "map (write_member (members kvs)) (sorted_keys kvs) = map Inr ss"
    using writeCanonical_GMap_D by blast
  have "float_free v" if mem: "(k, v) \<in> set kvs" for k v
  proof -
    have "map_of kvs k = Some v"
      using GMap.prems(1) mem by simp
    moreover have "k \<in> set (sorted_keys kvs)"
      using mem by force
    then obtain s where "write_member (members kvs) k = Inr s"
      using ss by (metis imageE image_eqI list.set_map)
    ultimately have "canon_ok v"
      by (auto simp: canon_ok_def write_member_map_of split: sum.splits)
    then show ?thesis
      using GMap.IH [OF mem] GMap.prems(1) mem by (auto simp: snds.simps)
  qed
  then show ?case
    by auto
qed (simp_all add: canon_ok_def split: if_splits)

section \<open>Properties\<close>



text \<open>
  The writer fails exactly on the values that the protocol forbids: a \<open>float64\<close>, a decoded number
  with a fraction or an exponent, or a value of an unsupported type, anywhere inside.
\<close>

theorem Canonical_fails_on_floats:
  assumes "keys_once v"
  shows "is_ok (Canonical v) \<longleftrightarrow> float_free v"
  using canon_ok_float_free [OF assms] float_free_canon_ok by (auto simp: canon_ok_def Canonical_def)

theorem Canonical_fails_on_floats_witness:
  "is_ok (Canonical (GMap [(''a'', GArr [GInt 1, GNumber ''1.5''])])) \<longleftrightarrow>
     float_free (GMap [(''a'', GArr [GInt 1, GNumber ''1.5''])])"
  by (rule Canonical_fails_on_floats) code_simp

end
