(* ===== verification/LP_Pricing.thy ===== *)
theory LP_Pricing
  imports LP_Canonical
begin

text \<open>
  The protocol's arithmetic (conformance/reference.go): the pool price of a transfer and the universal
  dividend. The code computes with \<open>big.Int\<close> and cuts the result back to an \<open>int64\<close>; the
  definitions below compute on \<open>int\<close> and cut back with \<open>of_int\<close>, so a quotient that does not fit
  would wrap here as it does in \<open>Int64()\<close>. \<open>Quo\<close> is truncated division, Isabelle's \<open>sdiv\<close>.
\<close>

section \<open>Definitions\<close>

datatype price_error = ErrNonPositive | ErrEmptyPool | ErrDust

definition PoolPrice :: "i64 \<Rightarrow> i64 \<Rightarrow> i64 \<Rightarrow> price_error + i64" where
  "PoolPrice rSrc rDst src =
     (if sint src \<le> 0 then Inl ErrNonPositive
      else if sint rSrc \<le> 0 \<or> sint rDst \<le> 0 then Inl ErrEmptyPool
      else let num = sint rDst * sint src;
               den = sint rSrc + sint src;
               dst = num sdiv den
           in if dst = 0 then Inl ErrDust else Inr (of_int dst))"

datatype ud_error = WeightNotPositive | SupplyOrCNegative

definition UDBase :: "i64 \<Rightarrow> i64 \<Rightarrow> i64 \<Rightarrow> ud_error + i64" where
  "UDBase moneySupply cPeriodPpm udWeightTotal =
     (if sint udWeightTotal \<le> 0 then Inl WeightNotPositive
      else if sint moneySupply < 0 \<or> sint cPeriodPpm < 0 then Inl SupplyOrCNegative
      else Inr (of_int ((sint moneySupply * sint cPeriodPpm) sdiv sint udWeightTotal)))"

definition RecipientUD :: "i64 \<Rightarrow> i64 \<Rightarrow> i64" where
  "RecipientUD udBase weight = of_int ((sint udBase * sint weight) sdiv 1000000)"

section \<open>Pool price\<close>

lemma le_div_pos: "0 < b \<Longrightarrow> x \<le> a div b \<longleftrightarrow> x * b \<le> (a :: int)"
proof
  assume b: "0 < b" and "x \<le> a div b"
  then have "x * b \<le> a div b * b"
    by simp
  also have "\<dots> \<le> a"
    using b pos_mod_sign [of b a] div_mult_mod_eq [of a b] by linarith
  finally show "x * b \<le> a" .
next
  assume b: "0 < b" and "x * b \<le> a"
  then show "x \<le> a div b"
    using zdiv_mono1 [of "x * b" a b] by simp
qed

lemma div_mult_below: "0 < b \<Longrightarrow> a div b * b \<le> (a :: int)"
  using le_div_pos [of b "a div b" a] by simp

lemma sdiv_nonneg: "0 \<le> a \<Longrightarrow> 0 < b \<Longrightarrow> a sdiv b = a div (b :: int)"
  by (auto simp: signed_divide_int_def sgn_if div_int_pos_iff)

lemma quotient_bounds:
  fixes rs rd s :: int
  assumes "0 < s" "0 < rs" "0 < rd"
  shows "0 \<le> rd * s div (rs + s)" "rd * s div (rs + s) < rd"
proof -
  show "0 \<le> rd * s div (rs + s)"
    using assms by (simp add: pos_imp_zdiv_nonneg_iff)
  have "rd * s < rd * (rs + s)"
    using assms by simp
  then show "rd * s div (rs + s) < rd"
    using assms le_div_pos [of "rs + s" rd "rd * s"] by linarith
qed

text \<open>The result fits an \<open>int64\<close>: it is smaller than a reserve. This is the quotient without any wrap.\<close>

lemma PoolPrice_Inr:
  "PoolPrice rSrc rDst src = Inr d \<longleftrightarrow>
     0 < sint src \<and> 0 < sint rSrc \<and> 0 < sint rDst \<and> 0 < sint d \<and>
     sint d = sint rDst * sint src div (sint rSrc + sint src)"
proof (cases "0 < sint src \<and> 0 < sint rSrc \<and> 0 < sint rDst")
  case True
  let ?q = "sint rDst * sint src div (sint rSrc + sint src)"
  have q: "0 \<le> ?q" "?q < sint rDst"
    using True by (auto intro: quotient_bounds)
  have exact: "sint (of_int ?q :: i64) = ?q"
    using q sint_i64_upper [of rDst] by (intro sint_of_int_exact) auto
  have "(sint rDst * sint src) sdiv (sint rSrc + sint src) = ?q"
    using True by (simp add: sdiv_nonneg)
  with True q exact show ?thesis
    by (auto simp: PoolPrice_def Let_def simp flip: sint_inject_i64 simp del: of_int_sint_i64)
qed (auto simp: PoolPrice_def Let_def split: if_splits)

lemma PoolPrice_Inl:
  "PoolPrice rSrc rDst src = Inl e \<longleftrightarrow>
     (if sint src \<le> 0 then e = ErrNonPositive
      else if sint rSrc \<le> 0 \<or> sint rDst \<le> 0 then e = ErrEmptyPool
      else sint rDst * sint src < sint rSrc + sint src \<and> e = ErrDust)"
proof (cases "0 < sint src \<and> 0 < sint rSrc \<and> 0 < sint rDst")
  case True
  then have "0 \<le> sint rDst * sint src" "0 < sint rSrc + sint src"
    by simp_all
  then have "(sint rDst * sint src) sdiv (sint rSrc + sint src) = 0 \<longleftrightarrow>
      sint rDst * sint src < sint rSrc + sint src"
    using le_div_pos [of "sint rSrc + sint src" 0 "sint rDst * sint src"]
      le_div_pos [of "sint rSrc + sint src" 1 "sint rDst * sint src"]
    by (simp add: sdiv_nonneg) linarith
  with True show ?thesis
    by (auto simp: PoolPrice_def Let_def)
qed (auto simp: PoolPrice_def Let_def)

text \<open>The product of the reserves, and the largest payout that keeps it: the price is that payout.\<close>

definition keeps_product :: "int \<Rightarrow> int \<Rightarrow> int \<Rightarrow> int \<Rightarrow> bool" where
  "keeps_product rs rd s x \<longleftrightarrow> rs * rd \<le> (rs + s) * (rd - x)"

lemma keeps_product_iff:
  assumes "0 < rs + s"
  shows "keeps_product rs rd s x \<longleftrightarrow> x \<le> rd * s div (rs + s)"
proof -
  have "keeps_product rs rd s x \<longleftrightarrow> x * (rs + s) \<le> rd * s"
    by (simp add: keeps_product_def algebra_simps)
  also have "\<dots> \<longleftrightarrow> x \<le> rd * s div (rs + s)"
    using assms by (simp add: le_div_pos)
  finally show ?thesis .
qed

lemma PoolPrice_keeps:
  "PoolPrice rSrc rDst src = Inr d \<Longrightarrow>
     keeps_product (sint rSrc) (sint rDst) (sint src) x \<longleftrightarrow> x \<le> sint d"
  by (simp add: PoolPrice_Inr keeps_product_iff)

lemma PoolPrice_bounds:
  "PoolPrice rSrc rDst src = Inr d \<Longrightarrow> 0 < sint d \<and> sint d < sint rDst"
  using quotient_bounds(2) [of "sint src" "sint rSrc" "sint rDst"] by (auto simp: PoolPrice_Inr)

text \<open>Paying in two parts never yields more than paying at once, and trading back never yields a profit.\<close>

lemma keeps_product_split:
  assumes "keeps_product rs rd s1 d1" "keeps_product (rs + s1) (rd - d1) s2 d2"
  shows "keeps_product rs rd (s1 + s2) (d1 + d2)"
  using assms unfolding keeps_product_def by (simp add: algebra_simps)

section \<open>Dividend\<close>

lemma UDBase_Inr:
  assumes "0 < sint W" "0 \<le> sint S" "0 \<le> sint c" "sint S * sint c div sint W < 2 ^ 63"
  shows "\<exists>b. UDBase S c W = Inr b \<and> sint b = sint S * sint c div sint W"
proof -
  have "0 \<le> sint S * sint c div sint W"
    using assms by (simp add: pos_imp_zdiv_nonneg_iff)
  then show ?thesis
    using assms by (auto simp: UDBase_def sdiv_nonneg sint_of_int_exact)
qed

lemma RecipientUD_exact:
  assumes "0 \<le> sint b" "0 \<le> sint w" "sint b * sint w div 1000000 < 2 ^ 63"
  shows "sint (RecipientUD b w) = sint b * sint w div 1000000"
proof -
  have "0 \<le> sint b * sint w div 1000000"
    using assms by (simp add: pos_imp_zdiv_nonneg_iff)
  then show ?thesis
    using assms by (simp add: RecipientUD_def sdiv_nonneg sint_of_int_exact)
qed

lemma sum_div_le: "0 < k \<Longrightarrow> (\<Sum>x\<leftarrow>xs. f x div k) * k \<le> (\<Sum>x\<leftarrow>xs. f x :: int)"
proof (induction xs)
  case (Cons x xs)
  then have "f x div k * k \<le> f x"
    using le_div_pos [of k "f x div k" "f x"] by simp
  with Cons show ?case
    by (simp add: distrib_right)
qed simp

lemma sum_list_mult_right: "(\<Sum>x\<leftarrow>xs. f x) * k = (\<Sum>x\<leftarrow>xs. f x * (k :: int))"
  by (induction xs) (simp_all add: distrib_right)

lemma member_le_sum: "x \<in> set xs \<Longrightarrow> \<forall>y \<in> set xs. 0 \<le> f y \<Longrightarrow> f x \<le> (\<Sum>y\<leftarrow>xs. f y :: int)"
proof (induction xs)
  case (Cons y ys)
  have "0 \<le> (\<Sum>z\<leftarrow>ys. f z)"
    using Cons.prems(2) by (intro sum_list_nonneg) auto
  with Cons show ?case
    by auto
qed simp

section \<open>Properties\<close>

text \<open>
  C5: a successful pool price is positive, leaves something in the destination reserve, and is exactly
  the largest payout that does not lower the product of the two reserves. So no sequence of rounding
  choices could pay more, and nothing that is due is kept back.
\<close>

theorem PoolPrice_optimal:
  assumes "PoolPrice rSrc rDst src = Inr d"
  shows "0 < sint d \<and> sint d < sint rDst \<and>
    (\<forall>x. sint rSrc * sint rDst \<le> (sint rSrc + sint src) * (sint rDst - x) \<longleftrightarrow> x \<le> sint d)"
  using PoolPrice_bounds [OF assms] PoolPrice_keeps [OF assms] by (simp add: keeps_product_def)

theorem PoolPrice_optimal_witness:
  "0 < sint (90 :: i64) \<and> sint (90 :: i64) < sint (1000 :: i64) \<and>
    (\<forall>x. sint (1000 :: i64) * sint (1000 :: i64) \<le> (sint (1000 :: i64) + sint (100 :: i64)) * (sint (1000 :: i64) - x)
       \<longleftrightarrow> x \<le> sint (90 :: i64))"
  by (rule PoolPrice_optimal) code_simp

text \<open>
  The price fails in exactly these cases, tested in this order: a non-positive amount, an empty
  reserve, and dust (a payout that would round to zero). There is no other failure.
\<close>

theorem PoolPrice_errors:
  "PoolPrice rSrc rDst src = Inl e \<longleftrightarrow>
     (if sint src \<le> 0 then e = ErrNonPositive
      else if sint rSrc \<le> 0 \<or> sint rDst \<le> 0 then e = ErrEmptyPool
      else sint rDst * sint src < sint rSrc + sint src \<and> e = ErrDust)"
  by (rule PoolPrice_Inl)

text \<open>
  Paying an amount in two successive parts never yields more than paying it at once. The second part
  is priced against the pool the first part left, with the code's wrapping arithmetic on the reserves.
\<close>

theorem PoolPrice_split:
  assumes "PoolPrice rSrc rDst s1 = Inr d1" "PoolPrice (rSrc + s1) (rDst - d1) s2 = Inr d2"
    and "PoolPrice rSrc rDst (s1 + s2) = Inr d"
  shows "sint d1 + sint d2 \<le> sint d"
proof -
  have "sint (rSrc + s1) = sint rSrc + sint s1" "sint (s1 + s2) = sint s1 + sint s2"
    using assms by (auto simp: PoolPrice_Inr intro: sint_add_no_wrap)
  moreover have "sint (rDst - d1) = sint rDst - sint d1"
    using PoolPrice_bounds [OF assms(1)] by (intro sint_sub_nonneg) auto
  ultimately have "keeps_product (sint rSrc) (sint rDst) (sint (s1 + s2)) (sint d1 + sint d2)"
    using keeps_product_split PoolPrice_keeps [OF assms(1)] PoolPrice_keeps [OF assms(2)] by simp
  then show ?thesis
    using PoolPrice_keeps [OF assms(3)] by simp
qed

theorem PoolPrice_split_witness:
  "sint (90 :: i64) + sint (75 :: i64) \<le> sint (166 :: i64)"
  by (rule PoolPrice_split [of 1000 1000 100 _ 100]) code_simp+

text \<open>
  Sending an amount and sending the proceeds straight back never returns more than was spent.
\<close>

theorem PoolPrice_round_trip:
  assumes "PoolPrice rSrc rDst s = Inr d" "PoolPrice (rDst - d) (rSrc + s) d = Inr s'"
  shows "sint s' \<le> sint s"
proof -
  have "sint (rSrc + s) = sint rSrc + sint s"
    using assms by (auto simp: PoolPrice_Inr intro: sint_add_no_wrap)
  moreover have "sint (rDst - d) = sint rDst - sint d"
    using PoolPrice_bounds [OF assms(1)] by (intro sint_sub_nonneg) auto
  ultimately have "sint s' * sint rDst \<le> (sint rSrc + sint s) * sint d"
    using assms div_mult_below [of "sint rDst"] by (simp add: PoolPrice_Inr)
  also have "\<dots> \<le> sint s * sint rDst"
    using assms(1) div_mult_below [of "sint rSrc + sint s" "sint rDst * sint s"]
    by (simp add: PoolPrice_Inr algebra_simps)
  finally show ?thesis
    using assms(1) by (simp add: PoolPrice_Inr del: of_int_sint_i64)
qed

theorem PoolPrice_round_trip_witness: "sint (99 :: i64) \<le> sint (100 :: i64)"
  by (rule PoolPrice_round_trip [of 1000 1000 100 90]) code_simp+



end
