(* ===== verification/LP_Transition.thy ===== *)
theory LP_Transition
  imports LP_Prelude
begin

text \<open>
  The transfer state machine (conformance/statemachine.go): the table, the lookup, and what the table
  says about whole runs. States and events are the code's strings, so a state read back from a snapshot
  or an event nobody defined is an ordinary argument that the table does not have.
\<close>

section \<open>Definitions\<close>

definition transitions :: "(string, (string, string) gomap) gomap" where
  "transitions =
     [(''NONE'', [(''propose'', ''PROPOSED'')]),
      (''PROPOSED'', [(''accept'', ''ACCEPTED''), (''reject'', ''REJECTED''), (''abort'', ''ABORTED''),
                      (''expire'', ''EXPIRED'')]),
      (''ACCEPTED'', [(''commit'', ''COMMITTED''), (''abort'', ''ABORTED''), (''expire'', ''EXPIRED'')]),
      (''COMMITTED'', [(''receipt'', ''SETTLED''), (''commit'', ''COMMITTED'')]),
      (''SETTLED'', [(''commit'', ''SETTLED'')])]"

text \<open>Indexing a missing row gives Go's nil map, in which every key is missing too.\<close>

definition row :: "string \<Rightarrow> (string, string) gomap" where
  "row state = (case map_of transitions state of Some r \<Rightarrow> r | None \<Rightarrow> [])"

definition Transition :: "string \<Rightarrow> string \<Rightarrow> string + string" where
  "Transition state event =
     (case map_of (row state) event of
        Some next \<Rightarrow> Inr next
      | None \<Rightarrow> Inl (''invalid transition: '' @ state @ '' + '' @ event))"

section \<open>Single steps\<close>

lemma Transition_row: "Transition s e = Inr s' \<longleftrightarrow> map_of (row s) e = Some s'"
  by (simp add: Transition_def split: option.splits)

lemma row_cases:
  "map_of (row s) e = Some s' \<longleftrightarrow> (\<exists>r. map_of transitions s = Some r \<and> map_of r e = Some s')"
  by (simp add: row_def split: option.splits)

lemma Transition_cases:
  "Transition s e = Inr s' \<longleftrightarrow>
     s = ''NONE'' \<and> e = ''propose'' \<and> s' = ''PROPOSED'' \<or>
     s = ''PROPOSED'' \<and> e = ''accept'' \<and> s' = ''ACCEPTED'' \<or>
     s = ''PROPOSED'' \<and> e = ''reject'' \<and> s' = ''REJECTED'' \<or>
     s = ''PROPOSED'' \<and> e = ''abort'' \<and> s' = ''ABORTED'' \<or>
     s = ''PROPOSED'' \<and> e = ''expire'' \<and> s' = ''EXPIRED'' \<or>
     s = ''ACCEPTED'' \<and> e = ''commit'' \<and> s' = ''COMMITTED'' \<or>
     s = ''ACCEPTED'' \<and> e = ''abort'' \<and> s' = ''ABORTED'' \<or>
     s = ''ACCEPTED'' \<and> e = ''expire'' \<and> s' = ''EXPIRED'' \<or>
     s = ''COMMITTED'' \<and> e = ''receipt'' \<and> s' = ''SETTLED'' \<or>
     s = ''COMMITTED'' \<and> e = ''commit'' \<and> s' = ''COMMITTED'' \<or>
     s = ''SETTLED'' \<and> e = ''commit'' \<and> s' = ''SETTLED''"
proof -
  have "map_of transitions s = Some r \<longleftrightarrow> (s, r) \<in> set transitions" for r
    by (rule map_of_eq_Some_iff) (simp add: transitions_def)
  moreover have "(s, r) \<in> set transitions \<Longrightarrow> map_of r e = Some s' \<longleftrightarrow> (e, s') \<in> set r" for r
    by (auto simp: transitions_def map_of_eq_Some_iff simp del: map_of.simps)
  ultimately have "Transition s e = Inr s' \<longleftrightarrow> (\<exists>r. (s, r) \<in> set transitions \<and> (e, s') \<in> set r)"
    unfolding Transition_row row_cases by metis
  then show ?thesis
    by (simp add: transitions_def conj_disj_distribL conj_disj_distribR ex_disj_distrib conj_assoc disj_assoc)
qed

text \<open>The two halves of every life: before the commit, and after it.\<close>

definition pre_commit :: "string \<Rightarrow> bool" where
  "pre_commit s \<longleftrightarrow> s = ''PROPOSED'' \<or> s = ''ACCEPTED''"

definition committed :: "string \<Rightarrow> bool" where
  "committed s \<longleftrightarrow> s = ''COMMITTED'' \<or> s = ''SETTLED''"

definition closed_state :: "string \<Rightarrow> bool" where
  "closed_state s \<longleftrightarrow> s = ''REJECTED'' \<or> s = ''ABORTED'' \<or> s = ''EXPIRED''"

lemma committed_step: "Transition s e = Inr s' \<Longrightarrow> committed s \<Longrightarrow> committed s'"
  by (auto simp: Transition_cases committed_def)

lemma closed_no_step: "closed_state s \<Longrightarrow> \<not> is_ok (Transition s e)"
  by (auto simp: is_ok_iff Transition_cases closed_state_def)

lemma Transition_propose [simp]: "Transition ''NONE'' ''propose'' = Inr ''PROPOSED''"
  and Transition_accept [simp]: "Transition ''PROPOSED'' ''accept'' = Inr ''ACCEPTED''"
  and Transition_commit [simp]: "Transition ''ACCEPTED'' ''commit'' = Inr ''COMMITTED''"
  and Transition_receipt [simp]: "Transition ''COMMITTED'' ''receipt'' = Inr ''SETTLED''"
  by (simp_all add: Transition_cases)

section \<open>Runs\<close>

inductive run_to :: "string \<Rightarrow> string list \<Rightarrow> string \<Rightarrow> bool" where
  run_nil: "run_to s [] s"
| run_step: "Transition s e = Inr s' \<Longrightarrow> run_to s' es s'' \<Longrightarrow> run_to s (e # es) s''"

inductive_simps run_to_Nil: "run_to s [] t"
inductive_simps run_to_Cons: "run_to s (e # es) t"

lemma run_to_append: "run_to s (es @ fs) t \<longleftrightarrow> (\<exists>m. run_to s es m \<and> run_to m fs t)"
  by (induction es arbitrary: s) (auto simp: run_to_Nil run_to_Cons)

lemma run_committed: "run_to s es t \<Longrightarrow> committed s \<Longrightarrow> committed t"
  by (induction rule: run_to.induct) (auto dest: committed_step)

lemma run_closed: "run_to s es t \<Longrightarrow> closed_state s \<Longrightarrow> es = [] \<and> t = s"
  by (induction rule: run_to.induct) (use closed_no_step in \<open>fastforce simp: is_ok_iff\<close>)+

lemma run_settled: "run_to ''SETTLED'' es t \<longleftrightarrow> t = ''SETTLED'' \<and> (\<forall>e \<in> set es. e = ''commit'')"
  by (induction es) (auto simp: run_to_Nil run_to_Cons Transition_cases)

lemma run_from_committed:
  "run_to ''COMMITTED'' es ''SETTLED'' \<longleftrightarrow>
     (\<exists>i j. es = replicate i ''commit'' @ ''receipt'' # replicate j ''commit'')"
proof (induction es)
  case (Cons e es)
  have "run_to ''COMMITTED'' (e # es) ''SETTLED'' \<longleftrightarrow>
      e = ''receipt'' \<and> run_to ''SETTLED'' es ''SETTLED'' \<or> e = ''commit'' \<and> run_to ''COMMITTED'' es ''SETTLED''"
    by (auto simp: run_to_Cons Transition_cases)
  also have "\<dots> \<longleftrightarrow> (\<exists>i j. e # es = replicate i ''commit'' @ ''receipt'' # replicate j ''commit'')"
  proof
    assume "e = ''receipt'' \<and> run_to ''SETTLED'' es ''SETTLED'' \<or> e = ''commit'' \<and> run_to ''COMMITTED'' es ''SETTLED''"
    then consider "e = ''receipt''" "\<forall>x \<in> set es. x = ''commit''"
      | i j where "e = ''commit''" "es = replicate i ''commit'' @ ''receipt'' # replicate j ''commit''"
      using Cons run_settled by auto
    then show "\<exists>i j. e # es = replicate i ''commit'' @ ''receipt'' # replicate j ''commit''"
    proof cases
      case 1
      then have "e # es = replicate 0 ''commit'' @ ''receipt'' # replicate (length es) ''commit''"
        by (simp add: replicate_length_same)
      then show ?thesis by blast
    next
      case 2
      then have "e # es = replicate (Suc i) ''commit'' @ ''receipt'' # replicate j ''commit''"
        by simp
      then show ?thesis by blast
    qed
  next
    assume "\<exists>i j. e # es = replicate i ''commit'' @ ''receipt'' # replicate j ''commit''"
    then obtain i j where "e # es = replicate i ''commit'' @ ''receipt'' # replicate j ''commit''"
      by blast
    then show "e = ''receipt'' \<and> run_to ''SETTLED'' es ''SETTLED'' \<or> e = ''commit'' \<and> run_to ''COMMITTED'' es ''SETTLED''"
      using Cons run_settled by (cases i) auto
  qed
  finally show ?case .
qed (auto simp: run_to_Nil)

section \<open>Properties\<close>

text \<open>
  C35: a commit cannot be taken back. After an event sequence in which a commit took place, no
  continuation of it leaves the states COMMITTED and SETTLED: there is no abort, no rejection and no
  expiry any more.
\<close>

theorem commit_is_final:
  assumes "run_to s es m" "committed m" "run_to s (es @ fs) t"
  shows "committed t"
proof -
  have det: "run_to s es m' \<Longrightarrow> m' = m" if "run_to s es m" for s es m m'
    using that by (induction arbitrary: m' rule: run_to.induct) (auto simp: run_to_Nil run_to_Cons)
  from assms(3) obtain m' where "run_to s es m'" "run_to m' fs t"
    by (auto simp: run_to_append)
  with det [OF assms(1)] assms(2) show ?thesis
    using run_committed by blast
qed

theorem commit_is_final_witness: "committed ''SETTLED''"
  by (rule commit_is_final [of "''NONE''" "[''propose'', ''accept'', ''commit'']" "''COMMITTED''"
        "[''commit'', ''receipt'']"])
    (simp_all add: run_to_Nil run_to_Cons Transition_cases committed_def)

text \<open>
  The only way to settle. A run from the start ends in SETTLED exactly when it is propose, accept,
  commit, any number of repeated commits, receipt, and any number of late commit retries: no step can be
  left out, repeated out of order or replaced.
\<close>

theorem settled_runs:
  "run_to ''NONE'' es ''SETTLED'' \<longleftrightarrow>
     (\<exists>i j. es = [''propose'', ''accept'', ''commit''] @ replicate i ''commit'' @ ''receipt'' # replicate j ''commit'')"
proof
  assume "run_to ''NONE'' es ''SETTLED''"
  then obtain es1 where 1: "es = ''propose'' # es1" "run_to ''PROPOSED'' es1 ''SETTLED''"
    by (cases es) (auto simp: run_to_Nil run_to_Cons Transition_cases)
  have not_closed: "\<not> run_to s fs ''SETTLED''" if "closed_state s" for s fs
    using run_closed that by (fastforce simp: closed_state_def)
  from 1(2) obtain es2 where 2: "es1 = ''accept'' # es2" "run_to ''ACCEPTED'' es2 ''SETTLED''"
    using not_closed by (cases es1) (auto simp: run_to_Nil run_to_Cons Transition_cases closed_state_def)
  from 2(2) obtain es3 where 3: "es2 = ''commit'' # es3" "run_to ''COMMITTED'' es3 ''SETTLED''"
    using not_closed by (cases es2) (auto simp: run_to_Nil run_to_Cons Transition_cases closed_state_def)
  from 1(1) 2(1) 3 show "\<exists>i j. es = [''propose'', ''accept'', ''commit''] @ replicate i ''commit'' @ ''receipt'' # replicate j ''commit''"
    by (auto simp: run_from_committed)
next
  assume "\<exists>i j. es = [''propose'', ''accept'', ''commit''] @ replicate i ''commit'' @ ''receipt'' # replicate j ''commit''"
  then obtain fs where "es = [''propose'', ''accept'', ''commit''] @ fs" "run_to ''COMMITTED'' fs ''SETTLED''"
    by (metis run_from_committed)
  then show "run_to ''NONE'' es ''SETTLED''"
    by (auto simp: run_to_Cons Transition_cases)
qed

end
