(* ===== verification/LP_HashChain.thy ===== *)
theory LP_HashChain
  imports LP_Prelude
begin

text \<open>
  The contract of a hash-linked history, which the program uses twice: the channel root of a contact
  (conformance/reference.go) and the record hashes of a ledger (node/ledger/ledger.go). A history is a
  start value and a list of operations; each link hashes the previous link together with the operation.
  What a provider owes is that the hashed text determines both. What a client gets is that two histories
  with the same final link are the same history, or contain two different texts with the same hash.
\<close>

fun links :: "(bytes \<Rightarrow> 'h) \<Rightarrow> ('h \<Rightarrow> 'op \<Rightarrow> bytes) \<Rightarrow> 'h \<Rightarrow> 'op list \<Rightarrow> 'h" where
  "links digest pre h [] = h"
| "links digest pre h (x # xs) = links digest pre (digest (pre h x)) xs"

text \<open>The texts that were hashed on the way.\<close>

fun hashed :: "(bytes \<Rightarrow> 'h) \<Rightarrow> ('h \<Rightarrow> 'op \<Rightarrow> bytes) \<Rightarrow> 'h \<Rightarrow> 'op list \<Rightarrow> bytes list" where
  "hashed digest pre h [] = []"
| "hashed digest pre h (x # xs) = pre h x # hashed digest pre (digest (pre h x)) xs"

text \<open>A collision between the texts of two histories: a concrete pair, not just its existence somewhere.\<close>

definition collide :: "(bytes \<Rightarrow> 'h) \<Rightarrow> bytes list \<Rightarrow> bytes list \<Rightarrow> bool" where
  "collide digest xs ys \<longleftrightarrow> (\<exists>x \<in> set xs. \<exists>y \<in> set ys. x \<noteq> y \<and> digest x = digest y)"

lemma links_append: "links digest pre h (xs @ ys) = links digest pre (links digest pre h xs) ys"
  by (induction xs arbitrary: h) auto

lemma hashed_append:
  "hashed digest pre h (xs @ ys) = hashed digest pre h xs @ hashed digest pre (links digest pre h xs) ys"
  by (induction xs arbitrary: h) auto

locale hash_chain =
  fixes digest :: "bytes \<Rightarrow> 'h" and pre :: "'h \<Rightarrow> 'op \<Rightarrow> bytes"
    and good_link :: "'h \<Rightarrow> bool" and good_op :: "'op \<Rightarrow> bool"
  assumes digest_good: "good_link (digest b)"
    and pre_inject: "good_link h \<Longrightarrow> good_link h' \<Longrightarrow> good_op x \<Longrightarrow> good_op y \<Longrightarrow> pre h x = pre h' y \<Longrightarrow> h = h' \<and> x = y"
begin

lemma links_good: "good_link h \<Longrightarrow> good_link (links digest pre h xs)"
  by (induction xs arbitrary: h) (simp_all add: digest_good)

text \<open>Read from the last link backwards: equal ends, of histories of the same length, are equal all the way.\<close>

lemma same_end:
  assumes "length xs = length ys" "good_link h" "good_link h'"
    and "\<forall>x \<in> set xs. good_op x" "\<forall>y \<in> set ys. good_op y"
    and "links digest pre h xs = links digest pre h' ys"
    and "\<not> collide digest (hashed digest pre h xs) (hashed digest pre h' ys)"
  shows "h = h' \<and> xs = ys"
  using assms
proof (induction xs arbitrary: ys rule: rev_induct)
  case (snoc x xs)
  then obtain y zs where ys: "ys = zs @ [y]"
    by (cases ys rule: rev_cases) auto
  let ?p = "pre (links digest pre h xs) x" and ?q = "pre (links digest pre h' zs) y"
  have "digest ?p = digest ?q"
    using snoc.prems(6) ys by (simp add: links_append)
  moreover have "?p \<in> set (hashed digest pre h (xs @ [x]))" "?q \<in> set (hashed digest pre h' ys)"
    using ys by (simp_all add: hashed_append)
  ultimately have "?p = ?q"
    using snoc.prems(7) unfolding collide_def by metis
  moreover have "good_op x" "good_op y"
    using snoc.prems(4,5) ys by simp_all
  ultimately have "links digest pre h xs = links digest pre h' zs \<and> x = y"
    by (intro pre_inject links_good snoc.prems(2,3))
  then have same: "links digest pre h xs = links digest pre h' zs" "x = y"
    by simp_all
  have "\<not> collide digest (hashed digest pre h xs) (hashed digest pre h' zs)"
    using snoc.prems(7) ys by (auto simp: collide_def hashed_append)
  then have "h = h' \<and> xs = zs"
    using snoc.prems ys same by (intro snoc.IH) auto
  with ys same show ?case
    by simp
qed simp

end

end
