(* ===== verification/LP_Channel.thy ===== *)
theory LP_Channel
  imports LP_Canonical LP_HashChain
begin

text \<open>
  The channel hash of a contact (conformance/reference.go, \<open>ChannelRoot0\<close> and \<open>ChannelNext\<close>) as a hash
  chain over the contact's operations.
\<close>

section \<open>Definitions\<close>

definition ChannelRoot0 :: "string \<Rightarrow> bytes" where
  "ChannelRoot0 contactID = sha256 contactID"

definition ChannelNext :: "bytes \<Rightarrow> string \<Rightarrow> string \<Rightarrow> i64 \<Rightarrow> i64 \<Rightarrow> canon_error + bytes" where
  "ChannelNext prev opType opID srcAmount dstAmount =
     (case Canonical (GArr [GStr opType, GStr opID, GInt srcAmount, GInt dstAmount]) of
        Inl e \<Rightarrow> Inl e
      | Inr c \<Rightarrow> Inr (sha256 (prev @ c)))"

section \<open>The chain of a channel\<close>

text \<open>An operation as it is hashed: its type, its id and the two amounts.\<close>

type_synonym chan_op = "string \<times> string \<times> i64 \<times> i64"

fun op_value :: "chan_op \<Rightarrow> gval" where
  "op_value (ty, i, s, d) = GArr [GStr ty, GStr i, GInt s, GInt d]"

fun op_text :: "chan_op \<Rightarrow> bytes" where
  "op_text (ty, i, s, d) = ''['' @ join '','' [json_quote ty, json_quote i, dec64 s, dec64 d] @ '']''"

definition op_ascii :: "chan_op \<Rightarrow> bool" where
  "op_ascii x \<longleftrightarrow> ascii (fst x) \<and> ascii (fst (snd x))"

lemma op_value_text: "writeCanonical (op_value x) = Inr (op_text x)"
  by (cases x) simp

lemma ChannelNext_text: "ChannelNext prev ty i s d = Inr (sha256 (prev @ op_text (ty, i, s, d)))"
  using op_value_text [of "(ty, i, s, d)"] by (simp add: ChannelNext_def Canonical_def)

lemma op_text_inject: "op_ascii x \<Longrightarrow> op_ascii y \<Longrightarrow> op_text x = op_text y \<Longrightarrow> x = y"
proof -
  assume xy: "op_ascii x" "op_ascii y" "op_text x = op_text y"
  obtain ty i a b where x: "x = (ty, i, a, b)"
    by (cases x)
  obtain ty' i' a' b' where y: "y = (ty', i', a', b')"
    by (cases y)
  have "plain (op_value x)" "plain (op_value y)"
    using xy(1,2) by (simp_all add: x y op_ascii_def)
  then have "norm (op_value x) = norm (op_value y)"
    by (rule canonical_norm) (simp only: op_value_text xy(3))
  then show "x = y"
    using dec64_inject by (simp add: x y)
qed

text \<open>The roots of a channel are a hash chain: 32-byte links, each followed by the operation's text.\<close>

interpretation channel: hash_chain sha256 "\<lambda>h x. h @ op_text x" "\<lambda>h. length h = 32" op_ascii
  by unfold_locales (use op_text_inject in auto)

text \<open>\<open>ChannelNext\<close> folded over a history; it never fails.\<close>

fun channel_fold :: "bytes \<Rightarrow> chan_op list \<Rightarrow> canon_error + bytes" where
  "channel_fold r [] = Inr r"
| "channel_fold r ((ty, i, s, d) # xs) =
     (case ChannelNext r ty i s d of Inl e \<Rightarrow> Inl e | Inr r' \<Rightarrow> channel_fold r' xs)"

lemma channel_fold_links: "channel_fold r xs = Inr (links sha256 (\<lambda>h x. h @ op_text x) r xs)"
  by (induction r xs rule: channel_fold.induct) (simp_all add: ChannelNext_text)

definition channel_texts :: "string \<Rightarrow> chan_op list \<Rightarrow> bytes list" where
  "channel_texts cid xs = hashed sha256 (\<lambda>h x. h @ op_text x) (ChannelRoot0 cid) xs"

section \<open>Properties\<close>


lemma sha256_c: "sha256 ''c'' =
    [CHR 0x2E, CHR 0x7D, CHR 0x2C, CHR 0x03, CHR 0xA9, CHR 0x50, CHR 0x7A, CHR 0xE2, CHR 0x65, CHR 0xEC, CHR 0xF5,
    CHR 0xB5, CHR 0x35, CHR 0x68, CHR 0x85, CHR 0xA5, CHR 0x33, CHR 0x93, CHR 0xA2, CHR 0x02, CHR 0x9D, CHR
    0x24, CHR 0x13, CHR 0x94, CHR 0x99, CHR 0x72, CHR 0x65, CHR 0xA1, CHR 0xA2, CHR 0x5A, CHR 0xEF, CHR 0xC6]"
  by code_simp

lemma sha256_seed_c: "sha256 ([CHR 0x2E, CHR 0x7D, CHR 0x2C, CHR 0x03, CHR 0xA9, CHR 0x50, CHR 0x7A, CHR 0xE2, CHR 0x65, CHR 0xEC, CHR 0xF5,
    CHR 0xB5, CHR 0x35, CHR 0x68, CHR 0x85, CHR 0xA5, CHR 0x33, CHR 0x93, CHR 0xA2, CHR 0x02, CHR 0x9D, CHR
    0x24, CHR 0x13, CHR 0x94, CHR 0x99, CHR 0x72, CHR 0x65, CHR 0xA1, CHR 0xA2, CHR 0x5A, CHR 0xEF, CHR 0xC6] @ op_text (''seed'', ''c'', 5, 7)) =
    [CHR 0x66, CHR 0x15, CHR 0x1D, CHR 0xB5, CHR 0x58, CHR 0x56, CHR 0x05, CHR 0x70, CHR 0xF1, CHR 0xCE, CHR 0x56,
    CHR 0x4A, CHR 0x72, CHR 0x74, CHR 0x90, CHR 0x71, CHR 0x1E, CHR 0x77, CHR 0x76, CHR 0x95, CHR 0x8E, CHR
    0x36, CHR 0xD3, CHR 0x8B, CHR 0x02, CHR 0x3F, CHR 0x0B, CHR 0x6E, CHR 0xC0, CHR 0x02, CHR 0xD5, CHR 0xDB]"
  by code_simp


end
