(* ===== verification/LP_Platform.thy ===== *)
theory LP_Platform
  imports LP_Canonical
begin

text \<open>
  What the node takes from the platform: the parts of Go's library that are parameters of the model
  (ed25519, the random source, \<open>url.Parse\<close> and the RFC 3339 clock texts), and the small functions of
  node/config.go and node/envelope.go that sit directly on them.
\<close>

section \<open>The platform\<close>

text \<open>
  \<open>ed_pub_of\<close> is the public key of a 32-byte seed; a private key is the seed followed by its public key,
  as in \<open>crypto/ed25519\<close>. Times are nanoseconds. \<open>url_host b\<close> is \<open>None\<close> when \<open>url.Parse\<close> fails and
  otherwise the \<open>Host\<close> field. \<open>rand_read i n\<close> is what the \<open>i\<close>-th read of \<open>n\<close> random bytes returns.
\<close>

record lib =
  ed_pub_of :: "bytes \<Rightarrow> bytes"
  ed_sign :: "bytes \<Rightarrow> bytes \<Rightarrow> bytes"
  ed_verify :: "bytes \<Rightarrow> bytes \<Rightarrow> bytes \<Rightarrow> bool"
  url_host :: "string \<Rightarrow> string option"
  fmt_time :: "int \<Rightarrow> string"
  parse_time :: "string \<Rightarrow> int option"
  rand_read :: "nat \<Rightarrow> nat \<Rightarrow> bytes"

definition NewKeyFromSeed :: "lib \<Rightarrow> bytes \<Rightarrow> bytes" where
  "NewKeyFromSeed L seed = seed @ ed_pub_of L seed"

definition Seed :: "bytes \<Rightarrow> bytes" where
  "Seed priv = take 32 priv"

definition Public :: "bytes \<Rightarrow> bytes" where
  "Public priv = drop 32 priv"

text \<open>The documented behaviour of ed25519 that the protocol relies on.\<close>

definition ed25519_correct :: "lib \<Rightarrow> bool" where
  "ed25519_correct L \<longleftrightarrow>
     (\<forall>seed m. length seed = 32 \<longrightarrow>
        length (ed_pub_of L seed) = 32 \<and>
        ed_verify L (ed_pub_of L seed) m (ed_sign L (NewKeyFromSeed L seed) m))"

text \<open>RFC 3339 has whole seconds: a formatted time parses to the second it lies in.\<close>

definition rfc3339_correct :: "lib \<Rightarrow> bool" where
  "rfc3339_correct L \<longleftrightarrow> (\<forall>t. parse_time L (fmt_time L t) = Some (t div 1000000000 * 1000000000) \<and> ascii (fmt_time L t))"

section \<open>Hosts, key ids and identifiers\<close>

definition host :: "lib \<Rightarrow> string \<Rightarrow> string" where
  "host L base =
     (case url_host L base of
        Some h \<Rightarrow> if h = [] then TrimPrefix (TrimPrefix base ''https://'') ''http://'' else h
      | None \<Rightarrow> TrimPrefix (TrimPrefix base ''https://'') ''http://'')"

definition identityPath :: string where
  "identityPath = ''/.well-known/liquiditypub''"

definition keyID :: "string \<Rightarrow> string \<Rightarrow> string" where
  "keyID base localID = base @ identityPath @ localID"

definition b64 :: "bytes \<Rightarrow> string" where
  "b64 b = b64_encode b"

definition pubB64 :: "bytes \<Rightarrow> string" where
  "pubB64 pub = b64_encode pub"

datatype key_error = KeyDecode | KeyLength nat

definition mustParseKey :: "string \<Rightarrow> key_error + bytes" where
  "mustParseKey pub =
     (case b64_decode pub of
        None \<Rightarrow> Inl KeyDecode
      | Some raw \<Rightarrow> if length raw \<noteq> 32 then Inl (KeyLength (length raw)) else Inr raw)"

text \<open>
  The message of a refused key. A base64 error names the first byte outside the alphabet or, when there is
  none, the single character left over at the end.
\<close>

definition b64_error_offset :: "string \<Rightarrow> nat" where
  "b64_error_offset s =
     (let good = takeWhile (\<lambda>c. c = CHR 0x0A \<or> c = CHR 0x0D \<or> b64_val c \<noteq> None) s
      in if length good < length s then length good else length s - 1)"

definition key_error_text :: "string \<Rightarrow> key_error \<Rightarrow> string" where
  "key_error_text pub e =
     (case e of
        KeyDecode \<Rightarrow> ''decode public key: illegal base64 data at input byte '' @ dec_int (int (b64_error_offset pub))
      | KeyLength k \<Rightarrow> ''public key is '' @ dec_int (int k) @ '' bytes, want 32'')"

lemma mustParseKey_pubB64: "length pub = 32 \<Longrightarrow> mustParseKey (pubB64 pub) = Inr pub"
  by (simp add: mustParseKey_def pubB64_def b64_decode_encode)

lemma mustParseKey_length: "mustParseKey s = Inr pub \<Longrightarrow> length pub = 32"
  by (auto simp: mustParseKey_def split: option.splits if_splits)

text \<open>\<open>newID\<close> over sixteen random bytes: version 4 and variant 10 stamped in, five groups in hexadecimal.\<close>

definition byte_and :: "char \<Rightarrow> 8 word \<Rightarrow> 8 word \<Rightarrow> char" where
  "byte_and c m o' = char_of (uint ((of_int (of_char c) AND m) OR o'))"

definition format_uuid :: "bytes \<Rightarrow> string" where
  "format_uuid b0 =
     (let b1 = b0[6 := byte_and (b0 ! 6) 0x0f 0x40];
          b = b1[8 := byte_and (b1 ! 8) 0x3f 0x80]
      in ''urn:uuid:'' @ hex (take 4 b) @ ''-'' @ hex (take 2 (drop 4 b)) @ ''-'' @ hex (take 2 (drop 6 b)) @ ''-'' @
         hex (take 2 (drop 8 b)) @ ''-'' @ hex (take 6 (drop 10 b)))"

definition newID :: "lib \<Rightarrow> nat \<Rightarrow> string" where
  "newID L i = format_uuid (rand_read L i 16)"

lemma ascii_hex_digit: "0 \<le> n \<Longrightarrow> n < 16 \<Longrightarrow> of_char (hex_digit n) < (128 :: int)"
  by (simp add: hex_digit_def)

lemma ascii_hex [simp]: "ascii (hex s)"
proof -
  have "of_char c div 16 < (16 :: int)" "0 \<le> of_char c div (16 :: int)" for c :: char
    using of_char_int_bounds [of c] by linarith+
  then have "ascii (hex_byte c)" for c
    by (simp add: hex_byte_def ascii_hex_digit)
  then show ?thesis
    by (induction s) (simp_all add: hex_def)
qed

lemma ascii_newID [simp]: "ascii (newID L i)"
  by (simp add: newID_def format_uuid_def Let_def)

lemma newID_nonempty [simp]: "newID L i \<noteq> []"
  by (simp add: newID_def format_uuid_def Let_def)

section \<open>Reading dynamic values\<close>

text \<open>\<open>m[k]\<close> on a \<open>map[string]any\<close>: a missing key reads as \<open>nil\<close>.\<close>

definition obj_get :: "obj \<Rightarrow> string \<Rightarrow> gval" where
  "obj_get m k = (case map_of m k of Some v \<Rightarrow> v | None \<Rightarrow> GNil)"

fun as_obj :: "gval \<Rightarrow> obj option" where
  "as_obj (GMap m) = Some m"
| "as_obj _ = None"

text \<open>\<open>m, _ := v.(map[string]any)\<close> is the nil map, in which nothing is found, when the type differs.\<close>

definition obj_or_nil :: "gval \<Rightarrow> obj" where
  "obj_or_nil v = (case as_obj v of Some m \<Rightarrow> m | None \<Rightarrow> [])"

fun asString :: "gval \<Rightarrow> string \<times> bool" where
  "asString (GStr s) = (s, True)"
| "asString _ = ([], False)"

fun asInt :: "gval \<Rightarrow> i64 \<times> bool" where
  "asInt (GInt i) = (i, True)"
| "asInt (GNumber s) = ParseInt s"
| "asInt _ = (0, False)"

definition payloadOf :: "obj \<Rightarrow> obj \<times> bool" where
  "payloadOf env = (case obj_get env ''payload'' of GMap p \<Rightarrow> (p, True) | _ \<Rightarrow> ([], False))"

definition pStr :: "obj \<Rightarrow> string \<Rightarrow> string" where
  "pStr p key = fst (asString (obj_get p key))"

definition pInt :: "obj \<Rightarrow> string \<Rightarrow> i64 \<times> bool" where
  "pInt p key = asInt (obj_get p key)"

definition envStr :: "obj \<Rightarrow> string \<Rightarrow> string" where
  "envStr env key = fst (asString (obj_get env key))"

lemma asInt_norm: "fst (asInt (GNumber (dec64 i))) = i" "snd (asInt (GNumber (dec64 i)))"
  by (simp_all add: ParseInt_dec64)

lemma obj_get_Nil [simp]: "obj_get [] k = GNil"
  by (simp add: obj_get_def)

lemma obj_get_Cons [simp]: "obj_get ((k, v) # m) k' = (if k' = k then v else obj_get m k')"
  by (simp add: obj_get_def)

lemma obj_get_mput [simp]: "obj_get (mput k v m) k' = (if k' = k then v else obj_get m k')"
  by (simp add: obj_get_def)

section \<open>A concrete platform\<close>

text \<open>
  An instance on which witnesses are computed. Its signature is the public key followed by the message,
  its clock texts are decimal seconds, its random bytes count up.
\<close>

definition demo :: lib where
  "demo =
     \<lparr>ed_pub_of = (\<lambda>seed. rev seed),
      ed_sign = (\<lambda>priv m. drop 32 priv @ m),
      ed_verify = (\<lambda>pub m s. s = pub @ m),
      url_host = (\<lambda>b. if HasPrefix b ''https://'' then Some (takeWhile (\<lambda>c. c \<noteq> CHR ''/'') (drop 8 b)) else Some []),
      fmt_time = (\<lambda>t. dec_int (t div 1000000000)),
      parse_time = (\<lambda>s. Some ((if HasPrefix s ''-'' then - read_dec 0 (tl s) else read_dec 0 s) * 1000000000)),
      rand_read = (\<lambda>i n. rev (take n (char_of i # replicate n (CHR 0x00))))\<rparr>"

lemma demo_ed25519: "ed25519_correct demo"
  by (simp add: ed25519_correct_def demo_def NewKeyFromSeed_def)

lemma ascii_dec_int [simp]: "ascii (dec_int i)"
proof -
  have "is_digit c \<Longrightarrow> of_char c < (128 :: int)" for c
    by (simp add: is_digit_def)
  then have "ascii (dec_pos n)" if "0 \<le> n" for n
    using dec_pos_digits [OF that] by (auto simp: ascii_def)
  then show ?thesis
    by (simp add: dec_int_def)
qed

lemma demo_rfc3339: "rfc3339_correct demo"
  unfolding rfc3339_correct_def
proof (intro allI conjI)
  fix t :: int
  show "ascii (fmt_time demo t)"
    by (simp add: demo_def)
  let ?s = "t div 1000000000"
  show "parse_time demo (fmt_time demo t) = Some (?s * 1000000000)"
  proof (cases "?s < 0")
    case True
    then show ?thesis
      by (simp add: demo_def dec_int_def read_dec_dec_pos HasPrefix_def)
  next
    case False
    then obtain c r where d: "dec_pos ?s = c # r" "c \<noteq> CHR ''-''"
      by (metis dec_pos_nonempty list.exhaust list.set_intros(1) minus_not_in_dec_pos not_less)
    then show ?thesis
      using False read_dec_dec_pos [of ?s] by (simp add: demo_def dec_int_def HasPrefix_def)
  qed
qed

end
