(* ===== verification/LP_Envelope.thy ===== *)
theory LP_Envelope
  imports LP_Platform
begin

text \<open>
  Signing, verifying and validating an envelope (conformance/reference.go, conformance/validate.go).
\<close>

section \<open>Signing\<close>

definition SigningBytes :: "obj \<Rightarrow> canon_error + bytes" where
  "SigningBytes env = Canonical (GMap (filter (\<lambda>kv. fst kv \<noteq> ''sig'') env))"

definition SignEnvelope :: "lib \<Rightarrow> obj \<Rightarrow> bytes \<Rightarrow> canon_error + bytes" where
  "SignEnvelope L env priv =
     (case SigningBytes env of Inl e \<Rightarrow> Inl e | Inr msg \<Rightarrow> Inr (ed_sign L priv msg))"

definition VerifyEnvelope :: "lib \<Rightarrow> obj \<Rightarrow> bytes \<Rightarrow> bytes \<Rightarrow> canon_error + bool" where
  "VerifyEnvelope L env sig pub =
     (case SigningBytes env of Inl e \<Rightarrow> Inl e | Inr msg \<Rightarrow> Inr (ed_verify L pub msg sig))"

lemma map_of_filter_sig: "map_of (filter (\<lambda>kv. fst kv \<noteq> k) env) = (map_of env)(k := None)"
  by (induction env) (auto simp: fun_eq_iff)

text \<open>The signature member is not part of what is signed.\<close>

lemma SigningBytes_mput_sig [simp]: "SigningBytes (mput ''sig'' s env) = SigningBytes env"
  unfolding SigningBytes_def Canonical_def
  by (rule writeCanonical_GMap_cong) (simp add: map_of_filter_sig map_of_mput_fun)

section \<open>Validation\<close>

abbreviation VerdictOK :: string where "VerdictOK \<equiv> ''ok''"
abbreviation VerdictUnknownKey :: string where "VerdictUnknownKey \<equiv> ''unknown-key''"
abbreviation VerdictBadSignature :: string where "VerdictBadSignature \<equiv> ''bad-signature''"
abbreviation VerdictDuplicate :: string where "VerdictDuplicate \<equiv> ''duplicate''"
abbreviation VerdictStaleSeq :: string where "VerdictStaleSeq \<equiv> ''stale-seq''"
abbreviation VerdictTooOld :: string where "VerdictTooOld \<equiv> ''too-old''"
abbreviation VerdictFuture :: string where "VerdictFuture \<equiv> ''future''"
abbreviation VerdictMalformed :: string where "VerdictMalformed \<equiv> ''malformed''"

definition MaxAge :: int where "MaxAge = 7 * 24 * 3600000000000"
definition MaxFuture :: int where "MaxFuture = 3600000000000"

text \<open>\<open>SeenIDs\<close> is a \<open>map[string]bool\<close>; an id that is not in it reads as \<open>false\<close>.\<close>

record ValidationState =
  vs_Keys :: "(string, bytes) gomap"
  vs_SeenIDs :: "(string, bool) gomap"
  vs_LastSeq :: i64
  vs_Now :: int

definition keyBoundToSender :: "string \<Rightarrow> string \<Rightarrow> bool" where
  "keyBoundToSender keyid from' =
     (if from' = [] \<or> length keyid \<le> length from' then False
      else HasPrefix keyid from' \<and> keyid ! length from' = CHR ''/'')"

definition envInt :: "obj \<Rightarrow> string \<Rightarrow> i64 \<times> bool" where
  "envInt env key =
     (case obj_get env key of GInt n \<Rightarrow> (n, True) | GNumber s \<Rightarrow> ParseInt s | _ \<Rightarrow> (0, False))"

definition ValidateEnvelope :: "lib \<Rightarrow> obj \<Rightarrow> ValidationState \<Rightarrow> string" where
  "ValidateEnvelope L env st =
     (case obj_get env ''sig'' of
        GMap sig \<Rightarrow>
          let keyid = fst (asString (obj_get sig ''key''));
              from' = fst (asString (obj_get env ''from''))
          in case map_of (vs_Keys st) keyid of
               None \<Rightarrow> VerdictUnknownKey
             | Some pub \<Rightarrow>
                 if \<not> keyBoundToSender keyid from' then VerdictUnknownKey
                 else case b64_decode (fst (asString (obj_get sig ''value''))) of
                   None \<Rightarrow> VerdictMalformed
                 | Some raw \<Rightarrow>
                     if VerifyEnvelope L env raw pub \<noteq> Inr True then VerdictBadSignature
                     else let id' = fst (asString (obj_get env ''id''))
                       in if id' = [] then VerdictMalformed
                          else if map_of (vs_SeenIDs st) id' = Some True then VerdictDuplicate
                          else case envInt env ''seq'' of (seq, ok) \<Rightarrow>
                            if \<not> ok then VerdictMalformed
                            else if sint seq \<le> sint (vs_LastSeq st) then VerdictStaleSeq
                            else case parse_time L (fst (asString (obj_get env ''created''))) of
                              None \<Rightarrow> VerdictMalformed
                            | Some created \<Rightarrow>
                                if MaxAge < vs_Now st - created then VerdictTooOld
                                else if MaxFuture < created - vs_Now st then VerdictFuture
                                else VerdictOK
      | _ \<Rightarrow> VerdictMalformed)"

section \<open>What a verdict says\<close>

lemma keyBoundToSender_iff: "keyBoundToSender k f \<longleftrightarrow> f \<noteq> [] \<and> (\<exists>r. k = f @ ''/'' @ r)"
proof
  assume "keyBoundToSender k f"
  then have k: "f \<noteq> []" "length f < length k" "HasPrefix k f" "k ! length f = CHR ''/''"
    by (auto simp: keyBoundToSender_def split: if_splits)
  then obtain r where r: "k = f @ r"
    by (auto simp: HasPrefix_iff)
  with k obtain c r' where "r = c # r'" "c = CHR ''/''"
    by (cases r) auto
  with k r show "f \<noteq> [] \<and> (\<exists>r. k = f @ ''/'' @ r)"
    by auto
qed (auto simp: keyBoundToSender_def nth_append)

text \<open>The checks that an accepted envelope has passed, in one place.\<close>

definition accepted :: "lib \<Rightarrow> obj \<Rightarrow> ValidationState \<Rightarrow> bool" where
  "accepted L env st \<longleftrightarrow>
     (\<exists>sig pub raw created seq.
        obj_get env ''sig'' = GMap sig \<and>
        map_of (vs_Keys st) (pStr sig ''key'') = Some pub \<and>
        keyBoundToSender (pStr sig ''key'') (envStr env ''from'') \<and>
        b64_decode (pStr sig ''value'') = Some raw \<and>
        VerifyEnvelope L env raw pub = Inr True \<and>
        envStr env ''id'' \<noteq> [] \<and> map_of (vs_SeenIDs st) (envStr env ''id'') \<noteq> Some True \<and>
        pInt env ''seq'' = (seq, True) \<and> sint (vs_LastSeq st) < sint seq \<and>
        parse_time L (envStr env ''created'') = Some created \<and>
        vs_Now st - created \<le> MaxAge \<and> created - vs_Now st \<le> MaxFuture)"

lemma envInt_pInt: "envInt env key = pInt env key"
  by (simp add: envInt_def pInt_def split: gval.splits)

lemma ValidateEnvelope_ok: "ValidateEnvelope L env st = VerdictOK \<longleftrightarrow> accepted L env st"
proof (cases "\<exists>sig. obj_get env ''sig'' = GMap sig")
  case True
  then obtain sig where sig: "obj_get env ''sig'' = GMap sig" by blast
  show ?thesis
    by (auto simp: ValidateEnvelope_def accepted_def sig Let_def envInt_pInt pStr_def envStr_def
        split: option.splits if_splits prod.splits)
next
  case False
  then show ?thesis
    by (auto simp: ValidateEnvelope_def accepted_def split: gval.splits)
qed

text \<open>A sender without a path: what a node configures as its \<open>Base\<close>.\<close>

definition bare_origin :: "string \<Rightarrow> bool" where
  "bare_origin f \<longleftrightarrow> HasPrefix f ''https://'' \<and> CHR ''/'' \<notin> set (drop 8 f)"

lemma bare_origin_first_slash:
  assumes "bare_origin f" "k = f @ ''/'' @ r"
  shows "f = ''https://'' @ takeWhile (\<lambda>c. c \<noteq> CHR ''/'') (drop 8 k)"
proof -
  obtain h where "f = ''https://'' @ h" "CHR ''/'' \<notin> set h"
    using assms(1) by (auto simp: bare_origin_def HasPrefix_iff)
  then show ?thesis
    using assms(2) by (auto simp: takeWhile_append)
qed

lemma keyID_bound: "base \<noteq> [] \<Longrightarrow> keyBoundToSender (keyID base localID) base"
  by (simp add: keyBoundToSender_iff keyID_def identityPath_def)

section \<open>Properties\<close>

text \<open>
  C7: an envelope is accepted exactly when all of these hold: it carries a signature object whose key is
  published and bound to the claimed sender, the signature verifies over everything else, the id is
  present and new, the sequence number is an integer above the last one processed, and the creation time
  parses and lies within the window. None of the checks can be bypassed by the order they run in.
\<close>

theorem ValidateEnvelope_accepts:
  "ValidateEnvelope L env st = VerdictOK \<longleftrightarrow>
     (\<exists>sig pub raw created seq.
        obj_get env ''sig'' = GMap sig \<and>
        map_of (vs_Keys st) (pStr sig ''key'') = Some pub \<and>
        keyBoundToSender (pStr sig ''key'') (envStr env ''from'') \<and>
        b64_decode (pStr sig ''value'') = Some raw \<and>
        VerifyEnvelope L env raw pub = Inr True \<and>
        envStr env ''id'' \<noteq> [] \<and> map_of (vs_SeenIDs st) (envStr env ''id'') \<noteq> Some True \<and>
        pInt env ''seq'' = (seq, True) \<and> sint (vs_LastSeq st) < sint seq \<and>
        parse_time L (envStr env ''created'') = Some created \<and>
        vs_Now st - created \<le> MaxAge \<and> created - vs_Now st \<le> MaxFuture)"
  unfolding ValidateEnvelope_ok accepted_def ..



text \<open>
  C31: a key speaks for one origin. A key id that is bound to two senders which are both bare origins
  (scheme and host, no path) is bound to one sender: an origin whose name merely starts with another's
  cannot use its keys.
\<close>

theorem key_speaks_for_one_origin:
  assumes "keyBoundToSender k f" "keyBoundToSender k g" "bare_origin f" "bare_origin g"
  shows "f = g"
proof -
  obtain r q where "k = f @ ''/'' @ r" "k = g @ ''/'' @ q"
    using assms(1,2) unfolding keyBoundToSender_iff by blast
  with assms(3,4) show ?thesis
    using bare_origin_first_slash by metis
qed

theorem key_speaks_for_one_origin_witness: "''https://a.example'' = ''https://a.example''"
  by (rule key_speaks_for_one_origin [of "keyID ''https://a.example'' ''#nk1''"]) code_simp+

end
