(* ===== verification/LP_Ledger.thy ===== *)
theory LP_Ledger
  imports LP_Canonical LP_HashChain
begin

text \<open>
  The double-entry, append-only, hash-linked ledger (node/ledger/ledger.go): its records, \<open>Append\<close>,
  \<open>VerifyChain\<close>, \<open>Load\<close>, the invariant that they keep, and the contract through which the node's
  operations use it.
\<close>

section \<open>Data\<close>

definition NodeWalletPrefix :: string where "NodeWalletPrefix = ''node:''"
definition MemberPrefix :: string where "MemberPrefix = ''m:''"
definition FundPrefix :: string where "FundPrefix = ''fund:''"
definition AcctIssuance :: string where "AcctIssuance = ''issuance''"
definition AcctTreasury :: string where "AcctTreasury = ''treasury''"

record entry =
  e_Account :: string
  e_Amount :: i64

record tx =
  tx_ID :: string
  tx_Type :: string
  tx_Ref :: string
  tx_Created :: string
  tx_Entries :: "entry list"

text \<open>\<open>MemberSig\<close> is a \<open>*string\<close>: \<open>None\<close> is the nil pointer.\<close>

record log_record =
  r_Seq :: i64
  r_Prev :: string
  r_Tx :: tx
  r_MemberSig :: "string option"
  r_Hash :: string

record ledger =
  l_log :: "log_record list"
  l_balances :: "(string, i64) gomap"

datatype ledger_error =
    ErrEmptyTx
  | ErrUnbalanced i64
  | ErrNodeNegative string i64 i64
  | HashFailed canon_error
  | BadSeq nat i64
  | PrevMismatch i64
  | DroveNegative i64 string
  | RecordUnbalanced i64 i64
  | HashMismatch i64

section \<open>Hashing a record\<close>

definition entry_value :: "entry \<Rightarrow> gval" where
  "entry_value e = GMap [(''account'', GStr (e_Account e)), (''amount'', GInt (e_Amount e))]"

definition txMap :: "tx \<Rightarrow> obj" where
  "txMap t =
     (let m = [(''id'', GStr (tx_ID t)), (''type'', GStr (tx_Type t)), (''created'', GStr (tx_Created t)),
               (''entries'', GArr (map entry_value (tx_Entries t)))]
      in if tx_Ref t \<noteq> [] then mput ''ref'' (GStr (tx_Ref t)) m else m)"

definition record_value :: "log_record \<Rightarrow> gval" where
  "record_value r =
     GMap [(''seq'', GInt (r_Seq r)), (''prev'', GStr (r_Prev r)), (''tx'', GMap (txMap (r_Tx r))),
           (''member_sig'', case r_MemberSig r of None \<Rightarrow> GNil | Some s \<Rightarrow> GStr s)]"

definition recordHash :: "log_record \<Rightarrow> canon_error + string" where
  "recordHash r =
     (case Canonical (record_value r) of Inl e \<Rightarrow> Inl e | Inr b \<Rightarrow> Inr (b64_encode (sha256 b)))"

section \<open>Operations\<close>

definition New :: ledger where
  "New = \<lparr>l_log = [], l_balances = []\<rparr>"

definition Balance :: "ledger \<Rightarrow> string \<Rightarrow> i64" where
  "Balance l a = mget0 (l_balances l) a"

definition Head :: "ledger \<Rightarrow> string" where
  "Head l = (if l_log l = [] then [] else r_Hash (last (l_log l)))"

definition Len :: "ledger \<Rightarrow> nat" where
  "Len l = length (l_log l)"

definition Records :: "ledger \<Rightarrow> log_record list" where
  "Records l = l_log l"

definition MoneySupply :: "ledger \<Rightarrow> i64" where
  "MoneySupply l = - (Balance l AcctIssuance + Balance l AcctTreasury)"

definition isNodeWallet :: "string \<Rightarrow> bool" where
  "isNodeWallet a \<longleftrightarrow>
     length NodeWalletPrefix < length a \<and> take (length NodeWalletPrefix) a = NodeWalletPrefix"

definition sum_entries :: "entry list \<Rightarrow> i64" where
  "sum_entries es = foldl (\<lambda>s e. s + e_Amount e) 0 es"

text \<open>The loop \<open>balances[e.Account] += e.Amount\<close>.\<close>

definition add_entry :: "(string, i64) gomap \<Rightarrow> entry \<Rightarrow> (string, i64) gomap" where
  "add_entry b e = mput (e_Account e) (mget0 b (e_Account e) + e_Amount e) b"

definition add_entries :: "(string, i64) gomap \<Rightarrow> entry list \<Rightarrow> (string, i64) gomap" where
  "add_entries b es = foldl add_entry b es"

text \<open>The all-or-nothing check of the touched node wallets: the first entry that would go negative.\<close>

fun first_negative :: "(string, i64) gomap \<Rightarrow> entry list \<Rightarrow> entry option" where
  "first_negative b [] = None"
| "first_negative b (e # es) =
     (if isNodeWallet (e_Account e) \<and> sint (mget0 b (e_Account e) + e_Amount e) < 0 then Some e
      else first_negative b es)"

definition Append :: "ledger \<Rightarrow> tx \<Rightarrow> ledger_error + (log_record \<times> ledger)" where
  "Append l t =
     (if tx_Entries t = [] then Inl ErrEmptyTx
      else let amount = sum_entries (tx_Entries t) in
        if amount \<noteq> 0 then Inl (ErrUnbalanced amount)
        else case first_negative (l_balances l) (tx_Entries t) of
            Some e \<Rightarrow> Inl (ErrNodeNegative (e_Account e) (Balance l (e_Account e)) (e_Amount e))
          | None \<Rightarrow>
              let rec = \<lparr>r_Seq = of_nat (length (l_log l)) + 1, r_Prev = Head l, r_Tx = t,
                         r_MemberSig = None, r_Hash = []\<rparr>
              in case recordHash rec of
                   Inl e \<Rightarrow> Inl (HashFailed e)
                 | Inr hash \<Rightarrow>
                     let rec = rec\<lparr>r_Hash := hash\<rparr>
                     in Inr (rec, \<lparr>l_log = l_log l @ [rec], l_balances = add_entries (l_balances l) (tx_Entries t)\<rparr>))"

text \<open>The audit: the inner loop over a record's entries, then the loop over the records.\<close>

fun verify_entries ::
  "i64 \<Rightarrow> i64 \<Rightarrow> (string, i64) gomap \<Rightarrow> entry list \<Rightarrow> ledger_error + (i64 \<times> (string, i64) gomap)" where
  "verify_entries seq acc running [] = Inr (acc, running)"
| "verify_entries seq acc running (e # es) =
     (let acc = acc + e_Amount e;
          running = add_entry running e
      in if isNodeWallet (e_Account e) \<and> sint (mget0 running (e_Account e)) < 0
         then Inl (DroveNegative seq (e_Account e))
         else verify_entries seq acc running es)"

fun verify_records ::
  "nat \<Rightarrow> string \<Rightarrow> (string, i64) gomap \<Rightarrow> log_record list \<Rightarrow> ledger_error option" where
  "verify_records i prev running [] = None"
| "verify_records i prev running (rec # recs) =
     (if r_Seq rec \<noteq> of_nat i + 1 then Some (BadSeq i (r_Seq rec))
      else if r_Prev rec \<noteq> prev then Some (PrevMismatch (r_Seq rec))
      else case verify_entries (r_Seq rec) 0 running (tx_Entries (r_Tx rec)) of
          Inl e \<Rightarrow> Some e
        | Inr (amount, running') \<Rightarrow>
            if amount \<noteq> 0 then Some (RecordUnbalanced (r_Seq rec) amount)
            else case recordHash rec of
                Inl e \<Rightarrow> Some (HashFailed e)
              | Inr got \<Rightarrow>
                  if got \<noteq> r_Hash rec then Some (HashMismatch (r_Seq rec))
                  else verify_records (Suc i) (r_Hash rec) running' recs)"

definition VerifyChain :: "ledger \<Rightarrow> ledger_error option" where
  "VerifyChain l = verify_records 0 [] [] (l_log l)"

definition Load :: "log_record list \<Rightarrow> ledger_error + ledger" where
  "Load records =
     (let l = \<lparr>l_log = records, l_balances = []\<rparr> in
      case VerifyChain l of
        Some e \<Rightarrow> Inl e
      | None \<Rightarrow> Inr (l\<lparr>l_balances := foldl (\<lambda>b r. add_entries b (tx_Entries (r_Tx r))) [] records\<rparr>))"

text \<open>The messages of the errors, as they end up in an error reply.\<close>

fun canon_error_text :: "canon_error \<Rightarrow> string" where
  "canon_error_text (FloatInJSON s) =
     ''float in protocol JSON: '' @ s @ '' (PROTOCOL '' @ [CHR 0xC2, CHR 0xA7] @ ''2 forbids floats)''"
| "canon_error_text Float64InJSON = ''float64 in protocol JSON: decode with DecodeJSON (UseNumber) or use int64''"
| "canon_error_text UnsupportedType = ''unsupported type in protocol JSON''"

fun append_error_text :: "ledger_error \<Rightarrow> string" where
  "append_error_text ErrEmptyTx = ''ledger: transaction has no entries''"
| "append_error_text (ErrUnbalanced s) = ''ledger: entries do not sum to zero: sum='' @ dec64 s"
| "append_error_text (ErrNodeNegative a b x) =
     ''ledger: node wallet would go negative: '' @ a @ '' '' @ dec64 b @ dec64_signed x"
| "append_error_text (HashFailed e) = canon_error_text e"
| "append_error_text (BadSeq i s) = ''ledger: record '' @ dec_int (int i) @ '' has seq '' @ dec64 s"
| "append_error_text (PrevMismatch s) = ''ledger: record '' @ dec64 s @ '' prev mismatch''"
| "append_error_text (DroveNegative s a) = ''ledger: record '' @ dec64 s @ '' drove '' @ a @ '' negative''"
| "append_error_text (RecordUnbalanced s x) =
     ''ledger: record '' @ dec64 s @ '' unbalanced (sum='' @ dec64 x @ '')''"
| "append_error_text (HashMismatch s) = ''ledger: record '' @ dec64 s @ '' hash mismatch''"

section \<open>Entries and balances\<close>

text \<open>The amount that a list of entries books to one account.\<close>

definition booked :: "entry list \<Rightarrow> string \<Rightarrow> i64" where
  "booked es a = (\<Sum>e\<leftarrow>es. if e_Account e = a then e_Amount e else 0)"

lemma booked_simps [simp]:
  "booked [] a = 0"
  "booked (e # es) a = (if e_Account e = a then e_Amount e else 0) + booked es a"
  "booked (es @ fs) a = booked es a + booked fs a"
  by (simp_all add: booked_def)

lemma foldl_amounts: "foldl (\<lambda>s e. s + e_Amount e) x es = x + (\<Sum>e\<leftarrow>es. e_Amount e)"
  by (induction es arbitrary: x) (simp_all add: add.assoc)

lemma sum_entries_simps [simp]: "sum_entries [] = 0" "sum_entries (e # es) = e_Amount e + sum_entries es"
  by (simp_all add: sum_entries_def foldl_amounts)

lemma add_entries_simps [simp]:
  "add_entries b [] = b" "add_entries b (e # es) = add_entries (add_entry b e) es"
  "add_entries b (es @ fs) = add_entries (add_entries b es) fs"
  by (simp_all add: add_entries_def)

lemma mget0_add_entry [simp]:
  "mget0 (add_entry b e) a = mget0 b a + (if e_Account e = a then e_Amount e else 0)"
  by (simp add: add_entry_def)

lemma mget0_add_entries: "mget0 (add_entries b es) a = mget0 b a + booked es a"
  by (induction es arbitrary: b) (simp_all add: algebra_simps)

lemma distinct_add_entries: "distinct (mkeys b) \<Longrightarrow> distinct (mkeys (add_entries b es))"
  by (induction es arbitrary: b) (simp_all add: add_entry_def)

lemma total_add_entries:
  "distinct (mkeys b) \<Longrightarrow>
     sum_list (map snd (add_entries b es)) = sum_list (map snd b) + sum_entries es"
  by (induction es arbitrary: b) (simp_all add: add_entry_def sum_list_mput algebra_simps)

lemma first_negative_None:
  "first_negative b es = None \<longleftrightarrow>
     (\<forall>e \<in> set es. isNodeWallet (e_Account e) \<longrightarrow> 0 \<le> sint (mget0 b (e_Account e) + e_Amount e))"
  by (induction es) auto

lemma first_negative_Some:
  "first_negative b es = Some e \<Longrightarrow>
     e \<in> set es \<and> isNodeWallet (e_Account e) \<and> sint (mget0 b (e_Account e) + e_Amount e) < 0"
  by (induction es) (auto split: if_splits)

text \<open>A transaction that books to a node wallet at most once, which is all that the node ever appends.\<close>

definition wallets_once :: "entry list \<Rightarrow> bool" where
  "wallets_once es \<longleftrightarrow> distinct (filter isNodeWallet (map e_Account es))"

lemma wallets_once_simps [simp]:
  "wallets_once []"
  "wallets_once (e # es) \<longleftrightarrow>
     (isNodeWallet (e_Account e) \<longrightarrow> e_Account e \<notin> e_Account ` set es) \<and> wallets_once es"
  by (auto simp: wallets_once_def)

lemma verify_entries_ok:
  assumes "wallets_once es"
    and "\<forall>e \<in> set es. isNodeWallet (e_Account e) \<longrightarrow> 0 \<le> sint (mget0 b (e_Account e) + e_Amount e)"
  shows "verify_entries seq acc b es = Inr (acc + sum_entries es, add_entries b es)"
  using assms
proof (induction es arbitrary: acc b)
  case (Cons e es)
  then have "\<forall>f \<in> set es. isNodeWallet (e_Account f) \<longrightarrow>
      0 \<le> sint (mget0 (add_entry b e) (e_Account f) + e_Amount f)"
    by auto
  then have "verify_entries seq (acc + e_Amount e) (add_entry b e) es =
      Inr (acc + e_Amount e + sum_entries es, add_entries (add_entry b e) es)"
    using Cons by auto
  then show ?case
    using Cons.prems(2) by (auto simp: Let_def add.assoc not_less)
qed simp

lemma verify_entries_D:
  "verify_entries seq acc b es = Inr (s, b') \<Longrightarrow> s = acc + sum_entries es \<and> b' = add_entries b es"
proof (induction es arbitrary: acc b)
  case (Cons e es)
  then have "verify_entries seq (acc + e_Amount e) (add_entry b e) es = Inr (s, b')"
    by (simp add: Let_def split: if_splits)
  from Cons.IH [OF this] show ?case
    by (simp add: add.assoc)
qed simp

end
