(* ===== verification/LP_LedgerLaws.thy ===== *)
theory LP_LedgerLaws
  imports LP_Ledger
begin

text \<open>
  What the ledger keeps: the invariant of a ledger that was built by \<open>Append\<close>, the contract through
  which the node books (\<open>ledger_api\<close>, with the two-legged postings that nearly every operation makes), and
  the record hashes as a hash chain.
\<close>

section \<open>Records hash without failing\<close>

definition record_text :: "log_record \<Rightarrow> bytes" where
  "record_text r = (case Canonical (record_value r) of Inl _ \<Rightarrow> [] | Inr b \<Rightarrow> b)"

lemma float_free_record: "float_free (record_value r)"
  by (auto simp: record_value_def txMap_def entry_value_def Let_def mput_def split: option.splits)

lemma recordHash_text: "recordHash r = Inr (b64_encode (sha256 (record_text r)))"
  using float_free_canon_ok [OF float_free_record [of r]]
  by (auto simp: recordHash_def record_text_def Canonical_def canon_ok_def is_ok_iff)

section \<open>Appending\<close>

definition next_record :: "ledger \<Rightarrow> tx \<Rightarrow> log_record" where
  "next_record l t =
     (let r = \<lparr>r_Seq = of_nat (length (l_log l)) + 1, r_Prev = Head l, r_Tx = t, r_MemberSig = None, r_Hash = []\<rparr>
      in r\<lparr>r_Hash := b64_encode (sha256 (record_text r))\<rparr>)"

text \<open>The conditions on which a transaction is taken, and the state that results.\<close>

definition can_append :: "(string \<Rightarrow> i64) \<Rightarrow> entry list \<Rightarrow> bool" where
  "can_append bal es \<longleftrightarrow> es \<noteq> [] \<and> sum_entries es = 0 \<and>
     (\<forall>e \<in> set es. isNodeWallet (e_Account e) \<longrightarrow> 0 \<le> sint (bal (e_Account e) + e_Amount e))"

lemma Append_ok:
  assumes "can_append (Balance l) (tx_Entries t)"
  shows "Append l t = Inr (next_record l t,
    \<lparr>l_log = l_log l @ [next_record l t], l_balances = add_entries (l_balances l) (tx_Entries t)\<rparr>)"
proof -
  have "first_negative (l_balances l) (tx_Entries t) = None"
    using assms by (simp add: can_append_def first_negative_None Balance_def)
  then show ?thesis
    using assms by (simp add: can_append_def Append_def next_record_def recordHash_text Let_def)
qed

lemma Append_refused:
  assumes "\<not> can_append (Balance l) (tx_Entries t)"
  shows "\<exists>e. Append l t = Inl e"
proof (cases "first_negative (l_balances l) (tx_Entries t)")
  case None
  then show ?thesis
    using assms by (auto simp: can_append_def Append_def first_negative_None Balance_def Let_def)
next
  case (Some e)
  then show ?thesis
    by (simp add: Append_def Let_def)
qed

lemma Append_Inr:
  "Append l t = Inr (r, l') \<longleftrightarrow>
     can_append (Balance l) (tx_Entries t) \<and> r = next_record l t \<and>
     l' = \<lparr>l_log = l_log l @ [r], l_balances = add_entries (l_balances l) (tx_Entries t)\<rparr>"
  using Append_ok [of l t] Append_refused [of l t] by (cases "can_append (Balance l) (tx_Entries t)") auto

section \<open>The invariant\<close>

definition derived :: "(string, i64) gomap \<Rightarrow> log_record list \<Rightarrow> (string, i64) gomap" where
  "derived b recs = foldl (\<lambda>b r. add_entries b (tx_Entries (r_Tx r))) b recs"

lemma derived_simps [simp]:
  "derived b [] = b" "derived b (r # rs) = derived (add_entries b (tx_Entries (r_Tx r))) rs"
  "derived b (rs @ qs) = derived (derived b rs) qs"
  by (simp_all add: derived_def)

text \<open>A ledger is well formed when its chain verifies and its balances are those of its log.\<close>

definition wf_ledger :: "ledger \<Rightarrow> bool" where
  "wf_ledger l \<longleftrightarrow> VerifyChain l = None \<and> l_balances l = derived [] (l_log l)"

definition wallets_ok :: "(string, i64) gomap \<Rightarrow> bool" where
  "wallets_ok b \<longleftrightarrow> (\<forall>a. isNodeWallet a \<longrightarrow> 0 \<le> sint (mget0 b a))"

lemma verify_entries_wallets:
  "verify_entries seq acc b es = Inr (s, b') \<Longrightarrow> wallets_ok b \<Longrightarrow> wallets_ok b'"
proof (induction es arbitrary: acc b)
  case (Cons e es)
  then have *: "verify_entries seq (acc + e_Amount e) (add_entry b e) es = Inr (s, b')"
    "isNodeWallet (e_Account e) \<longrightarrow> 0 \<le> sint (mget0 (add_entry b e) (e_Account e))"
    by (auto simp: Let_def split: if_splits)
  then have "wallets_ok (add_entry b e)"
    using Cons.prems(2) by (auto simp: wallets_ok_def)
  with Cons.IH * show ?case
    by blast
qed simp

text \<open>One record of a verified chain.\<close>

lemma verify_records_Cons:
  "verify_records i prev b (r # rs) = None \<longleftrightarrow>
     r_Seq r = of_nat i + 1 \<and> r_Prev r = prev \<and>
     is_ok (verify_entries (r_Seq r) 0 b (tx_Entries (r_Tx r))) \<and> sum_entries (tx_Entries (r_Tx r)) = 0 \<and>
     r_Hash r = b64_encode (sha256 (record_text r)) \<and>
     verify_records (Suc i) (r_Hash r) (add_entries b (tx_Entries (r_Tx r))) rs = None"
  by (auto simp: recordHash_text is_ok_iff split: sum.splits dest: verify_entries_D)

declare verify_records.simps(2) [simp del]

lemma verify_records_append:
  "verify_records i prev b (rs @ qs) = None \<longleftrightarrow>
     verify_records i prev b rs = None \<and>
     verify_records (i + length rs) (if rs = [] then prev else r_Hash (last rs)) (derived b rs) qs = None"
  by (induction rs arbitrary: i prev b) (auto simp: verify_records_Cons)

lemma verified_wallets: "verify_records i prev b rs = None \<Longrightarrow> wallets_ok b \<Longrightarrow> wallets_ok (derived b rs)"
proof (induction rs arbitrary: i prev b)
  case (Cons r rs)
  then obtain s b' where "verify_entries (r_Seq r) 0 b (tx_Entries (r_Tx r)) = Inr (s, b')"
    by (auto simp: verify_records_Cons is_ok_iff)
  then have "wallets_ok (add_entries b (tx_Entries (r_Tx r)))"
    using verify_entries_D verify_entries_wallets Cons.prems(2) by metis
  with Cons show ?case
    by (auto simp: verify_records_Cons)
qed simp

lemma verified_total:
  "verify_records i prev b rs = None \<Longrightarrow> distinct (mkeys b) \<Longrightarrow>
     distinct (mkeys (derived b rs)) \<and> sum_list (map snd (derived b rs)) = sum_list (map snd b)"
proof (induction rs arbitrary: i prev b)
  case (Cons r rs)
  then have "sum_entries (tx_Entries (r_Tx r)) = 0"
    and rest: "verify_records (Suc i) (r_Hash r) (add_entries b (tx_Entries (r_Tx r))) rs = None"
    unfolding verify_records_Cons by blast+
  then show ?case
    using Cons.IH [OF rest distinct_add_entries [OF Cons.prems(2)]] total_add_entries [OF Cons.prems(2)] by simp
qed simp

lemma wf_ledger_wallets: "wf_ledger l \<Longrightarrow> isNodeWallet a \<Longrightarrow> 0 \<le> sint (Balance l a)"
  using verified_wallets [of 0 "[]" "[]" "l_log l"]
  by (auto simp: wf_ledger_def VerifyChain_def wallets_ok_def Balance_def)

lemma wf_ledger_total:
  "wf_ledger l \<Longrightarrow> distinct (mkeys (l_balances l)) \<and> sum_list (map snd (l_balances l)) = 0"
  using verified_total [of 0 "[]" "[]" "l_log l"]
  by (auto simp: wf_ledger_def VerifyChain_def mkeys_def)

lemma wf_ledger_New: "wf_ledger New"
  by (simp add: wf_ledger_def VerifyChain_def New_def)

lemma record_text_hash [simp]: "record_text (r\<lparr>r_Hash := h\<rparr>) = record_text r"
  by (simp add: record_text_def record_value_def)

lemma next_record_simps [simp]:
  "r_Seq (next_record l t) = of_nat (length (l_log l)) + 1" "r_Prev (next_record l t) = Head l"
  "r_Tx (next_record l t) = t" "r_MemberSig (next_record l t) = None"
  "r_Hash (next_record l t) = b64_encode (sha256 (record_text (next_record l t)))"
  by (simp_all add: next_record_def Let_def record_text_def record_value_def)

lemma Append_wf:
  assumes "wf_ledger l" "wallets_once (tx_Entries t)" "Append l t = Inr (r, l')"
  shows "wf_ledger l'"
proof -
  from assms(3) have app: "can_append (Balance l) (tx_Entries t)" "r = next_record l t"
    "l' = \<lparr>l_log = l_log l @ [r], l_balances = add_entries (l_balances l) (tx_Entries t)\<rparr>"
    by (simp_all add: Append_Inr)
  have bal: "l_balances l = derived [] (l_log l)"
    using assms(1) by (simp add: wf_ledger_def)
  have "is_ok (verify_entries (r_Seq r) 0 (l_balances l) (tx_Entries t))"
    using app(1) assms(2) by (subst verify_entries_ok) (auto simp: can_append_def Balance_def)
  then have "verify_records (length (l_log l)) (if l_log l = [] then [] else r_Hash (last (l_log l)))
      (derived [] (l_log l)) [r] = None"
    using app(1,2) unfolding verify_records_Cons
    by (simp add: bal can_append_def Head_def)
  then show ?thesis
    using assms(1) app(3)
    by (simp add: wf_ledger_def VerifyChain_def verify_records_append app(2))
qed

section \<open>The contract of the ledger\<close>

text \<open>
  What the node relies on: which transactions are taken, how they move the balances, and that an
  invariant is kept under which node wallets are never negative.
\<close>

locale ledger_api =
  fixes append :: "'l \<Rightarrow> tx \<Rightarrow> ledger_error + (log_record \<times> 'l)"
    and bal :: "'l \<Rightarrow> string \<Rightarrow> i64"
    and inv :: "'l \<Rightarrow> bool"
  assumes append_taken: "is_ok (append l t) \<longleftrightarrow> can_append (bal l) (tx_Entries t)"
    and append_bal: "append l t = Inr (r, l') \<Longrightarrow> bal l' a = bal l a + booked (tx_Entries t) a"
    and append_inv: "inv l \<Longrightarrow> wallets_once (tx_Entries t) \<Longrightarrow> append l t = Inr (r, l') \<Longrightarrow> inv l'"
    and inv_wallets: "inv l \<Longrightarrow> isNodeWallet a \<Longrightarrow> 0 \<le> sint (bal l a)"
begin

text \<open>A transfer of \<open>x\<close> from one account to another, the shape of nearly all postings.\<close>

definition moves :: "tx \<Rightarrow> string \<Rightarrow> string \<Rightarrow> i64 \<Rightarrow> bool" where
  "moves t a b x \<longleftrightarrow> a \<noteq> b \<and>
     (tx_Entries t = [\<lparr>e_Account = a, e_Amount = - x\<rparr>, \<lparr>e_Account = b, e_Amount = x\<rparr>] \<or>
      tx_Entries t = [\<lparr>e_Account = b, e_Amount = x\<rparr>, \<lparr>e_Account = a, e_Amount = - x\<rparr>])"

lemma moves_taken:
  "moves t a b x \<Longrightarrow> is_ok (append l t) \<longleftrightarrow>
     (isNodeWallet a \<longrightarrow> 0 \<le> sint (bal l a - x)) \<and> (isNodeWallet b \<longrightarrow> 0 \<le> sint (bal l b + x))"
  by (auto simp: moves_def append_taken can_append_def)

lemma moves_bal:
  "moves t a b x \<Longrightarrow> append l t = Inr (r, l') \<Longrightarrow>
     bal l' c = (if c = a then bal l a - x else if c = b then bal l b + x else bal l c)"
  by (auto simp: moves_def append_bal)

lemma moves_inv: "moves t a b x \<Longrightarrow> inv l \<Longrightarrow> append l t = Inr (r, l') \<Longrightarrow> inv l'"
  by (erule append_inv [rotated -1]) (auto simp: moves_def)

text \<open>Between accounts that are no node wallets a transfer is always taken.\<close>

lemma moves_internal:
  "moves t a b x \<Longrightarrow> \<not> isNodeWallet a \<Longrightarrow> \<not> isNodeWallet b \<Longrightarrow> \<exists>r l'. append l t = Inr (r, l')"
  using moves_taken [of t a b x l] by (auto simp: is_ok_iff)

text \<open>Paying into a node wallet is taken as long as it does not overflow; paying out as long as it is covered.\<close>

lemma moves_in:
  "moves t a b x \<Longrightarrow> \<not> isNodeWallet a \<Longrightarrow> 0 \<le> sint (bal l b + x) \<Longrightarrow> \<exists>r l'. append l t = Inr (r, l')"
  using moves_taken [of t a b x l] by (auto simp: is_ok_iff)

lemma moves_out:
  "moves t a b x \<Longrightarrow> \<not> isNodeWallet b \<Longrightarrow> 0 \<le> sint (bal l a - x) \<Longrightarrow> \<exists>r l'. append l t = Inr (r, l')"
  using moves_taken [of t a b x l] by (auto simp: is_ok_iff)

end

interpretation led: ledger_api Append Balance wf_ledger
proof unfold_locales
  show "is_ok (Append l t) \<longleftrightarrow> can_append (Balance l) (tx_Entries t)" for l t
    using Append_ok [of l t] Append_refused [of l t] by (cases "can_append (Balance l) (tx_Entries t)") auto
  show "Append l t = Inr (r, l') \<Longrightarrow> Balance l' a = Balance l a + booked (tx_Entries t) a" for l t r l' a
    by (simp add: Append_Inr Balance_def mget0_add_entries)
  show "wf_ledger l \<Longrightarrow> wallets_once (tx_Entries t) \<Longrightarrow> Append l t = Inr (r, l') \<Longrightarrow> wf_ledger l'" for l t r l'
    by (rule Append_wf)
  show "wf_ledger l \<Longrightarrow> isNodeWallet a \<Longrightarrow> 0 \<le> sint (Balance l a)" for l a
    by (rule wf_ledger_wallets)
qed

section \<open>The log as a hash chain\<close>

text \<open>What a record hashes besides the previous hash: its number, its transaction and the signature.\<close>

type_synonym log_op = "i64 \<times> tx \<times> string option"

definition record_of :: "string \<Rightarrow> log_op \<Rightarrow> log_record" where
  "record_of h x = \<lparr>r_Seq = fst x, r_Prev = h, r_Tx = fst (snd x), r_MemberSig = snd (snd x), r_Hash = []\<rparr>"

definition op_of :: "log_record \<Rightarrow> log_op" where
  "op_of r = (r_Seq r, r_Tx r, r_MemberSig r)"

definition log_digest :: "bytes \<Rightarrow> string" where
  "log_digest b = b64_encode (sha256 b)"

definition tx_ascii :: "tx \<Rightarrow> bool" where
  "tx_ascii t \<longleftrightarrow> ascii (tx_ID t) \<and> ascii (tx_Type t) \<and> ascii (tx_Ref t) \<and> ascii (tx_Created t) \<and>
     (\<forall>e \<in> set (tx_Entries t). ascii (e_Account e))"

definition log_op_ascii :: "log_op \<Rightarrow> bool" where
  "log_op_ascii x \<longleftrightarrow> tx_ascii (fst (snd x)) \<and> (case snd (snd x) of None \<Rightarrow> True | Some s \<Rightarrow> ascii s)"

lemma plain_txMap: "tx_ascii t \<Longrightarrow> plain (GMap (txMap t))"
  by (auto simp: tx_ascii_def txMap_def entry_value_def Let_def mput_def)

lemma plain_record: "ascii h \<Longrightarrow> log_op_ascii x \<Longrightarrow> plain (record_value (record_of h x))"
  using plain_txMap [of "fst (snd x)"]
  by (auto simp: record_value_def record_of_def log_op_ascii_def split: option.splits)

lemma map_norm_entries_inject: "map (norm \<circ> entry_value) es = map (norm \<circ> entry_value) fs \<Longrightarrow> es = fs"
proof (rule map_injective)
  show "inj (norm \<circ> entry_value)"
  proof (rule injI)
    fix e f assume "(norm \<circ> entry_value) e = (norm \<circ> entry_value) f"
    then have n: "norm (GMap [(''account'', GStr (e_Account e)), (''amount'', GInt (e_Amount e))]) =
        norm (GMap [(''account'', GStr (e_Account f)), (''amount'', GInt (e_Amount f))])"
      by (simp only: entry_value_def comp_def)
    show "e = f"
      using norm_GMap_member [OF n, of "''account''"] norm_GMap_member [OF n, of "''amount''"]
      by (auto dest: dec64_inject)
  qed
qed simp

lemma norm_txMap_inject: "norm (GMap (txMap s)) = norm (GMap (txMap t)) \<Longrightarrow> s = t"
proof -
  assume n: "norm (GMap (txMap s)) = norm (GMap (txMap t))"
  note m = norm_GMap_member [OF n]
  have get: "map_of (txMap u) ''id'' = Some (GStr (tx_ID u))" "map_of (txMap u) ''type'' = Some (GStr (tx_Type u))"
    "map_of (txMap u) ''created'' = Some (GStr (tx_Created u))"
    "map_of (txMap u) ''entries'' = Some (GArr (map entry_value (tx_Entries u)))"
    "map_of (txMap u) ''ref'' = (if tx_Ref u = [] then None else Some (GStr (tx_Ref u)))" for u
    by (simp_all add: txMap_def Let_def)
  have "tx_ID s = tx_ID t" "tx_Type s = tx_Type t" "tx_Created s = tx_Created t"
    using m [of "''id''"] m [of "''type''"] m [of "''created''"] by (simp_all add: get)
  moreover have "tx_Entries s = tx_Entries t"
    using m [of "''entries''"] by (intro map_norm_entries_inject) (simp add: get)
  moreover have "tx_Ref s = tx_Ref t"
    using m [of "''ref''"] by (simp add: get split: if_splits)
  ultimately show "s = t"
    by simp
qed

lemma record_value_inject:
  assumes "norm (record_value (record_of h x)) = norm (record_value (record_of h' y))"
  shows "h = h' \<and> x = y"
proof -
  note m = norm_GMap_member [OF assms [unfolded record_value_def]]
  have "h = h'" "fst x = fst y"
    using m [of "''prev''"] m [of "''seq''"] by (auto simp: record_of_def dest: dec64_inject)
  moreover have "fst (snd x) = fst (snd y)"
    using m [of "''tx''"] by (intro norm_txMap_inject) (simp add: record_of_def del: norm.simps)
  moreover have "snd (snd x) = snd (snd y)"
    using m [of "''member_sig''"] by (auto simp: record_of_def split: option.splits)
  ultimately show ?thesis
    by (simp add: prod_eq_iff)
qed

interpretation log: hash_chain log_digest "\<lambda>h x. record_text (record_of h x)" ascii log_op_ascii
proof unfold_locales
  show "ascii (log_digest b)" for b
    by (simp add: log_digest_def)
next
  fix h h' x y
  assume good: "ascii h" "ascii h'" "log_op_ascii x" "log_op_ascii y"
    and eq: "record_text (record_of h x) = record_text (record_of h' y)"
  moreover obtain a b where "writeCanonical (record_value (record_of h x)) = Inr a"
    "writeCanonical (record_value (record_of h' y)) = Inr b"
    using plain_canonical plain_record good by metis
  ultimately have "writeCanonical (record_value (record_of h x)) = writeCanonical (record_value (record_of h' y))"
    by (simp add: record_text_def Canonical_def del: writeCanonical.simps)
  then have "norm (record_value (record_of h x)) = norm (record_value (record_of h' y))"
    using good by (intro canonical_norm plain_record)
  then show "h = h' \<and> x = y"
    by (rule record_value_inject)
qed

text \<open>A verified chain is the chain of its own operations: every stored hash and link is determined.\<close>

lemma record_text_record_of: "record_text (record_of (r_Prev r) (op_of r)) = record_text r"
  by (simp add: record_text_def record_value_def record_of_def op_of_def)

lemma verified_links:
  "verify_records i prev b rs = None \<Longrightarrow>
     (if rs = [] then prev else r_Hash (last rs)) =
       links log_digest (\<lambda>h x. record_text (record_of h x)) prev (map op_of rs)"
proof (induction rs arbitrary: i prev b)
  case (Cons r rs)
  then have "r_Hash r = log_digest (record_text (record_of prev (op_of r)))"
    using record_text_record_of [of r] by (auto simp: verify_records_Cons log_digest_def)
  with Cons show ?case
    by (cases "rs = []") (auto simp: verify_records_Cons)
qed simp

lemma verified_same_ops:
  "verify_records i prev b rs = None \<Longrightarrow> verify_records i prev b' rs' = None \<Longrightarrow>
     map op_of rs = map op_of rs' \<Longrightarrow> rs = rs'"
proof (induction rs arbitrary: i prev b b' rs')
  case (Cons r rs)
  then obtain r' qs where rs': "rs' = r' # qs" "op_of r = op_of r'" "map op_of rs = map op_of qs"
    by (cases rs') auto
  have "r_Prev r = r_Prev r'" "r_Hash r = r_Hash r'"
    using Cons.prems(1,2) rs' record_text_record_of [of r] record_text_record_of [of r']
    by (auto simp: verify_records_Cons)
  then have "r = r'"
    using rs'(2) by (simp add: op_of_def)
  moreover have "rs = qs"
    using Cons rs' \<open>r = r'\<close> by (auto simp: verify_records_Cons)
  ultimately show ?case
    using rs' by simp
qed simp

text \<open>Appending one transaction after the other; a refused one leaves the ledger as it was.\<close>

definition append_all :: "ledger \<Rightarrow> tx list \<Rightarrow> ledger" where
  "append_all l ts = foldl (\<lambda>l t. case Append l t of Inl _ \<Rightarrow> l | Inr (r, l') \<Rightarrow> l') l ts"

lemma append_all_wf:
  "\<forall>t \<in> set ts. wallets_once (tx_Entries t) \<Longrightarrow> wf_ledger l \<Longrightarrow> wf_ledger (append_all l ts)"
  unfolding append_all_def
  by (induction ts arbitrary: l) (auto split: sum.splits intro: led.append_inv)

lemma verified_hashed:
  "verify_records i prev b rs = None \<Longrightarrow>
     hashed log_digest (\<lambda>h x. record_text (record_of h x)) prev (map op_of rs) = map record_text rs"
proof (induction rs arbitrary: i prev b)
  case (Cons r rs)
  have "record_text (record_of prev (op_of r)) = record_text r" "log_digest (record_text r) = r_Hash r"
    and rest: "verify_records (Suc i) (r_Hash r) (add_entries b (tx_Entries (r_Tx r))) rs = None"
    using Cons.prems record_text_record_of [of r] unfolding verify_records_Cons log_digest_def by metis+
  then show ?case
    using Cons.IH [OF rest] by simp
qed simp

lemma same_log:
  assumes v: "verify_records 0 [] [] rs = None" "verify_records 0 [] [] rs' = None" and "length rs = length rs'"
    and "\<forall>r \<in> set rs \<union> set rs'. log_op_ascii (op_of r)"
    and "(if rs = [] then [] else r_Hash (last rs)) = (if rs' = [] then [] else r_Hash (last rs'))"
    and "\<not> collide log_digest (map record_text rs) (map record_text rs')"
  shows "rs = rs'"
proof -
  have "map op_of rs = map op_of rs'"
    using log.same_end [of "map op_of rs" "map op_of rs'" "[]" "[]"] assms(3-6)
      verified_links [OF v(1)] verified_links [OF v(2)] verified_hashed [OF v(1)] verified_hashed [OF v(2)]
    by simp
  then show ?thesis
    using verified_same_ops v by blast
qed

text \<open>A transaction to compute with: the grant of five units to a member, the first record of a log.\<close>

definition demo_tx :: tx where
  "demo_tx = \<lparr>tx_ID = ''t'', tx_Type = ''issuance.grant'', tx_Ref = [], tx_Created = ''now'',
     tx_Entries = [\<lparr>e_Account = ''m:ann'', e_Amount = 5\<rparr>, \<lparr>e_Account = ''issuance'', e_Amount = -5\<rparr>]\<rparr>"

lemma demo_tx_ascii: "tx_ascii demo_tx"
  by (simp add: tx_ascii_def demo_tx_def)

lemma demo_log: "l_log (append_all New [demo_tx]) = [next_record New demo_tx]"
proof -
  have "can_append (Balance New) (tx_Entries demo_tx)"
    by (simp add: can_append_def demo_tx_def isNodeWallet_def NodeWalletPrefix_def)
  then show ?thesis
    by (simp add: append_all_def Append_ok New_def)
qed

text \<open>The sum of a map without two of its keys.\<close>

lemma sum_without:
  fixes m :: "('k, 'v::ab_group_add) gomap"
  shows "distinct (mkeys m) \<Longrightarrow> (\<Sum>(a, b)\<leftarrow>m. if a = k then 0 else b) = (\<Sum>b\<leftarrow>m. snd b) - mget0 m k"
proof (induction m)
  case (Cons p m)
  show ?case
  proof (cases "fst p = k")
    case True
    then have "map_of m k = None"
      using Cons.prems by (auto simp: mkeys_def map_of_eq_None_iff)
    then have "(\<Sum>(a, b)\<leftarrow>m. if a = k then 0 else b) = (\<Sum>b\<leftarrow>m. snd b)"
      using Cons by (simp add: mkeys_def mget0_def)
    then show ?thesis
      using True by (cases p) (simp add: mget0_def)
  next
    case False
    then show ?thesis
      using Cons by (cases p) (simp add: mkeys_def mget0_def algebra_simps)
  qed
qed simp

lemma sum_without_two:
  fixes m :: "('k, 'v::ab_group_add) gomap"
  assumes "distinct (mkeys m)" "k \<noteq> k'"
  shows "(\<Sum>(a, b)\<leftarrow>m. if a = k \<or> a = k' then 0 else b) = (\<Sum>b\<leftarrow>m. snd b) - mget0 m k - mget0 m k'"
proof -
  let ?m = "map (\<lambda>(a, b). (a, if a = k then 0 else b)) m"
  have "distinct (mkeys ?m)" "mget0 ?m k' = mget0 m k'"
    using assms by (simp_all add: mkeys_def comp_def case_prod_beta) (induction m, auto simp: mget0_def)
  then have "(\<Sum>(a, b)\<leftarrow>?m. if a = k' then 0 else b) = (\<Sum>b\<leftarrow>?m. snd b) - mget0 m k'"
    using sum_without [of ?m k'] by simp
  moreover have "(\<Sum>b\<leftarrow>?m. snd b) = (\<Sum>(a, b)\<leftarrow>m. if a = k then 0 else b)"
    by (induction m) auto
  moreover have "(\<Sum>(a, b)\<leftarrow>?m. if a = k' then 0 else b) = (\<Sum>(a, b)\<leftarrow>m. if a = k \<or> a = k' then 0 else b)"
    by (induction m) auto
  ultimately show ?thesis
    using sum_without [OF assms(1), of k] by simp
qed

section \<open>Properties\<close>









text \<open>
  The money supply is the value in circulation: what the two issuing accounts are down is exactly what
  all the other accounts together hold, in \<open>int64\<close> arithmetic.
\<close>

theorem MoneySupply_is_circulation:
  assumes "wf_ledger l"
  shows "MoneySupply l = (\<Sum>(a, b)\<leftarrow>l_balances l. if a = AcctIssuance \<or> a = AcctTreasury then 0 else b)"
proof -
  have dist: "distinct (mkeys (l_balances l))" and "(\<Sum>b\<leftarrow>l_balances l. snd b) = 0"
    using wf_ledger_total [OF assms] by auto
  then show ?thesis
    using sum_without_two [OF dist, of AcctIssuance AcctTreasury]
    by (simp add: MoneySupply_def Balance_def AcctIssuance_def AcctTreasury_def)
qed

theorem MoneySupply_is_circulation_witness:
  "MoneySupply (append_all New [demo_tx]) =
     (\<Sum>(a, b)\<leftarrow>l_balances (append_all New [demo_tx]). if a = AcctIssuance \<or> a = AcctTreasury then 0 else b)"
  by (rule MoneySupply_is_circulation, rule append_all_wf) (simp_all add: demo_tx_def wf_ledger_New)

end
