(* ===== verification/LP_Node.thy ===== *)
theory LP_Node
  imports LP_Pricing LP_Transition LP_Channel LP_Envelope LP_LedgerLaws
begin

text \<open>
  The state of a node (node/node.go, node/contact.go, node/transfer.go, node/persist.go), the envelopes it
  builds (node/envelope.go), the snapshot it persists, and its creation. Every operation of the code runs
  under one mutex, so an operation is a function from a node to a result and a node.
\<close>

section \<open>Configuration\<close>

record MemberConfig =
  mc_Name :: string
  mc_Grant :: i64
  mc_DisplayName :: string

record Config =
  cfg_Base :: string
  cfg_Name :: string
  cfg_Description :: string
  cfg_CurrencyName :: string
  cfg_CurrencySymbol :: string
  cfg_CPeriodPpm :: i64
  cfg_UDPeriod :: string
  cfg_GenesisUD :: i64
  cfg_Transparency :: string
  cfg_AutoAcceptSeed :: i64
  cfg_Members :: "MemberConfig list"
  cfg_AdminToken :: string
  cfg_BatchUD :: bool
  cfg_PrivKey :: "bytes option"

section \<open>State\<close>

record Member =
  m_Name :: string
  m_DisplayName :: string
  m_Weight :: i64
  m_Active :: bool

record ownKey =
  k_LocalID :: string
  k_Seed :: string
  k_Created :: string
  k_Revoked :: string
  k_priv :: bytes
  k_pub :: bytes

record Contact =
  c_ID :: string
  c_PeerBase :: string
  c_PeerHost :: string
  c_IAmProposer :: bool
  c_Active :: bool
  c_Closed :: bool
  c_ProposerSeed :: i64
  c_ResponderSeed :: i64
  c_MyReserveOfPeer :: i64
  c_PeerReserveOfMe :: i64
  c_OpSeq :: i64
  c_ChannelRoot :: bytes
  c_Roots :: "string list"
  c_Busy :: bool
  c_BusyTransfer :: string
  c_PendingAdjustID :: string
  c_PendingAdjustDelta :: i64
  c_AppliedAdjusts :: "(string, bool) gomap"
  c_Diverged :: bool

record entryProof =
  ep_LogSeq :: i64
  ep_LogHash :: string

text \<open>\<open>t_Receipt\<close> is a Go map that may be nil; the two proofs are pointers.\<close>

record Transfer =
  t_ID :: string
  t_ContactID :: string
  t_Outgoing :: bool
  t_State :: string
  t_OpSeq :: i64
  t_FromMember :: string
  t_ToMember :: string
  t_SrcAmount :: i64
  t_DstAmount :: i64
  t_Expires :: string
  t_MyEntry :: "entryProof option"
  t_PeerEntry :: "entryProof option"
  t_Receipt :: "obj option"

record channelInbound =
  ci_seenIDs :: "(string, bool) gomap"
  ci_lastSeq :: i64
  ci_replies :: "(string, obj) gomap"

text \<open>
  The snapshot that is written to the store, before its JSON encoding. \<open>store\<close> is the persistence
  backend: what it holds, and whether its next \<open>Save\<close> succeeds.
\<close>

record snapshot =
  s_OwnKeys :: "ownKey list"
  s_ActiveKey :: string
  s_Created :: string
  s_CurrentUD :: i64
  s_Members :: "Member list"
  s_Ledger :: "log_record list"
  s_Contacts :: "Contact list"
  s_Transfers :: "Transfer list"
  s_OutSeq :: "(string, i64) gomap"
  s_Inbound :: "(string, channelInbound) gomap"
  s_Outbox :: "(string, obj list) gomap"
  s_PeerKeys :: "(string, string) gomap"

record store =
  st_up :: bool
  st_saved :: "snapshot option"

text \<open>
  The contacts are shared objects: \<open>contacts\<close> and \<open>contactByHost\<close> hold pointers to the same structs, and
  a change through one is seen through the other. They live in \<open>n_cells\<close>; the two maps hold indices
  into it. The other pointer maps own their objects, which are stored as values.
  \<open>n_clock\<close> is what the clock shows during an operation, \<open>n_rand\<close> counts the reads of random bytes, and
  \<open>n_panic\<close> is set where the code panics.
\<close>

type_synonym cref = nat

record Node =
  n_cfg :: Config
  n_priv :: bytes
  n_pub :: bytes
  n_keyLocalID :: string
  n_ownKeys :: "ownKey list"
  n_created :: string
  n_clock :: int
  n_led :: ledger
  n_members :: "(string, Member) gomap"
  n_cells :: "Contact list"
  n_contacts :: "(string, cref) gomap"
  n_contactByHost :: "(string, cref) gomap"
  n_transfers :: "(string, Transfer) gomap"
  n_outSeq :: "(string, i64) gomap"
  n_inState :: "(string, channelInbound) gomap"
  n_peerKeys :: "(string, bytes) gomap"
  n_outbox :: "(string, obj list) gomap"
  n_pushed :: "(string, i64) gomap"
  n_currentUD :: i64
  n_store :: "store option"
  n_rand :: nat
  n_panic :: bool

datatype node_error =
    BaseRequired
  | NameLength string
  | NameChars string
  | LedgerError ledger_error
  | PersistFailed
  | MemberExists string
  | NoMember string
  | AlreadyActive string
  | AmountNotPositive i64
  | PayYourself
  | NoActiveMember string
  | ErrInsufficient
  | GiveNoMember string
  | UnknownLeaveMode string
  | SeedNotPositive
  | ContactExists string
  | NoContact string
  | ContactOpen string
  | NoActiveContact string
  | ContactFrozen
  | ContactBusy string
  | SrcNotPositive
  | UnknownLocalMember string
  | BalanceTooLow string i64 i64
  | Pricing price_error
  | NoOutgoingTransfer string
  | CannotAbort string string
  | DeltaZero
  | WithdrawalExceeds i64 i64
  | ActiveKeyNotRevocable
  | NoSuchKey string
  | InvalidPersistedKey string
  | ActiveKeyMissing string
  | FetchFailed
  | NoUsableKeys string

section \<open>The heap of contacts\<close>

definition cell :: "Node \<Rightarrow> cref \<Rightarrow> Contact" where
  "cell n r = n_cells n ! r"

definition set_cell :: "cref \<Rightarrow> Contact \<Rightarrow> Node \<Rightarrow> Node" where
  "set_cell r c n = n\<lparr>n_cells := (n_cells n)[r := c]\<rparr>"

text \<open>\<open>n.contacts[id]\<close> and \<open>n.contactByHost[h]\<close>; \<open>None\<close> is the nil pointer.\<close>

definition contact_ref :: "Node \<Rightarrow> string \<Rightarrow> cref option" where
  "contact_ref n cid = map_of (n_contacts n) cid"

definition host_ref :: "Node \<Rightarrow> string \<Rightarrow> cref option" where
  "host_ref n h = map_of (n_contactByHost n) h"

text \<open>\<open>&Contact{...}\<close>: a new cell, and the index that points to it.\<close>

definition new_cell :: "Contact \<Rightarrow> Node \<Rightarrow> cref \<times> Node" where
  "new_cell c n = (length (n_cells n), n\<lparr>n_cells := n_cells n @ [c]\<rparr>)"

section \<open>Persisting\<close>

definition snapshotLocked :: "Node \<Rightarrow> snapshot" where
  "snapshotLocked n =
     \<lparr>s_OwnKeys = n_ownKeys n, s_ActiveKey = n_keyLocalID n, s_Created = n_created n,
      s_CurrentUD = n_currentUD n, s_Members = map snd (n_members n), s_Ledger = Records (n_led n),
      s_Contacts = map (\<lambda>kr. cell n (snd kr)) (n_contacts n),
      s_Transfers = map snd (n_transfers n), s_OutSeq = n_outSeq n, s_Inbound = n_inState n,
      s_Outbox = n_outbox n,
      s_PeerKeys = map (\<lambda>kp. (fst kp, b64_encode (snd kp))) (n_peerKeys n)\<rparr>"

text \<open>\<open>persistLocked\<close>: no store is success; a failed save leaves what the store held.\<close>

definition persistLocked :: "Node \<Rightarrow> (node_error + unit) \<times> Node" where
  "persistLocked n =
     (case n_store n of
        None \<Rightarrow> (Inr (), n)
      | Some s \<Rightarrow>
          if st_up s then (Inr (), n\<lparr>n_store := Some (s\<lparr>st_saved := Some (snapshotLocked n)\<rparr>)\<rparr>)
          else (Inl PersistFailed, n))"

definition SetStore :: "store \<Rightarrow> Node \<Rightarrow> (node_error + unit) \<times> Node" where
  "SetStore s n = persistLocked (n\<lparr>n_store := Some s\<rparr>)"

section \<open>Building envelopes\<close>

definition draw_id :: "lib \<Rightarrow> Node \<Rightarrow> string \<times> Node" where
  "draw_id L n = (newID L (n_rand n), n\<lparr>n_rand := Suc (n_rand n)\<rparr>)"

definition now_text :: "lib \<Rightarrow> Node \<Rightarrow> string" where
  "now_text L n = fmt_time L (n_clock n)"

definition mgetl :: "(string, 'a list) gomap \<Rightarrow> string \<Rightarrow> 'a list" where
  "mgetl m k = (case map_of m k of None \<Rightarrow> [] | Some xs \<Rightarrow> xs)"

definition buildSigned :: "lib \<Rightarrow> string \<Rightarrow> string \<Rightarrow> string \<Rightarrow> obj \<Rightarrow> Node \<Rightarrow> obj \<times> Node" where
  "buildSigned L typ toBase re payload n =
     (let toHost = host L toBase;
          seq = mget0 (n_outSeq n) toHost + 1;
          n = n\<lparr>n_outSeq := mput toHost seq (n_outSeq n)\<rparr>;
          (eid, n) = draw_id L n;
          env = [(''lp'', GStr ''0.2''), (''id'', GStr eid), (''type'', GStr typ),
                 (''from'', GStr (cfg_Base (n_cfg n))), (''to'', GStr toBase), (''seq'', GInt seq),
                 (''created'', GStr (now_text L n)), (''payload'', GMap payload),
                 (''re'', if re = [] then GNil else GStr re)]
      in case SignEnvelope L env (n_priv n) of
           Inl e \<Rightarrow> ([], n\<lparr>n_panic := True\<rparr>)
         | Inr sig \<Rightarrow>
             let env = env @ [(''sig'', GMap [(''key'', GStr (keyID (cfg_Base (n_cfg n)) (n_keyLocalID n))),
                                              (''alg'', GStr ''ed25519''),
                                              (''value'', GStr (b64_encode sig))])]
             in (env, n\<lparr>n_outbox := mput toHost (mgetl (n_outbox n) toHost @ [env]) (n_outbox n)\<rparr>))"

definition errorReply :: "lib \<Rightarrow> obj \<Rightarrow> string \<Rightarrow> string \<Rightarrow> Node \<Rightarrow> obj \<times> Node" where
  "errorReply L env code detail n =
     buildSigned L ''error'' (envStr env ''from'') (envStr env ''id'')
       [(''code'', GStr code), (''detail'', GStr detail)] n"

text \<open>A handler returns at most one reply.\<close>

type_synonym handled = "obj option \<times> Node"

definition reply :: "obj \<times> Node \<Rightarrow> handled" where
  "reply en = (Some (fst en), snd en)"

definition no_reply :: "Node \<Rightarrow> handled" where
  "no_reply n = (None, n)"

text \<open>A ledger transaction of the node: a fresh id, the current time.\<close>

definition append_tx ::
  "lib \<Rightarrow> string \<Rightarrow> string \<Rightarrow> entry list \<Rightarrow> Node \<Rightarrow> (ledger_error + log_record) \<times> Node" where
  "append_tx L typ ref es n =
     (let (tid, n) = draw_id L n in
      case Append (n_led n) \<lparr>tx_ID = tid, tx_Type = typ, tx_Ref = ref, tx_Created = now_text L n, tx_Entries = es\<rparr> of
        Inl e \<Rightarrow> (Inl e, n)
      | Inr (rec, led) \<Rightarrow> (Inr rec, n\<lparr>n_led := led\<rparr>))"

definition mk_entry :: "string \<Rightarrow> i64 \<Rightarrow> entry" where
  "mk_entry a x = \<lparr>e_Account = a, e_Amount = x\<rparr>"

end
