(* ===== verification/LP_Members.thy ===== *)
theory LP_Members
  imports LP_Node
begin

text \<open>
  What happens inside a node (node/node.go, node/members.go, node/pay.go, node/leave.go): its creation and
  genesis grants, membership, payments between members, the dividend, and leaving.
\<close>

section \<open>Membership and the dividend base\<close>

definition valid_name_char :: "char \<Rightarrow> bool" where
  "valid_name_char c \<longleftrightarrow> byte_in c 97 122 \<or> byte_in c 48 57 \<or> c = CHR ''_''"

definition validMemberName :: "string \<Rightarrow> node_error option" where
  "validMemberName name =
     (if length name < 1 \<or> 32 < length name then Some (NameLength name)
      else if \<exists>c \<in> set name. \<not> valid_name_char c then Some (NameChars name)
      else None)"

definition udWeightTotal :: "Node \<Rightarrow> i64" where
  "udWeightTotal n = foldl (\<lambda>t m. if m_Active m then t + m_Weight m else t) 0 (map snd (n_members n))"

definition activeCountLocked :: "Node \<Rightarrow> i64" where
  "activeCountLocked n = foldl (\<lambda>c m. if m_Active m then c + 1 else c) 0 (map snd (n_members n))"

definition computeUDBase :: "Node \<Rightarrow> i64" where
  "computeUDBase n =
     (let wt = udWeightTotal n in
      if wt = 0 then 0
      else case UDBase (MoneySupply (n_led n)) (cfg_CPeriodPpm (n_cfg n)) wt of
          Inl e \<Rightarrow> 0
        | Inr base \<Rightarrow> if sint base < sint (cfg_GenesisUD (n_cfg n)) then cfg_GenesisUD (n_cfg n) else base)"

definition sortedMemberNames :: "Node \<Rightarrow> string list" where
  "sortedMemberNames n = sorted_keys (n_members n)"

definition new_member :: "string \<Rightarrow> string \<Rightarrow> Member" where
  "new_member name display = \<lparr>m_Name = name, m_DisplayName = display, m_Weight = 1000000, m_Active = True\<rparr>"

definition AddMember :: "lib \<Rightarrow> string \<Rightarrow> string \<Rightarrow> i64 \<Rightarrow> Node \<Rightarrow> (node_error + unit) \<times> Node" where
  "AddMember L name displayName grant n =
     (case validMemberName name of
        Some e \<Rightarrow> (Inl e, n)
      | None \<Rightarrow>
          if map_of (n_members n) name \<noteq> None then (Inl (MemberExists name), n)
          else
            let n = n\<lparr>n_members := mput name (new_member name displayName) (n_members n)\<rparr>;
                (err, n) =
                  (if 0 < sint grant then
                     case append_tx L ''issuance.grant'' []
                            [mk_entry (MemberPrefix @ name) grant, mk_entry AcctIssuance (- grant)] n of
                       (Inl e, n) \<Rightarrow> (Some (LedgerError e), n\<lparr>n_members := mdel name (n_members n)\<rparr>)
                     | (Inr _, n) \<Rightarrow> (None, n)
                   else (None, n))
            in case err of
                 Some e \<Rightarrow> (Inl e, n)
               | None \<Rightarrow> persistLocked (n\<lparr>n_currentUD := computeUDBase n\<rparr>))"

definition DeactivateMember :: "string \<Rightarrow> Node \<Rightarrow> (node_error + unit) \<times> Node" where
  "DeactivateMember name n =
     (case map_of (n_members n) name of
        None \<Rightarrow> (Inl (NoMember name), n)
      | Some m \<Rightarrow>
          let n = n\<lparr>n_members := mput name (m\<lparr>m_Active := False\<rparr>) (n_members n)\<rparr>
          in persistLocked (n\<lparr>n_currentUD := computeUDBase n\<rparr>))"

definition MemberActive :: "string \<Rightarrow> Node \<Rightarrow> bool" where
  "MemberActive name n = (case map_of (n_members n) name of None \<Rightarrow> False | Some m \<Rightarrow> m_Active m)"

definition Reactivate :: "string \<Rightarrow> Node \<Rightarrow> (node_error + unit) \<times> Node" where
  "Reactivate name n =
     (case map_of (n_members n) name of
        None \<Rightarrow> (Inl (NoMember name), n)
      | Some m \<Rightarrow>
          if m_Active m then (Inl (AlreadyActive name), n)
          else
            let n = n\<lparr>n_members := mput name (m\<lparr>m_Active := True\<rparr>) (n_members n)\<rparr>
            in persistLocked (n\<lparr>n_currentUD := computeUDBase n\<rparr>))"

definition MemberKnown :: "string \<Rightarrow> Node \<Rightarrow> bool" where
  "MemberKnown name n \<longleftrightarrow> map_of (n_members n) name \<noteq> None"

section \<open>Creating a node\<close>

definition grant_member :: "lib \<Rightarrow> MemberConfig \<Rightarrow> Node \<Rightarrow> node_error + Node" where
  "grant_member L mc n =
     (case validMemberName (mc_Name mc) of
        Some e \<Rightarrow> Inl e
      | None \<Rightarrow>
          let n = n\<lparr>n_members := mput (mc_Name mc) (new_member (mc_Name mc) (mc_DisplayName mc)) (n_members n)\<rparr>
          in if 0 < sint (mc_Grant mc) then
               case append_tx L ''issuance.grant'' []
                      [mk_entry (MemberPrefix @ mc_Name mc) (mc_Grant mc), mk_entry AcctIssuance (- mc_Grant mc)] n of
                 (Inl e, _) \<Rightarrow> Inl (LedgerError e)
               | (Inr _, n) \<Rightarrow> Inr n
             else Inr n)"

fun grant_members :: "lib \<Rightarrow> MemberConfig list \<Rightarrow> Node \<Rightarrow> node_error + Node" where
  "grant_members L [] n = Inr n"
| "grant_members L (mc # mcs) n =
     (case grant_member L mc n of Inl e \<Rightarrow> Inl e | Inr n \<Rightarrow> grant_members L mcs n)"

definition empty_node :: "Config \<Rightarrow> bytes \<Rightarrow> int \<Rightarrow> nat \<Rightarrow> Node" where
  "empty_node cfg priv t i =
     \<lparr>n_cfg = cfg, n_priv = priv, n_pub = Public priv, n_keyLocalID = ''#nk1'', n_ownKeys = [], n_created = [],
      n_clock = t, n_led = New, n_members = [], n_cells = [], n_contacts = [], n_contactByHost = [],
      n_transfers = [], n_outSeq = [], n_inState = [], n_peerKeys = [], n_outbox = [], n_pushed = [],
      n_currentUD = 0, n_store = None, n_rand = i, n_panic = False\<rparr>"

text \<open>\<open>NewNode\<close> at time \<open>t\<close>, when \<open>i\<close> random reads have been made; without a configured key it draws a seed.\<close>

definition NewNode :: "lib \<Rightarrow> Config \<Rightarrow> int \<Rightarrow> nat \<Rightarrow> node_error + Node" where
  "NewNode L cfg t i =
     (if cfg_Base cfg = [] then Inl BaseRequired
      else
        let cfg = (if cfg_Transparency cfg = [] then cfg\<lparr>cfg_Transparency := ''pseudonymous''\<rparr> else cfg);
            (priv, i) = (case cfg_PrivKey cfg of
                           Some p \<Rightarrow> (p, i)
                         | None \<Rightarrow> (NewKeyFromSeed L (rand_read L i 32), Suc i));
            n = empty_node cfg priv t i;
            n = n\<lparr>n_created := now_text L n\<rparr>;
            n = n\<lparr>n_ownKeys := [\<lparr>k_LocalID = n_keyLocalID n, k_Seed = b64 (Seed priv), k_Created = n_created n,
                                 k_Revoked = [], k_priv = priv, k_pub = n_pub n\<rparr>]\<rparr>;
            n = n\<lparr>n_peerKeys := mput (keyID (cfg_Base cfg) (n_keyLocalID n)) (n_pub n) (n_peerKeys n)\<rparr>
        in case grant_members L (cfg_Members cfg) n of
             Inl e \<Rightarrow> Inl e
           | Inr n \<Rightarrow> Inr (n\<lparr>n_currentUD := computeUDBase n\<rparr>))"

section \<open>Payments and leaving\<close>

fun first_inactive :: "Node \<Rightarrow> string list \<Rightarrow> string option" where
  "first_inactive n [] = None"
| "first_inactive n (x # xs) = (if MemberActive x n then first_inactive n xs else Some x)"

text \<open>\<open>Pay\<close> returns its record together with the outcome of persisting.\<close>

definition Pay :: "lib \<Rightarrow> string \<Rightarrow> string \<Rightarrow> i64 \<Rightarrow> Node \<Rightarrow> (node_error + log_record \<times> node_error option) \<times> Node" where
  "Pay L from' to amount n =
     (if sint amount \<le> 0 then (Inl (AmountNotPositive amount), n)
      else if from' = to then (Inl PayYourself, n)
      else case first_inactive n [from', to] of
          Some name \<Rightarrow> (Inl (NoActiveMember name), n)
        | None \<Rightarrow>
            if sint (Balance (n_led n) (MemberPrefix @ from')) < sint amount then (Inl ErrInsufficient, n)
            else case append_tx L ''payment'' []
                        [mk_entry (MemberPrefix @ from') (- amount), mk_entry (MemberPrefix @ to) amount] n of
                (Inl e, n) \<Rightarrow> (Inl (LedgerError e), n)
              | (Inr rec, n) \<Rightarrow>
                  (case persistLocked n of
                     (Inl e, n) \<Rightarrow> (Inr (rec, Some e), n)
                   | (Inr _, n) \<Rightarrow> (Inr (rec, None), n)))"

definition FundRedistribute :: string where
  "FundRedistribute = FundPrefix @ ''redistribute''"

text \<open>What \<open>Leave\<close> does with the balance: the destination account (empty for none) and the transaction type.\<close>

definition leave_target :: "Node \<Rightarrow> string \<Rightarrow> string \<Rightarrow> string \<Rightarrow> node_error + string \<times> string" where
  "leave_target n mem mode to =
     (if mode = ''destroy'' then Inr (AcctIssuance, ''issuance.burn'')
      else if mode = ''redistribute'' then Inr (FundRedistribute, ''payment'')
      else if mode = ''give'' then
        (if \<not> MemberActive to n \<or> to = mem then Inl (GiveNoMember to) else Inr (MemberPrefix @ to, ''payment''))
      else if mode = ''keep'' then Inr ([], ''payment'')
      else Inl (UnknownLeaveMode mode))"

definition Leave :: "lib \<Rightarrow> string \<Rightarrow> string \<Rightarrow> string \<Rightarrow> Node \<Rightarrow> (node_error + unit) \<times> Node" where
  "Leave L mem mode to n =
     (case map_of (n_members n) mem of
        None \<Rightarrow> (Inl (NoActiveMember mem), n)
      | Some m \<Rightarrow>
          if \<not> m_Active m then (Inl (NoActiveMember mem), n)
          else
            let acct = MemberPrefix @ mem;
                bal = Balance (n_led n) acct
            in case leave_target n mem mode to of
                 Inl e \<Rightarrow> (Inl e, n)
               | Inr (dst, typ) \<Rightarrow>
                   let (err, n) =
                         (if dst \<noteq> [] \<and> 0 < sint bal then
                            case append_tx L typ [] [mk_entry acct (- bal), mk_entry dst bal] n of
                              (Inl e, n) \<Rightarrow> (Some (LedgerError e), n)
                            | (Inr _, n) \<Rightarrow> (None, n)
                          else (None, n))
                   in case err of
                        Some e \<Rightarrow> (Inl e, n)
                      | None \<Rightarrow>
                          let n = n\<lparr>n_members := mput mem (m\<lparr>m_Active := False\<rparr>) (n_members n)\<rparr>
                          in persistLocked (n\<lparr>n_currentUD := computeUDBase n\<rparr>))"

section \<open>The dividend\<close>

definition active_names :: "Node \<Rightarrow> string list" where
  "active_names n = filter (\<lambda>name. MemberActive name n) (sortedMemberNames n)"

text \<open>\<open>redistributeLocked\<close>: Go's \<open>/\<close> on \<open>int64\<close>, here between positive numbers.\<close>

definition redistributeLocked :: "lib \<Rightarrow> Node \<Rightarrow> (node_error + unit) \<times> Node" where
  "redistributeLocked L n =
     (let bal = Balance (n_led n) FundRedistribute in
      if sint bal \<le> 0 then (Inr (), n)
      else
        let active = active_names n in
        if active = [] then (Inr (), n)
        else
          let k = of_nat (length active) :: i64;
              share = of_int (sint bal sdiv sint k) :: i64
          in if sint share \<le> 0 then (Inr (), n)
             else case append_tx L ''fund.redistribute'' []
                         (mk_entry FundRedistribute (- share * k) #
                          map (\<lambda>name. mk_entry (MemberPrefix @ name) share) active) n of
                 (Inl e, n) \<Rightarrow> (Inl (LedgerError e), n)
               | (Inr _, n) \<Rightarrow> (Inr (), n))"

text \<open>The dividend of one member: nothing for an inactive one or where it rounds to zero.\<close>

definition ud_amount :: "Node \<Rightarrow> i64 \<Rightarrow> string \<Rightarrow> i64" where
  "ud_amount n udBase name =
     (case map_of (n_members n) name of
        None \<Rightarrow> 0
      | Some m \<Rightarrow> if m_Active m then RecipientUD udBase (m_Weight m) else 0)"

definition ud_entries :: "Node \<Rightarrow> i64 \<Rightarrow> entry list" where
  "ud_entries n udBase =
     map (\<lambda>name. mk_entry (MemberPrefix @ name) (ud_amount n udBase name))
       (filter (\<lambda>name. 0 < sint (ud_amount n udBase name)) (sortedMemberNames n))"

fun ud_each :: "lib \<Rightarrow> i64 \<Rightarrow> string list \<Rightarrow> Node \<Rightarrow> (node_error + unit) \<times> Node" where
  "ud_each L udBase [] n = (Inr (), n)"
| "ud_each L udBase (name # names) n =
     (let amt = ud_amount n udBase name in
      if sint amt \<le> 0 then ud_each L udBase names n
      else case append_tx L ''issuance.ud'' [] [mk_entry (MemberPrefix @ name) amt, mk_entry AcctIssuance (- amt)] n of
          (Inl e, n) \<Rightarrow> (Inl (LedgerError e), n)
        | (Inr _, n) \<Rightarrow> ud_each L udBase names n)"

definition ud_batch :: "lib \<Rightarrow> i64 \<Rightarrow> Node \<Rightarrow> (node_error + unit) \<times> Node" where
  "ud_batch L udBase n =
     (let es = ud_entries n udBase;
          amount = sum_entries es
      in if 0 < sint amount then
           case append_tx L ''issuance.ud'' [] (es @ [mk_entry AcctIssuance (- amount)]) n of
             (Inl e, n) \<Rightarrow> (Inl (LedgerError e), n)
           | (Inr _, n) \<Rightarrow> (Inr (), n)
         else (Inr (), n))"

definition RunUD :: "lib \<Rightarrow> Node \<Rightarrow> (node_error + i64) \<times> Node" where
  "RunUD L n =
     (let udBase = computeUDBase n in
      if sint udBase \<le> 0 then (Inr 0, n)
      else case (if cfg_BatchUD (n_cfg n) then ud_batch L udBase n
                 else ud_each L udBase (sortedMemberNames n) n) of
          (Inl e, n) \<Rightarrow> (Inl e, n)
        | (Inr _, n) \<Rightarrow>
            (case redistributeLocked L n of
               (Inl e, n) \<Rightarrow> (Inl e, n)
             | (Inr _, n) \<Rightarrow>
                 let n = n\<lparr>n_currentUD := computeUDBase n\<rparr> in (Inr udBase, snd (persistLocked n))))"

end
