(* ===== verification/LP_Contact.thy ===== *)
theory LP_Contact
  imports LP_Members
begin

text \<open>
  Contacts (node/contact.go): the pool that two nodes keep of each other, the operations that fold into its
  channel root, and opening, accepting, closing and retiring a contact. Also the transfer expiry of
  node/expiry.go, which the operations on a busy contact run first.
\<close>

section \<open>Methods of a contact\<close>

definition channelRootB64 :: "Contact \<Rightarrow> string" where
  "channelRootB64 c = b64_encode (c_ChannelRoot c)"

text \<open>\<open>recordRoot\<close>: the list grows up to \<open>OpSeq\<close>, whose slot is then written.\<close>

definition recordRoot :: "Contact \<Rightarrow> Contact" where
  "recordRoot c =
     (let k = nat (sint (c_OpSeq c));
          roots = c_Roots c @ replicate (nat (sint (c_OpSeq c) + 1) - length (c_Roots c)) []
      in c\<lparr>c_Roots := roots[k := channelRootB64 c]\<rparr>)"

definition applySeed :: "Contact \<Rightarrow> canon_error + Contact" where
  "applySeed c =
     (case ChannelNext (ChannelRoot0 (c_ID c)) ''seed'' (c_ID c) (c_ProposerSeed c) (c_ResponderSeed c) of
        Inl e \<Rightarrow> Inl e
      | Inr next \<Rightarrow> Inr (recordRoot (c\<lparr>c_ChannelRoot := next, c_OpSeq := 0\<rparr>)))"

definition applyTransfer :: "string \<Rightarrow> i64 \<Rightarrow> i64 \<Rightarrow> Contact \<Rightarrow> canon_error + Contact" where
  "applyTransfer transferID src dst c =
     (case ChannelNext (c_ChannelRoot c) ''transfer'' transferID src dst of
        Inl e \<Rightarrow> Inl e
      | Inr next \<Rightarrow> Inr (recordRoot (c\<lparr>c_ChannelRoot := next, c_OpSeq := c_OpSeq c + 1\<rparr>)))"

definition applyAdjust :: "string \<Rightarrow> i64 \<Rightarrow> Contact \<Rightarrow> canon_error + Contact" where
  "applyAdjust adjustID delta c =
     (case ChannelNext (c_ChannelRoot c) ''adjust'' adjustID delta 0 of
        Inl e \<Rightarrow> Inl e
      | Inr next \<Rightarrow> Inr (recordRoot (c\<lparr>c_ChannelRoot := next, c_OpSeq := c_OpSeq c + 1\<rparr>)))"

definition priceOutgoing :: "Contact \<Rightarrow> i64 \<Rightarrow> price_error + i64" where
  "priceOutgoing c src = PoolPrice (c_MyReserveOfPeer c) (c_PeerReserveOfMe c) src"

definition priceIncoming :: "Contact \<Rightarrow> i64 \<Rightarrow> price_error + i64" where
  "priceIncoming c src = PoolPrice (c_PeerReserveOfMe c) (c_MyReserveOfPeer c) src"

definition unlock :: "Contact \<Rightarrow> Contact" where
  "unlock c = c\<lparr>c_Busy := False, c_BusyTransfer := []\<rparr>"

section \<open>Opening a contact\<close>

definition empty_contact :: "string \<Rightarrow> string \<Rightarrow> string \<Rightarrow> bool \<Rightarrow> i64 \<Rightarrow> i64 \<Rightarrow> Contact" where
  "empty_contact cid base h prop pseed rseed =
     \<lparr>c_ID = cid, c_PeerBase = base, c_PeerHost = h, c_IAmProposer = prop, c_Active = False, c_Closed = False,
      c_ProposerSeed = pseed, c_ResponderSeed = rseed, c_MyReserveOfPeer = 0, c_PeerReserveOfMe = 0,
      c_OpSeq = 0, c_ChannelRoot = replicate 32 (CHR 0x00), c_Roots = [], c_Busy = False, c_BusyTransfer = [],
      c_PendingAdjustID = [], c_PendingAdjustDelta = 0, c_AppliedAdjusts = [], c_Diverged = False\<rparr>"

text \<open>The two map writes \<open>n.contacts[id] = c\<close> and \<open>n.contactByHost[h] = c\<close> of one pointer.\<close>

definition link_contact :: "string \<Rightarrow> string \<Rightarrow> cref \<Rightarrow> Node \<Rightarrow> Node" where
  "link_contact cid h r n =
     n\<lparr>n_contacts := mput cid r (n_contacts n), n_contactByHost := mput h r (n_contactByHost n)\<rparr>"

definition OpenContact :: "lib \<Rightarrow> string \<Rightarrow> i64 \<Rightarrow> string \<Rightarrow> Node \<Rightarrow> (node_error + string) \<times> Node" where
  "OpenContact L peerBase mySeed note n =
     (if sint mySeed \<le> 0 then (Inl SeedNotPositive, n)
      else
        let peerHost = host L peerBase in
        if host_ref n peerHost \<noteq> None then (Inl (ContactExists peerHost), n)
        else
          let (cid, n) = draw_id L n;
              (r, n) = new_cell (empty_contact cid peerBase peerHost True mySeed 0) n;
              n = link_contact cid peerHost r n;
              (_, n) = buildSigned L ''contact.propose'' peerBase []
                         [(''contact_id'', GStr cid), (''my_seed'', GInt mySeed), (''note'', GStr note)] n
          in (Inr cid, snd (persistLocked n)))"

definition seedLedger :: "lib \<Rightarrow> string \<Rightarrow> i64 \<Rightarrow> Node \<Rightarrow> (ledger_error + log_record) \<times> Node" where
  "seedLedger L peerHost amount n =
     append_tx L ''contact.seed'' [] [mk_entry (NodeWalletPrefix @ peerHost) amount, mk_entry AcctIssuance (- amount)] n"

definition handleContactPropose :: "lib \<Rightarrow> obj \<Rightarrow> Node \<Rightarrow> handled" where
  "handleContactPropose L env n =
     (case payloadOf env of (p, ok) \<Rightarrow>
      if \<not> ok then reply (errorReply L env ''malformed'' ''missing payload'' n)
      else
        let responderSeed = cfg_AutoAcceptSeed (n_cfg n) in
        if sint responderSeed \<le> 0 then reply (errorReply L env ''refused'' ''node does not auto-accept contacts'' n)
        else
          let cid = pStr p ''contact_id'';
              fromBase = envStr env ''from'';
              fromHost = host L fromBase;
              (proposerSeed, ok) = pInt p ''my_seed''
          in if \<not> ok \<or> sint proposerSeed \<le> 0 then reply (errorReply L env ''malformed'' ''invalid my_seed'' n)
             else if host_ref n fromHost \<noteq> None
             then reply (errorReply L env ''duplicate-contact'' (''already have a contact with '' @ fromHost) n)
             else
               let c = empty_contact cid fromBase fromHost False proposerSeed responderSeed in
               case seedLedger L fromHost responderSeed n of
                 (Inl e, n) \<Rightarrow> reply (errorReply L env ''internal'' (append_error_text e) n)
               | (Inr _, n) \<Rightarrow>
                   (let c = c\<lparr>c_MyReserveOfPeer := responderSeed, c_PeerReserveOfMe := proposerSeed\<rparr> in
                    case applySeed c of
                      Inl e \<Rightarrow> reply (errorReply L env ''internal'' (canon_error_text e) n)
                    | Inr c \<Rightarrow>
                        let (r, n) = new_cell (c\<lparr>c_Active := True\<rparr>) n;
                            n = link_contact cid fromHost r n
                        in reply (buildSigned L ''contact.accept'' fromBase (envStr env ''id'')
                                    [(''contact_id'', GStr cid), (''my_seed'', GInt responderSeed)] n)))"

text \<open>
  The proposer's side. The struct is changed in place step by step, so an error on the way leaves the
  changes made so far.
\<close>

definition handleContactAccept :: "lib \<Rightarrow> obj \<Rightarrow> Node \<Rightarrow> handled" where
  "handleContactAccept L env n =
     (case payloadOf env of (p, ok) \<Rightarrow>
      if \<not> ok then reply (errorReply L env ''malformed'' ''missing payload'' n)
      else
        let unknown = reply (errorReply L env ''unknown-contact'' ''no matching pending contact'' n) in
        case contact_ref n (pStr p ''contact_id'') of
          None \<Rightarrow> unknown
        | Some r \<Rightarrow>
            let c = cell n r in
            if \<not> c_IAmProposer c then unknown
            else if c_PeerHost c \<noteq> host L (envStr env ''from'')
            then reply (errorReply L env ''wrong-sender'' ''contact does not belong to sender'' n)
            else if c_Active c then no_reply n
            else case pInt p ''my_seed'' of (responderSeed, ok) \<Rightarrow>
              if \<not> ok \<or> sint responderSeed \<le> 0 then reply (errorReply L env ''malformed'' ''invalid my_seed'' n)
              else
                let c = c\<lparr>c_ResponderSeed := responderSeed\<rparr>;
                    n = set_cell r c n
                in case seedLedger L (c_PeerHost c) (c_ProposerSeed c) n of
                     (Inl e, n) \<Rightarrow> reply (errorReply L env ''internal'' (append_error_text e) n)
                   | (Inr _, n) \<Rightarrow>
                       (let c = c\<lparr>c_MyReserveOfPeer := c_ProposerSeed c, c_PeerReserveOfMe := c_ResponderSeed c\<rparr>;
                            n = set_cell r c n
                        in case applySeed c of
                             Inl e \<Rightarrow> reply (errorReply L env ''internal'' (canon_error_text e) n)
                           | Inr c \<Rightarrow> no_reply (set_cell r (c\<lparr>c_Active := True\<rparr>) n)))"

section \<open>Closing and retiring\<close>

definition CloseContact :: "lib \<Rightarrow> string \<Rightarrow> string \<Rightarrow> Node \<Rightarrow> (node_error + unit) \<times> Node" where
  "CloseContact L peerBase note n =
     (case host_ref n (host L peerBase) of
        None \<Rightarrow> (Inl (NoContact (host L peerBase)), n)
      | Some r \<Rightarrow>
          let c = (cell n r)\<lparr>c_Closed := True\<rparr>;
              n = set_cell r c n;
              (_, n) = buildSigned L ''contact.close'' (c_PeerBase c) []
                         [(''contact_id'', GStr (c_ID c)), (''note'', GStr note)] n
          in (Inr (), snd (persistLocked n)))"

definition handleContactClose :: "lib \<Rightarrow> obj \<Rightarrow> Node \<Rightarrow> handled" where
  "handleContactClose L env n =
     (case host_ref n (host L (envStr env ''from'')) of
        None \<Rightarrow> no_reply n
      | Some r \<Rightarrow> no_reply (set_cell r ((cell n r)\<lparr>c_Closed := True\<rparr>) n))"

definition handleContactUpdate :: "lib \<Rightarrow> obj \<Rightarrow> Node \<Rightarrow> handled" where
  "handleContactUpdate L env n =
     (case host_ref n (host L (envStr env ''from'')) of
        None \<Rightarrow> reply (errorReply L env ''unknown-contact'' ''no contact'' n)
      | Some _ \<Rightarrow> no_reply n)"

definition RetireReserve :: "lib \<Rightarrow> string \<Rightarrow> Node \<Rightarrow> (node_error + i64 \<times> node_error option) \<times> Node" where
  "RetireReserve L peerBase n =
     (let h = host L peerBase in
      case host_ref n h of
        None \<Rightarrow> (Inl (NoContact h), n)
      | Some r \<Rightarrow>
          if \<not> c_Closed (cell n r) then (Inl (ContactOpen h), n)
          else
            let acct = NodeWalletPrefix @ h;
                bal = Balance (n_led n) acct
            in if sint bal \<le> 0 then (Inr (0, None), n)
               else case append_tx L ''reserve.retire'' [] [mk_entry acct (- bal), mk_entry AcctIssuance bal] n of
                   (Inl e, n) \<Rightarrow> (Inl (LedgerError e), n)
                 | (Inr _, n) \<Rightarrow>
                     (case persistLocked n of
                        (Inl e, n) \<Rightarrow> (Inr (bal, Some e), n)
                      | (Inr _, n) \<Rightarrow> (Inr (bal, None), n)))"

section \<open>Transfers in the table, and their expiry\<close>

definition set_transfer :: "string \<Rightarrow> Transfer \<Rightarrow> Node \<Rightarrow> Node" where
  "set_transfer tid t n = n\<lparr>n_transfers := mput tid t (n_transfers n)\<rparr>"

text \<open>\<open>if c := n.contacts[id]; c != nil && c.BusyTransfer == tid\<close> then unlock.\<close>

definition release_lock :: "string \<Rightarrow> string \<Rightarrow> Node \<Rightarrow> Node" where
  "release_lock cid tid n =
     (case contact_ref n cid of
        None \<Rightarrow> n
      | Some r \<Rightarrow> if c_BusyTransfer (cell n r) = tid then set_cell r (unlock (cell n r)) n else n)"

definition expireIfDueLocked :: "lib \<Rightarrow> string \<Rightarrow> int \<Rightarrow> Node \<Rightarrow> bool \<times> Node" where
  "expireIfDueLocked L tid now n =
     (case map_of (n_transfers n) tid of
        None \<Rightarrow> (False, n)
      | Some t \<Rightarrow>
          if t_State t \<noteq> ''PROPOSED'' \<and> t_State t \<noteq> ''ACCEPTED'' then (False, n)
          else case parse_time L (t_Expires t) of
              None \<Rightarrow> (False, n)
            | Some exp' \<Rightarrow>
                if \<not> exp' < now then (False, n)
                else case Transition (t_State t) ''expire'' of
                    Inl _ \<Rightarrow> (False, n)
                  | Inr next \<Rightarrow>
                      (True, release_lock (t_ContactID t) (t_ID t) (set_transfer tid (t\<lparr>t_State := next\<rparr>) n)))"

fun sweep :: "lib \<Rightarrow> int \<Rightarrow> string list \<Rightarrow> nat \<Rightarrow> Node \<Rightarrow> nat \<times> Node" where
  "sweep L now [] k n = (k, n)"
| "sweep L now (tid # tids) k n =
     (case expireIfDueLocked L tid now n of (due, n) \<Rightarrow> sweep L now tids (if due then Suc k else k) n)"

definition SweepExpired :: "lib \<Rightarrow> Node \<Rightarrow> nat \<times> Node" where
  "SweepExpired L n =
     (case sweep L (n_clock n) (mkeys (n_transfers n)) 0 n of
        (k, n) \<Rightarrow> (k, if 0 < k then snd (persistLocked n) else n))"

definition releaseIfBusyExpired :: "lib \<Rightarrow> cref \<Rightarrow> Node \<Rightarrow> Node" where
  "releaseIfBusyExpired L r n =
     (let c = cell n r in
      if c_Busy c \<and> c_BusyTransfer c \<noteq> [] then snd (expireIfDueLocked L (c_BusyTransfer c) (n_clock n) n) else n)"

end
