(* ===== verification/LP_Transfer.thy ===== *)
theory LP_Transfer
  imports LP_Contact
begin

text \<open>
  Transfers and reserve adjustments (node/transfer.go, node/reserve.go, and the two small transfer handlers
  of node/handlers.go): what the payer, the payee and the two sides of an adjustment do, guard by guard.
\<close>

section \<open>Helpers\<close>

definition localPart :: "string \<Rightarrow> string" where
  "localPart addr = takeWhile (\<lambda>c. c \<noteq> CHR ''@'') addr"

text \<open>The contact an envelope may act on: the one that the object names, if the sender is its peer.\<close>

definition senderContact :: "lib \<Rightarrow> obj \<Rightarrow> string \<Rightarrow> Node \<Rightarrow> cref option" where
  "senderContact L env contactID n =
     (case contact_ref n contactID of
        None \<Rightarrow> None
      | Some r \<Rightarrow> if c_PeerHost (cell n r) \<noteq> host L (envStr env ''from'') then None else Some r)"

definition rejectTransfer :: "lib \<Rightarrow> obj \<Rightarrow> string \<Rightarrow> string \<Rightarrow> string \<Rightarrow> Node \<Rightarrow> obj \<times> Node" where
  "rejectTransfer L env transferID code detail n =
     buildSigned L ''transfer.reject'' (envStr env ''from'') (envStr env ''id'')
       [(''transfer_id'', GStr transferID), (''code'', GStr code), (''detail'', GStr detail)] n"

fun price_error_text :: "price_error \<Rightarrow> string" where
  "price_error_text ErrNonPositive = ''amount must be positive''"
| "price_error_text ErrEmptyPool = ''empty-pool: both reserves must be positive''"
| "price_error_text ErrDust = ''dust: computed dst_amount is 0''"

text \<open>\<open>next, _ := Transition(...)\<close>: on an error Go keeps the empty string.\<close>

definition Transition_or_empty :: "string \<Rightarrow> string \<Rightarrow> string" where
  "Transition_or_empty s e = (case Transition s e of Inl _ \<Rightarrow> [] | Inr s' \<Rightarrow> s')"

definition contact_frozen_text :: string where
  "contact_frozen_text = ''contact frozen: checkpoint divergence ('' @ [CHR 0xC2, CHR 0xA7] @ ''8.3)''"

definition entry_proof_of :: "obj \<Rightarrow> entryProof option \<Rightarrow> entryProof option" where
  "entry_proof_of p old =
     (case obj_get p ''entry'' of
        GMap pe \<Rightarrow> Some \<lparr>ep_LogSeq = fst (pInt pe ''log_seq''), ep_LogHash = pStr pe ''log_hash''\<rparr>
      | _ \<Rightarrow> old)"

definition entry_payload :: "string \<Rightarrow> log_record \<Rightarrow> obj" where
  "entry_payload tid rec =
     [(''transfer_id'', GStr tid),
      (''entry'', GMap [(''log_seq'', GInt (r_Seq rec)), (''log_hash'', GStr (r_Hash rec))])]"

section \<open>The payer starts a transfer\<close>

definition usable_member :: "Node \<Rightarrow> string \<Rightarrow> Member option" where
  "usable_member n addr =
     (case map_of (n_members n) (localPart addr) of
        None \<Rightarrow> None
      | Some m \<Rightarrow> if m_Active m then Some m else None)"

definition StartTransfer ::
  "lib \<Rightarrow> string \<Rightarrow> string \<Rightarrow> string \<Rightarrow> i64 \<Rightarrow> string \<Rightarrow> Node \<Rightarrow> (node_error + string) \<times> Node" where
  "StartTransfer L peerBase fromMember toMember src note n =
     (let peerHost = host L peerBase in
      case host_ref n peerHost of
        None \<Rightarrow> (Inl (NoActiveContact peerHost), n)
      | Some r \<Rightarrow>
          if \<not> c_Active (cell n r) \<or> c_Closed (cell n r) then (Inl (NoActiveContact peerHost), n)
          else if c_Diverged (cell n r) then (Inl ContactFrozen, n)
          else
            let n = releaseIfBusyExpired L r n;
                c = cell n r
            in if c_Busy c then (Inl (ContactBusy (c_BusyTransfer c)), n)
               else if sint src \<le> 0 then (Inl SrcNotPositive, n)
               else case usable_member n fromMember of
                   None \<Rightarrow> (Inl (UnknownLocalMember fromMember), n)
                 | Some fm \<Rightarrow>
                     let bal = Balance (n_led n) (MemberPrefix @ m_Name fm) in
                     if sint bal < sint src then (Inl (BalanceTooLow (m_Name fm) bal src), n)
                     else case priceOutgoing c src of
                         Inl e \<Rightarrow> (Inl (Pricing e), n)
                       | Inr dst \<Rightarrow>
                           let (tid, n) = draw_id L n;
                               t = \<lparr>t_ID = tid, t_ContactID = c_ID c, t_Outgoing = True,
                                    t_State = Transition_or_empty ''NONE'' ''propose'', t_OpSeq = c_OpSeq c,
                                    t_FromMember = fromMember, t_ToMember = toMember, t_SrcAmount = src,
                                    t_DstAmount = dst, t_Expires = fmt_time L (n_clock n + 3600000000000),
                                    t_MyEntry = None, t_PeerEntry = None, t_Receipt = None\<rparr>;
                               n = set_transfer tid t n;
                               n = set_cell r (c\<lparr>c_Busy := True, c_BusyTransfer := tid\<rparr>) n;
                               (_, n) = buildSigned L ''transfer.propose'' peerBase []
                                 [(''transfer_id'', GStr tid), (''contact_id'', GStr (c_ID c)),
                                  (''op_seq'', GInt (c_OpSeq c)), (''from_member'', GStr fromMember),
                                  (''to_member'', GStr toMember), (''src_amount'', GInt src),
                                  (''dst_amount'', GInt dst), (''note'', GStr note),
                                  (''expires'', GStr (t_Expires t))] n
                           in (Inr tid, snd (persistLocked n)))"

section \<open>The payee answers a proposal\<close>

definition handleTransferPropose :: "lib \<Rightarrow> obj \<Rightarrow> Node \<Rightarrow> handled" where
  "handleTransferPropose L env n =
     (case payloadOf env of (p, ok) \<Rightarrow>
      if \<not> ok then reply (errorReply L env ''malformed'' ''missing payload'' n)
      else
        let tid = pStr p ''transfer_id'' in
        if tid = [] then reply (errorReply L env ''malformed'' ''missing transfer_id'' n)
        else
          let none = reply (rejectTransfer L env tid ''unknown-contact'' ''no active contact'' n) in
          case host_ref n (host L (envStr env ''from'')) of
            None \<Rightarrow> none
          | Some r \<Rightarrow>
              if \<not> c_Active (cell n r) \<or> c_Closed (cell n r) then none
              else if c_Diverged (cell n r) then reply (rejectTransfer L env tid ''frozen'' contact_frozen_text n)
              else
                let n = releaseIfBusyExpired L r n;
                    c = cell n r;
                    reject = (\<lambda>code detail. reply (rejectTransfer L env tid code detail n))
                in if c_Busy c then reject ''busy'' ''contact has an operation in flight''
                   else
                     let opSeq = fst (pInt p ''op_seq'') in
                     if opSeq \<noteq> c_OpSeq c
                     then reject ''stale-pool'' (''op_seq '' @ dec64 opSeq @ '' != current '' @ dec64 (c_OpSeq c))
                     else if usable_member n (pStr p ''to_member'') = None
                     then reject ''unknown-member'' ''to_member not found''
                     else case (pInt p ''src_amount'', pInt p ''dst_amount'') of ((src, ok1), (dst, ok2)) \<Rightarrow>
                       if \<not> ok1 \<or> \<not> ok2 \<or> sint src \<le> 0 then reject ''malformed'' ''invalid amounts''
                       else case priceIncoming c src of
                           Inl e \<Rightarrow> reject ''dust'' (price_error_text e)
                         | Inr wantDst \<Rightarrow>
                             if wantDst \<noteq> dst
                             then reject ''price-mismatch'' (''our price '' @ dec64 wantDst @ '' != proposed '' @ dec64 dst)
                             else
                               let st = Transition_or_empty (Transition_or_empty ''NONE'' ''propose'') ''accept'';
                                   n = set_transfer tid
                                     \<lparr>t_ID = tid, t_ContactID = c_ID c, t_Outgoing = False, t_State = st, t_OpSeq = opSeq,
                                      t_FromMember = pStr p ''from_member'', t_ToMember = pStr p ''to_member'',
                                      t_SrcAmount = src, t_DstAmount = dst, t_Expires = pStr p ''expires'',
                                      t_MyEntry = None, t_PeerEntry = None, t_Receipt = None\<rparr> n;
                                   n = set_cell r (c\<lparr>c_Busy := True, c_BusyTransfer := tid\<rparr>) n
                               in reply (buildSigned L ''transfer.accept'' (c_PeerBase c) (envStr env ''id'')
                                           [(''transfer_id'', GStr tid)] n))"

section \<open>The payer commits\<close>

definition handleTransferAccept :: "lib \<Rightarrow> obj \<Rightarrow> Node \<Rightarrow> handled" where
  "handleTransferAccept L env n =
     (let tid = pStr (fst (payloadOf env)) ''transfer_id'';
          unknown = reply (errorReply L env ''unknown-transfer'' ''no matching outgoing transfer'' n)
      in case map_of (n_transfers n) tid of
           None \<Rightarrow> unknown
         | Some t \<Rightarrow>
             if \<not> t_Outgoing t then unknown
             else case senderContact L env (t_ContactID t) n of
                 None \<Rightarrow> reply (errorReply L env ''wrong-sender'' ''transfer does not belong to sender'' n)
               | Some r \<Rightarrow>
                   if t_State t = ''COMMITTED'' \<or> t_State t = ''SETTLED'' then no_reply n
                   else case expireIfDueLocked L tid (n_clock n) n of
                       (True, n) \<Rightarrow>
                         reply (buildSigned L ''transfer.abort'' (c_PeerBase (cell n r)) (envStr env ''id'')
                                  [(''transfer_id'', GStr (t_ID t))] n)
                     | (False, n) \<Rightarrow>
                         (case Transition (t_State t) ''accept'' of
                            Inl e \<Rightarrow> reply (errorReply L env ''bad-state'' e n)
                          | Inr next \<Rightarrow>
                              let t = t\<lparr>t_State := next\<rparr>;
                                  n = set_transfer tid t n;
                                  c = cell n r
                              in case append_tx L ''transfer.out'' (t_ID t)
                                        [mk_entry (MemberPrefix @ localPart (t_FromMember t)) (- t_SrcAmount t),
                                         mk_entry (NodeWalletPrefix @ c_PeerHost c) (t_SrcAmount t)] n of
                                   (Inl e, n) \<Rightarrow> reply (errorReply L env ''internal'' (append_error_text e) n)
                                 | (Inr rec, n) \<Rightarrow>
                                     (let c = c\<lparr>c_MyReserveOfPeer := c_MyReserveOfPeer c + t_SrcAmount t,
                                                c_PeerReserveOfMe := c_PeerReserveOfMe c - t_DstAmount t\<rparr>;
                                          n = set_cell r c n
                                      in case applyTransfer (t_ID t) (t_SrcAmount t) (t_DstAmount t) c of
                                           Inl e \<Rightarrow> reply (errorReply L env ''internal'' (canon_error_text e) n)
                                         | Inr c \<Rightarrow>
                                             let n = set_cell r c n;
                                                 t = t\<lparr>t_MyEntry := Some \<lparr>ep_LogSeq = r_Seq rec, ep_LogHash = r_Hash rec\<rparr>,
                                                       t_State := Transition_or_empty (t_State t) ''commit''\<rparr>;
                                                 n = set_transfer tid t n
                                             in reply (buildSigned L ''transfer.commit'' (c_PeerBase c) (envStr env ''id'')
                                                         (entry_payload (t_ID t) rec) n))))"

section \<open>The payee applies a commit\<close>

definition handleTransferCommit :: "lib \<Rightarrow> obj \<Rightarrow> Node \<Rightarrow> handled" where
  "handleTransferCommit L env n =
     (let p = fst (payloadOf env);
          tid = pStr p ''transfer_id'';
          unknown = reply (errorReply L env ''unknown-transfer'' ''no matching incoming transfer'' n)
      in case map_of (n_transfers n) tid of
           None \<Rightarrow> unknown
         | Some t \<Rightarrow>
             if t_Outgoing t then unknown
             else case senderContact L env (t_ContactID t) n of
                 None \<Rightarrow> reply (errorReply L env ''wrong-sender'' ''transfer does not belong to sender'' n)
               | Some r \<Rightarrow>
                   if t_State t = ''SETTLED'' \<or> t_State t = ''COMMITTED'' then (t_Receipt t, n)
                   else case Transition (t_State t) ''commit'' of
                       Inl e \<Rightarrow> reply (errorReply L env ''bad-state'' e n)
                     | Inr next \<Rightarrow>
                         let t = t\<lparr>t_State := next, t_PeerEntry := entry_proof_of p (t_PeerEntry t)\<rparr>;
                             n = set_transfer tid t n;
                             c = cell n r
                         in case append_tx L ''transfer.in'' (t_ID t)
                                   [mk_entry (NodeWalletPrefix @ c_PeerHost c) (- t_DstAmount t),
                                    mk_entry (MemberPrefix @ localPart (t_ToMember t)) (t_DstAmount t)] n of
                              (Inl e, n) \<Rightarrow> reply (errorReply L env ''internal'' (append_error_text e) n)
                            | (Inr rec, n) \<Rightarrow>
                                (let c = c\<lparr>c_PeerReserveOfMe := c_PeerReserveOfMe c + t_SrcAmount t,
                                           c_MyReserveOfPeer := c_MyReserveOfPeer c - t_DstAmount t\<rparr>;
                                     n = set_cell r c n
                                 in case applyTransfer (t_ID t) (t_SrcAmount t) (t_DstAmount t) c of
                                      Inl e \<Rightarrow> reply (errorReply L env ''internal'' (canon_error_text e) n)
                                    | Inr c \<Rightarrow>
                                        let t = t\<lparr>t_MyEntry := Some \<lparr>ep_LogSeq = r_Seq rec, ep_LogHash = r_Hash rec\<rparr>,
                                                  t_State := Transition_or_empty (t_State t) ''receipt''\<rparr>;
                                            n = set_cell r (unlock c) n;
                                            (rcpt, n) = buildSigned L ''transfer.receipt'' (c_PeerBase c) (envStr env ''id'')
                                                          (entry_payload (t_ID t) rec) n
                                        in (Some rcpt, set_transfer tid (t\<lparr>t_Receipt := Some rcpt\<rparr>) n)))"

section \<open>Receipt, rejection, abort\<close>

definition handleTransferReceipt :: "lib \<Rightarrow> obj \<Rightarrow> Node \<Rightarrow> handled" where
  "handleTransferReceipt L env n =
     (let p = fst (payloadOf env);
          tid = pStr p ''transfer_id'';
          unknown = reply (errorReply L env ''unknown-transfer'' ''no matching outgoing transfer'' n)
      in case map_of (n_transfers n) tid of
           None \<Rightarrow> unknown
         | Some t \<Rightarrow>
             if \<not> t_Outgoing t then unknown
             else case senderContact L env (t_ContactID t) n of
                 None \<Rightarrow> reply (errorReply L env ''wrong-sender'' ''transfer does not belong to sender'' n)
               | Some r \<Rightarrow>
                   if t_State t = ''SETTLED'' then no_reply n
                   else case Transition (t_State t) ''receipt'' of
                       Inl e \<Rightarrow> reply (errorReply L env ''bad-state'' e n)
                     | Inr next \<Rightarrow>
                         let n = set_transfer tid
                                   (t\<lparr>t_State := next, t_PeerEntry := entry_proof_of p (t_PeerEntry t)\<rparr>) n;
                             c = cell n r
                         in no_reply (if c_BusyTransfer c = t_ID t then set_cell r (unlock c) n else n))"

definition close_transfer :: "string \<Rightarrow> bool \<Rightarrow> lib \<Rightarrow> obj \<Rightarrow> Node \<Rightarrow> handled" where
  "close_transfer event outgoing L env n =
     (let tid = pStr (fst (payloadOf env)) ''transfer_id'' in
      case map_of (n_transfers n) tid of
        None \<Rightarrow> no_reply n
      | Some t \<Rightarrow>
          if t_Outgoing t \<noteq> outgoing then no_reply n
          else case senderContact L env (t_ContactID t) n of
              None \<Rightarrow> no_reply n
            | Some r \<Rightarrow>
                case Transition (t_State t) event of
                  Inl _ \<Rightarrow> no_reply n
                | Inr next \<Rightarrow>
                    let n = set_transfer tid (t\<lparr>t_State := next\<rparr>) n;
                        c = cell n r
                    in no_reply (if c_BusyTransfer c = t_ID t then set_cell r (unlock c) n else n))"

definition handleTransferReject :: "lib \<Rightarrow> obj \<Rightarrow> Node \<Rightarrow> handled" where
  "handleTransferReject = close_transfer ''reject'' True"

definition handleTransferAbort :: "lib \<Rightarrow> obj \<Rightarrow> Node \<Rightarrow> handled" where
  "handleTransferAbort = close_transfer ''abort'' False"

definition AbortTransfer :: "lib \<Rightarrow> string \<Rightarrow> Node \<Rightarrow> (node_error + unit) \<times> Node" where
  "AbortTransfer L tid n =
     (case map_of (n_transfers n) tid of
        None \<Rightarrow> (Inl (NoOutgoingTransfer tid), n)
      | Some t \<Rightarrow>
          if \<not> t_Outgoing t then (Inl (NoOutgoingTransfer tid), n)
          else case Transition (t_State t) ''abort'' of
              Inl e \<Rightarrow> (Inl (CannotAbort (t_State t) e), n)
            | Inr next \<Rightarrow>
                let n = set_transfer tid (t\<lparr>t_State := next\<rparr>) n;
                    n = (case contact_ref n (t_ContactID t) of
                           None \<Rightarrow> n
                         | Some r \<Rightarrow>
                             let n = (if c_BusyTransfer (cell n r) = t_ID t then set_cell r (unlock (cell n r)) n else n)
                             in snd (buildSigned L ''transfer.abort'' (c_PeerBase (cell n r)) []
                                       [(''transfer_id'', GStr (t_ID t))] n))
                in (Inr (), snd (persistLocked n)))"

definition TransferState :: "string \<Rightarrow> Node \<Rightarrow> string" where
  "TransferState tid n = (case map_of (n_transfers n) tid of None \<Rightarrow> [] | Some t \<Rightarrow> t_State t)"

section \<open>Reserve adjustments\<close>

definition AdjustReserve :: "lib \<Rightarrow> string \<Rightarrow> i64 \<Rightarrow> string \<Rightarrow> Node \<Rightarrow> (node_error + string) \<times> Node" where
  "AdjustReserve L peerBase delta memo n =
     (let peerHost = host L peerBase in
      case host_ref n peerHost of
        None \<Rightarrow> (Inl (NoActiveContact peerHost), n)
      | Some r \<Rightarrow>
          if \<not> c_Active (cell n r) \<or> c_Closed (cell n r) then (Inl (NoActiveContact peerHost), n)
          else if c_Diverged (cell n r) then (Inl ContactFrozen, n)
          else
            let n = releaseIfBusyExpired L r n;
                c = cell n r
            in if c_Busy c then (Inl (ContactBusy (c_BusyTransfer c)), n)
               else if delta = 0 then (Inl DeltaZero, n)
               else if sint (c_MyReserveOfPeer c + delta) < 0 then (Inl (WithdrawalExceeds (c_MyReserveOfPeer c) delta), n)
               else
                 let (aid, n) = draw_id L n;
                     c = c\<lparr>c_Busy := True, c_BusyTransfer := aid, c_PendingAdjustID := aid, c_PendingAdjustDelta := delta\<rparr>;
                     n = set_cell r c n;
                     (_, n) = buildSigned L ''reserve.adjust'' peerBase []
                                [(''contact_id'', GStr (c_ID c)), (''op_seq'', GInt (c_OpSeq c)),
                                 (''adjust_id'', GStr aid), (''my_delta'', GInt delta), (''memo'', GStr memo)] n
                 in (Inr aid, snd (persistLocked n)))"

definition handleReserveAdjust :: "lib \<Rightarrow> obj \<Rightarrow> Node \<Rightarrow> handled" where
  "handleReserveAdjust L env n =
     (case payloadOf env of (p, ok) \<Rightarrow>
      if \<not> ok then reply (errorReply L env ''malformed'' ''missing payload'' n)
      else
        let none = reply (errorReply L env ''unknown-contact'' ''no active contact'' n) in
        case host_ref n (host L (envStr env ''from'')) of
          None \<Rightarrow> none
        | Some r \<Rightarrow>
            if \<not> c_Active (cell n r) \<or> c_Closed (cell n r) then none
            else if c_Diverged (cell n r) then reply (errorReply L env ''frozen'' contact_frozen_text n)
            else
              let n = releaseIfBusyExpired L r n;
                  c = cell n r;
                  opSeq = fst (pInt p ''op_seq'');
                  adjustID = pStr p ''adjust_id'';
                  (delta, ok) = pInt p ''my_delta'';
                  fail = (\<lambda>code detail. reply (errorReply L env code detail n));
                  accept = buildSigned L ''reserve.accept'' (c_PeerBase c) (envStr env ''id'')
                             [(''contact_id'', GStr (c_ID c)), (''adjust_id'', GStr adjustID)]
              in if c_Busy c then fail ''busy'' ''contact has an operation in flight''
                 else if opSeq \<noteq> c_OpSeq c
                 then fail ''stale-pool'' (''op_seq '' @ dec64 opSeq @ '' != current '' @ dec64 (c_OpSeq c))
                 else if \<not> ok \<or> delta = 0 then fail ''malformed'' ''invalid my_delta''
                 else if map_of (c_AppliedAdjusts c) adjustID = Some True then reply (accept n)
                 else if sint (c_PeerReserveOfMe c + delta) < 0
                 then fail ''insufficient-reserve'' ''withdrawal exceeds mirrored reserve''
                 else
                   let c = c\<lparr>c_PeerReserveOfMe := c_PeerReserveOfMe c + delta\<rparr>;
                       n = set_cell r c n
                   in case applyAdjust adjustID delta c of
                        Inl e \<Rightarrow> reply (errorReply L env ''internal'' (canon_error_text e) n)
                      | Inr c \<Rightarrow>
                          reply (accept (set_cell r (c\<lparr>c_AppliedAdjusts := mput adjustID True (c_AppliedAdjusts c)\<rparr>) n)))"

definition handleReserveAccept :: "lib \<Rightarrow> obj \<Rightarrow> Node \<Rightarrow> handled" where
  "handleReserveAccept L env n =
     (case payloadOf env of (p, ok) \<Rightarrow>
      if \<not> ok then reply (errorReply L env ''malformed'' ''missing payload'' n)
      else
        case host_ref n (host L (envStr env ''from'')) of
          None \<Rightarrow> reply (errorReply L env ''unknown-contact'' ''no contact'' n)
        | Some r \<Rightarrow>
            let c = cell n r;
                adjustID = pStr p ''adjust_id''
            in if c_PendingAdjustID c \<noteq> adjustID then no_reply n
               else
                 let delta = c_PendingAdjustDelta c in
                 case append_tx L ''reserve.adjust'' adjustID
                        [mk_entry (NodeWalletPrefix @ c_PeerHost c) delta, mk_entry AcctTreasury (- delta)] n of
                   (Inl e, n) \<Rightarrow> reply (errorReply L env ''internal'' (append_error_text e) n)
                 | (Inr _, n) \<Rightarrow>
                     (let c = c\<lparr>c_MyReserveOfPeer := c_MyReserveOfPeer c + delta\<rparr>;
                          n = set_cell r c n
                      in case applyAdjust adjustID delta c of
                           Inl e \<Rightarrow> reply (errorReply L env ''internal'' (canon_error_text e) n)
                         | Inr c \<Rightarrow>
                             no_reply (set_cell r ((unlock c)\<lparr>c_PendingAdjustID := [], c_PendingAdjustDelta := 0\<rparr>) n)))"

end
