(* ===== verification/LP_Inbound.thy ===== *)
theory LP_Inbound
  imports LP_Transfer
begin

text \<open>
  The node facing its peers (node/handlers.go, node/keys.go, node/pull.go, node/reconcile.go): key rotation
  and revocation, dispatch by type, the processing of one inbound envelope, pull, push, and the
  comparison with a peer's checkpoint.

  What a peer answers over the network is a parameter: \<open>sender\<close> is the interface \<open>Sender\<close> without its
  delivery side, each call answering with a decoded document or failing. \<open>None\<close> for the whole of it is a
  node without a sender.
\<close>

record sender =
  FetchIdentity :: "string \<Rightarrow> obj option"
  FetchOutbox :: "string \<Rightarrow> string \<Rightarrow> obj list option"
  FetchCheckpoint :: "string \<Rightarrow> obj option"

section \<open>Keys\<close>

definition open_contacts :: "Node \<Rightarrow> Contact list" where
  "open_contacts n = filter (\<lambda>c. \<not> c_Closed c) (map (\<lambda>hr. cell n (snd hr)) (n_contactByHost n))"

fun announce_all :: "lib \<Rightarrow> string \<Rightarrow> bytes \<Rightarrow> string \<Rightarrow> string list \<Rightarrow> Node \<Rightarrow> Node" where
  "announce_all L localID pub now [] n = n"
| "announce_all L localID pub now (base # bases) n =
     announce_all L localID pub now bases
       (snd (buildSigned L ''key.announce'' base []
               [(''id'', GStr localID), (''alg'', GStr ''ed25519''), (''public_key'', GStr (pubB64 pub)),
                (''created'', GStr now)] n))"

definition RotateKey :: "lib \<Rightarrow> Node \<Rightarrow> (node_error + string) \<times> Node" where
  "RotateKey L n =
     (let newPriv = NewKeyFromSeed L (rand_read L (n_rand n) 32);
          n = n\<lparr>n_rand := Suc (n_rand n)\<rparr>;
          newPub = Public newPriv;
          newLocalID = ''#nk'' @ dec_int (int (length (n_ownKeys n)) + 1);
          now = now_text L n;
          n = announce_all L newLocalID newPub now (map c_PeerBase (open_contacts n)) n;
          n = n\<lparr>n_ownKeys := n_ownKeys n @ [\<lparr>k_LocalID = newLocalID, k_Seed = b64 (Seed newPriv), k_Created = now,
                  k_Revoked = [], k_priv = newPriv, k_pub = newPub\<rparr>]\<rparr>;
          n = n\<lparr>n_priv := newPriv, n_pub := newPub, n_keyLocalID := newLocalID,
                n_peerKeys := mput (keyID (cfg_Base (n_cfg n)) newLocalID) newPub (n_peerKeys n)\<rparr>
      in (Inr newLocalID, snd (persistLocked n)))"

fun revoke_first :: "string \<Rightarrow> string \<Rightarrow> ownKey list \<Rightarrow> ownKey list" where
  "revoke_first localID now [] = []"
| "revoke_first localID now (k # ks) =
     (if k_LocalID k = localID then k\<lparr>k_Revoked := now\<rparr> # ks else k # revoke_first localID now ks)"

definition RevokeKey :: "lib \<Rightarrow> string \<Rightarrow> Node \<Rightarrow> (node_error + unit) \<times> Node" where
  "RevokeKey L localID n =
     (if localID = n_keyLocalID n then (Inl ActiveKeyNotRevocable, n)
      else case find (\<lambda>k. k_LocalID k = localID) (n_ownKeys n) of
          None \<Rightarrow> (Inl (NoSuchKey localID), n)
        | Some k \<Rightarrow>
            if k_Revoked k \<noteq> [] then (Inr (), n)
            else persistLocked (n\<lparr>n_ownKeys := revoke_first localID (now_text L n) (n_ownKeys n)\<rparr>))"

definition handleKeyAnnounce :: "lib \<Rightarrow> obj \<Rightarrow> Node \<Rightarrow> handled" where
  "handleKeyAnnounce L env n =
     (case payloadOf env of (p, ok) \<Rightarrow>
      if \<not> ok then reply (errorReply L env ''malformed'' ''missing payload'' n)
      else
        let localID = pStr p ''id'';
            pubStr = pStr p ''public_key''
        in if localID = [] \<or> pubStr = []
           then reply (errorReply L env ''malformed'' ''missing key id or public_key'' n)
           else case mustParseKey pubStr of
               Inl e \<Rightarrow> reply (errorReply L env ''malformed'' (''bad public_key: '' @ key_error_text pubStr e) n)
             | Inr pub \<Rightarrow>
                 no_reply (n\<lparr>n_peerKeys := mput (keyID (envStr env ''from'') localID) pub (n_peerKeys n)\<rparr>))"

text \<open>The keys of an identity document that are listed, not revoked and well formed, by their full id.\<close>

definition doc_base :: "string \<Rightarrow> obj \<Rightarrow> string" where
  "doc_base peerBase doc =
     (let b = pStr (obj_or_nil (obj_get doc ''node'')) ''base'' in if b \<noteq> [] then b else peerBase)"

definition doc_keys :: "obj \<Rightarrow> gval list" where
  "doc_keys doc = (case obj_get doc ''keys'' of GArr ks \<Rightarrow> ks | _ \<Rightarrow> [])"

fun usable_keys :: "string \<Rightarrow> gval list \<Rightarrow> (string \<times> bytes) list" where
  "usable_keys base [] = []"
| "usable_keys base (GMap km # ks) =
     (if obj_get km ''revoked'' \<noteq> GNil then usable_keys base ks
      else case mustParseKey (pStr km ''public_key'') of
          Inl _ \<Rightarrow> usable_keys base ks
        | Inr pub \<Rightarrow> (keyID base (pStr km ''id''), pub) # usable_keys base ks)"
| "usable_keys base (_ # ks) = usable_keys base ks"

definition put_keys :: "(string \<times> bytes) list \<Rightarrow> (string, bytes) gomap \<Rightarrow> (string, bytes) gomap" where
  "put_keys kps m = foldl (\<lambda>m kp. mput (fst kp) (snd kp) m) m kps"

definition fetchPeerKeys :: "sender option \<Rightarrow> string \<Rightarrow> Node \<Rightarrow> (node_error + unit) \<times> Node" where
  "fetchPeerKeys S peerBase n =
     (case S of
        None \<Rightarrow> (Inl FetchFailed, n)
      | Some s \<Rightarrow>
          (case FetchIdentity s peerBase of
             None \<Rightarrow> (Inl FetchFailed, n)
           | Some doc \<Rightarrow>
               let keys = usable_keys (doc_base peerBase doc) (doc_keys doc);
                   n = n\<lparr>n_peerKeys := put_keys keys (n_peerKeys n)\<rparr>
               in if keys = [] then (Inl (NoUsableKeys peerBase), n) else (Inr (), n)))"

text \<open>\<open>RefreshPeerKeys\<close> answers how many keys it added and removed.\<close>

definition RefreshPeerKeys :: "sender option \<Rightarrow> string \<Rightarrow> Node \<Rightarrow> (node_error + nat \<times> nat) \<times> Node" where
  "RefreshPeerKeys S peerBase n =
     (case S of
        None \<Rightarrow> (Inr (0, 0), n)
      | Some s \<Rightarrow>
          (case FetchIdentity s peerBase of
             None \<Rightarrow> (Inl FetchFailed, n)
           | Some doc \<Rightarrow>
               let base = doc_base peerBase doc;
                   valid = put_keys (usable_keys base (doc_keys doc)) [];
                   prefix = base @ identityPath @ ''#'';
                   gone = filter (\<lambda>kid. HasPrefix kid prefix \<and> map_of valid kid = None) (mkeys (n_peerKeys n));
                   pruned = filter (\<lambda>kp. fst kp \<notin> set gone) (n_peerKeys n);
                   added = filter (\<lambda>kid. map_of pruned kid = None) (mkeys valid);
                   n = n\<lparr>n_peerKeys := put_keys valid pruned\<rparr>
               in (Inr (length added, length gone),
                   if 0 < length added \<or> 0 < length gone then snd (persistLocked n) else n)))"

section \<open>Dispatch\<close>

definition handleMemberLookup :: "lib \<Rightarrow> obj \<Rightarrow> Node \<Rightarrow> handled" where
  "handleMemberLookup L env n =
     (case payloadOf env of (p, ok) \<Rightarrow>
      if \<not> ok then reply (errorReply L env ''malformed'' ''missing payload'' n)
      else
        let refused = reply (errorReply L env ''no-contact'' ''lookups require an active contact'' n) in
        case host_ref n (host L (envStr env ''from'')) of
          None \<Rightarrow> refused
        | Some r \<Rightarrow>
            if \<not> c_Active (cell n r) then refused
            else
              let mem = pStr p ''member'';
                  m = usable_member n mem;
                  res = [(''member'', GStr mem), (''found'', GBool (m \<noteq> None))];
                  res = (case m of
                           None \<Rightarrow> res
                         | Some m \<Rightarrow>
                             if m_DisplayName m \<noteq> [] \<and> cfg_Transparency (n_cfg n) = ''public''
                             then res @ [(''display_name'', GStr (m_DisplayName m))] else res)
              in reply (buildSigned L ''member.result'' (envStr env ''from'') (envStr env ''id'') res n))"

definition route :: "lib \<Rightarrow> obj \<Rightarrow> Node \<Rightarrow> handled" where
  "route L env n =
     (let ty = envStr env ''type'' in
      if ty = ''contact.propose'' then handleContactPropose L env n
      else if ty = ''contact.accept'' then handleContactAccept L env n
      else if ty = ''contact.update'' then handleContactUpdate L env n
      else if ty = ''contact.close'' then handleContactClose L env n
      else if ty = ''key.announce'' then handleKeyAnnounce L env n
      else if ty = ''transfer.propose'' then handleTransferPropose L env n
      else if ty = ''transfer.accept'' then handleTransferAccept L env n
      else if ty = ''transfer.reject'' then handleTransferReject L env n
      else if ty = ''transfer.commit'' then handleTransferCommit L env n
      else if ty = ''transfer.receipt'' then handleTransferReceipt L env n
      else if ty = ''transfer.abort'' then handleTransferAbort L env n
      else if ty = ''reserve.adjust'' then handleReserveAdjust L env n
      else if ty = ''reserve.accept'' then handleReserveAccept L env n
      else if ty = ''member.lookup'' then handleMemberLookup L env n
      else if ty = ''ping'' then reply (buildSigned L ''pong'' (envStr env ''from'') (envStr env ''id'') [] n)
      else if ty = ''pong'' then no_reply n
      else if ty = ''error'' then no_reply n
      else reply (errorReply L env ''unknown-type'' ty n))"

section \<open>Processing one envelope\<close>

definition empty_inbound :: channelInbound where
  "empty_inbound = \<lparr>ci_seenIDs = [], ci_lastSeq = 0, ci_replies = []\<rparr>"

definition inbound :: "string \<Rightarrow> Node \<Rightarrow> channelInbound \<times> Node" where
  "inbound fromHost n =
     (case map_of (n_inState n) fromHost of
        Some ci \<Rightarrow> (ci, n)
      | None \<Rightarrow> (empty_inbound, n\<lparr>n_inState := mput fromHost empty_inbound (n_inState n)\<rparr>))"

text \<open>What is recorded once an envelope has been handled.\<close>

definition mark_processed :: "obj \<Rightarrow> obj option \<Rightarrow> channelInbound \<Rightarrow> channelInbound" where
  "mark_processed env rep ci =
     (let eid = envStr env ''id'';
          ci = ci\<lparr>ci_seenIDs := mput eid True (ci_seenIDs ci)\<rparr>;
          (seq, ok) = asInt (obj_get env ''seq'');
          ci = (if ok \<and> sint (ci_lastSeq ci) < sint seq then ci\<lparr>ci_lastSeq := seq\<rparr> else ci)
      in case rep of None \<Rightarrow> ci | Some r \<Rightarrow> ci\<lparr>ci_replies := mput eid r (ci_replies ci)\<rparr>)"

definition major_of :: "string \<Rightarrow> string" where
  "major_of lp = takeWhile (\<lambda>c. c \<noteq> CHR ''.'') lp"

text \<open>
  The verdict, the envelope that is sent out as the answer (a fresh reply, or the cached one of a
  duplicate), and the node. A fetch that brings the sender's keys happens before the validation.
\<close>

definition ProcessInbound :: "lib \<Rightarrow> sender option \<Rightarrow> obj \<Rightarrow> Node \<Rightarrow> string \<times> obj option \<times> Node" where
  "ProcessInbound L S env n =
     (if major_of (envStr env ''lp'') \<noteq> ''0'' then (VerdictMalformed, None, n)
      else if envStr env ''to'' \<noteq> [] \<and> host L (envStr env ''to'') \<noteq> host L (cfg_Base (n_cfg n))
      then (VerdictMalformed, None, n)
      else
        let fromBase = envStr env ''from'';
            keyid = pStr (obj_or_nil (obj_get env ''sig'')) ''key''
        in case (if map_of (n_peerKeys n) keyid = None then fetchPeerKeys S fromBase n else (Inr (), n)) of
             (Inl _, n) \<Rightarrow> (VerdictUnknownKey, None, n)
           | (Inr _, n) \<Rightarrow>
               let fromHost = host L fromBase;
                   (ci, n) = inbound fromHost n;
                   verdict = ValidateEnvelope L env
                     \<lparr>vs_Keys = n_peerKeys n, vs_SeenIDs = ci_seenIDs ci, vs_LastSeq = ci_lastSeq ci, vs_Now = n_clock n\<rparr>
               in if verdict = VerdictDuplicate then (verdict, map_of (ci_replies ci) (envStr env ''id''), n)
                  else if verdict \<noteq> VerdictOK then (verdict, None, n)
                  else case route L env n of
                      (rep, n) \<Rightarrow>
                        let n = n\<lparr>n_inState := mput fromHost (mark_processed env rep ci) (n_inState n)\<rparr>
                        in (verdict, rep, snd (persistLocked n)))"

section \<open>Pull and reconciliation\<close>

definition HostOf :: "lib \<Rightarrow> Node \<Rightarrow> string" where
  "HostOf L n = host L (cfg_Base (n_cfg n))"

fun process_all :: "lib \<Rightarrow> sender option \<Rightarrow> obj list \<Rightarrow> nat \<Rightarrow> Node \<Rightarrow> nat \<times> Node" where
  "process_all L S [] k n = (k, n)"
| "process_all L S (env # envs) k n =
     (case ProcessInbound L S env n of
        (verdict, _, n) \<Rightarrow> process_all L S envs (if verdict = VerdictOK then Suc k else k) n)"

definition PollPeer :: "lib \<Rightarrow> sender option \<Rightarrow> string \<Rightarrow> Node \<Rightarrow> (node_error + nat) \<times> Node" where
  "PollPeer L S peerBase n =
     (case S of
        None \<Rightarrow> (Inr 0, n)
      | Some s \<Rightarrow>
          (case FetchOutbox s peerBase (HostOf L n) of
             None \<Rightarrow> (Inl FetchFailed, n)
           | Some envs \<Rightarrow> (case process_all L S envs 0 n of (k, n) \<Rightarrow> (Inr k, n))))"

definition openPeerBases :: "Node \<Rightarrow> string list" where
  "openPeerBases n = map c_PeerBase (open_contacts n)"

definition pruneOutboxLocked :: "string \<Rightarrow> i64 \<Rightarrow> Node \<Rightarrow> nat \<times> Node" where
  "pruneOutboxLocked peerHost upto' n =
     (if sint upto' \<le> 0 then (0, n)
      else
        let src = mgetl (n_outbox n) peerHost in
        if src = [] then (0, n)
        else
          let acked = (\<lambda>e. case asInt (obj_get e ''seq'') of (seq, ok) \<Rightarrow> ok \<and> sint seq \<le> sint upto');
              kept = filter (\<lambda>e. \<not> acked e) src
          in (length (filter acked src), n\<lparr>n_outbox := mput peerHost kept (n_outbox n)\<rparr>))"

record ReconcileResult =
  rr_Peer :: string
  rr_Compared :: bool
  rr_Diverged :: bool
  rr_Pruned :: nat
  rr_Detail :: string

definition rr_nothing :: "string \<Rightarrow> ReconcileResult" where
  "rr_nothing peerBase =
     \<lparr>rr_Peer = peerBase, rr_Compared = False, rr_Diverged = False, rr_Pruned = 0, rr_Detail = []\<rparr>"

definition reconcile_entry :: "string \<Rightarrow> cref \<Rightarrow> obj \<Rightarrow> Node \<Rightarrow> ReconcileResult \<times> Node" where
  "reconcile_entry peerBase r m n =
     (let c = cell n r;
          peerOpSeq = fst (asInt (obj_get m ''op_seq''));
          peerRoot = pStr m ''channel_root'';
          (pruned, n) = pruneOutboxLocked (c_PeerHost c) (fst (asInt (obj_get m ''last_seq_processed''))) n;
          res = (rr_nothing peerBase)\<lparr>rr_Compared := True\<rparr>
      in if 0 \<le> sint peerOpSeq \<and> sint peerOpSeq \<le> sint (c_OpSeq c) \<and> sint peerOpSeq < int (length (c_Roots c)) \<and>
            peerRoot \<noteq> c_Roots c ! nat (sint peerOpSeq)
         then
           let n = set_cell r (c\<lparr>c_Diverged := True\<rparr>) n
           in (res\<lparr>rr_Diverged := True, rr_Detail := ''channel root divergence at op_seq '' @ dec64 peerOpSeq\<rparr>,
               snd (persistLocked n))
         else
           (res\<lparr>rr_Pruned := pruned,
                rr_Detail := ''op_seq '' @ dec64 (c_OpSeq c) @ ''/'' @ dec64 peerOpSeq @ '', pruned '' @ dec_int (int pruned)\<rparr>,
            if 0 < pruned then snd (persistLocked n) else n))"

definition own_entry :: "string \<Rightarrow> gval \<Rightarrow> bool" where
  "own_entry cid v = (case v of GMap m \<Rightarrow> pStr m ''contact_id'' = cid | _ \<Rightarrow> False)"

definition ReconcilePeer :: "lib \<Rightarrow> sender option \<Rightarrow> string \<Rightarrow> Node \<Rightarrow> (node_error + ReconcileResult) \<times> Node" where
  "ReconcilePeer L S peerBase n =
     (case S of
        None \<Rightarrow> (Inr (rr_nothing peerBase), n)
      | Some s \<Rightarrow>
          (case FetchCheckpoint s peerBase of
             None \<Rightarrow> (Inl FetchFailed, n)
           | Some cp \<Rightarrow>
               let contacts = (case obj_get cp ''contacts'' of GArr vs \<Rightarrow> vs | _ \<Rightarrow> []) in
               case host_ref n (host L peerBase) of
                 None \<Rightarrow> (Inr (rr_nothing peerBase), n)
               | Some r \<Rightarrow>
                   (case find (own_entry (c_ID (cell n r))) contacts of
                      None \<Rightarrow> (Inr (rr_nothing peerBase), n)
                    | Some v \<Rightarrow>
                        (case reconcile_entry peerBase r (obj_or_nil v) n of (res, n) \<Rightarrow> (Inr res, n)))))"

fun poll_bases :: "lib \<Rightarrow> sender option \<Rightarrow> string list \<Rightarrow> Node \<Rightarrow> Node" where
  "poll_bases L S [] n = n"
| "poll_bases L S (b # bs) n =
     poll_bases L S bs (snd (RefreshPeerKeys S b (snd (ReconcilePeer L S b (snd (PollPeer L S b n))))))"

definition PollAll :: "lib \<Rightarrow> sender option \<Rightarrow> Node \<Rightarrow> Node" where
  "PollAll L S n = poll_bases L S (openPeerBases n) n"

fun reconcile_bases :: "lib \<Rightarrow> sender option \<Rightarrow> string list \<Rightarrow> Node \<Rightarrow> Node" where
  "reconcile_bases L S [] n = n"
| "reconcile_bases L S (b # bs) n = reconcile_bases L S bs (snd (ReconcilePeer L S b n))"

definition ReconcileAll :: "lib \<Rightarrow> sender option \<Rightarrow> Node \<Rightarrow> Node" where
  "ReconcileAll L S n = reconcile_bases L S (openPeerBases n) n"

section \<open>Push\<close>

text \<open>
  \<open>pushHost\<close>: the first outbox entry above the cursor is delivered, and so on until there is none or a
  delivery fails. \<open>deliver\<close> says which deliveries succeed.
\<close>

definition above :: "i64 \<Rightarrow> obj \<Rightarrow> bool" where
  "above cur e = (case asInt (obj_get e ''seq'') of (sq, ok) \<Rightarrow> ok \<and> sint cur < sint sq)"

function push_loop :: "(obj \<Rightarrow> bool) \<Rightarrow> obj list \<Rightarrow> i64 \<Rightarrow> obj list \<times> i64" where
  "push_loop deliver es cur =
     (case find (above cur) es of
        None \<Rightarrow> ([], cur)
      | Some e \<Rightarrow>
          if deliver e
          then (case push_loop deliver es (fst (asInt (obj_get e ''seq''))) of (sent, cur) \<Rightarrow> (e # sent, cur))
          else ([], cur))"
  by pat_completeness auto
termination
proof (relation "measure (\<lambda>(deliver, es, cur). nat (2 ^ 63 - sint cur))", goal_cases)
  case (2 deliver es cur e)
  then have "above cur e"
    by (auto simp: find_Some_iff)
  then have "sint cur < sint (fst (asInt (obj_get e ''seq'')))"
    by (auto simp: above_def split: prod.splits)
  then show ?case
    using sint_i64_upper [of "fst (asInt (obj_get e ''seq''))"] by simp
qed simp

declare push_loop.simps [simp del]

definition pushHost :: "(obj \<Rightarrow> bool) \<Rightarrow> string \<Rightarrow> Node \<Rightarrow> obj list \<times> Node" where
  "pushHost deliver h n =
     (case push_loop deliver (mgetl (n_outbox n) h) (mget0 (n_pushed n) h) of
        ([], _) \<Rightarrow> ([], n)
      | (e # sent, cur) \<Rightarrow> (e # sent, n\<lparr>n_pushed := mput h cur (n_pushed n)\<rparr>))"

end
