(* ===== verification/LP_Views.thy ===== *)
theory LP_Views
  imports LP_Inbound
begin

text \<open>
  What a node shows and how it comes back: the identity document and the checkpoint (node/config.go,
  node/handlers.go), the paginated log (node/log.go), the read accessors (node/accessors.go), and
  \<open>Restore\<close> from a snapshot (node/persist.go).
\<close>

section \<open>Documents\<close>

definition keyDocs :: "Node \<Rightarrow> gval list" where
  "keyDocs n =
     map (\<lambda>k. GMap [(''id'', GStr (k_LocalID k)), (''alg'', GStr ''ed25519''), (''public_key'', GStr (pubB64 (k_pub k))),
                    (''created'', GStr (k_Created k)),
                    (''revoked'', if k_Revoked k \<noteq> [] then GStr (k_Revoked k) else GNil)])
       (n_ownKeys n)"

definition peerList :: "Node \<Rightarrow> gval list" where
  "peerList n =
     map (\<lambda>c. GStr (c_PeerBase c))
       (filter (\<lambda>c. c_Active c \<and> \<not> c_Closed c) (map (\<lambda>hr. cell n (snd hr)) (n_contactByHost n)))"

definition IdentityDoc :: "Node \<Rightarrow> obj" where
  "IdentityDoc n =
     (let cfg = n_cfg n in
      [(''liquiditypub'', GStr ''0.2''),
       (''node'', GMap [(''name'', GStr (cfg_Name cfg)), (''description'', GStr (cfg_Description cfg)),
                        (''base'', GStr (cfg_Base cfg))]),
       (''currency'', GMap [(''name'', GStr (cfg_CurrencyName cfg)), (''symbol'', GStr (cfg_CurrencySymbol cfg)),
                            (''micro_units'', GInt 1000000)]),
       (''issuance'', GMap [(''type'', GStr ''ud''), (''c_period_ppm'', GInt (cfg_CPeriodPpm cfg)),
                            (''ud_period'', GStr (cfg_UDPeriod cfg)), (''current_ud'', GInt (n_currentUD n))]),
       (''keys'', GArr (keyDocs n)),
       (''endpoints'', GMap [(''inbox'', GStr ''/lp/inbox''),
                             (''outbox'', GStr (''/lp/outbox/'' @ [CHR 0x7B] @ ''peer-host'' @ [CHR 0x7D] @ ''.json'')),
                             (''checkpoint'', GStr ''/lp/checkpoint.json''), (''log'', GStr ''/lp/log/'')]),
       (''capabilities'', GArr [GStr ''pull'', GStr ''push'']),
       (''transparency'', GStr (cfg_Transparency cfg)),
       (''peers'', GArr (peerList n)),
       (''stats'', GMap [(''active_members'', GInt (activeCountLocked n)), (''ud_weight_total'', GInt (udWeightTotal n)),
                         (''money_supply'', GInt (MoneySupply (n_led n)))])])"

definition SetIdentity :: "string \<Rightarrow> string \<Rightarrow> string \<Rightarrow> Node \<Rightarrow> Node" where
  "SetIdentity name currency symbol n =
     (let cfg = n_cfg n;
          cfg = (if name \<noteq> [] then cfg\<lparr>cfg_Name := name\<rparr> else cfg);
          cfg = (if currency \<noteq> [] then cfg\<lparr>cfg_CurrencyName := currency\<rparr> else cfg);
          cfg = (if symbol \<noteq> [] then cfg\<lparr>cfg_CurrencySymbol := symbol\<rparr> else cfg)
      in n\<lparr>n_cfg := cfg\<rparr>)"

definition checkpoint_entry :: "Node \<Rightarrow> Contact \<Rightarrow> gval" where
  "checkpoint_entry n c =
     GMap [(''peer'', GStr (c_PeerBase c)), (''contact_id'', GStr (c_ID c)),
           (''peer_reserve_here'', GInt (c_MyReserveOfPeer c)), (''op_seq'', GInt (c_OpSeq c)),
           (''channel_root'', GStr (channelRootB64 c)),
           (''last_seq_processed'',
              GInt (case map_of (n_inState n) (c_PeerHost c) of None \<Rightarrow> 0 | Some ci \<Rightarrow> ci_lastSeq ci))]"

text \<open>\<open>Checkpoint\<close>; \<open>None\<close> is the panic on a signing failure.\<close>

definition Checkpoint :: "lib \<Rightarrow> Node \<Rightarrow> obj option" where
  "Checkpoint L n =
     (let cp = [(''lp'', GStr ''0.2''), (''type'', GStr ''checkpoint''), (''node'', GStr (cfg_Base (n_cfg n))),
                (''created'', GStr (now_text L n)), (''log_seq'', GInt (of_nat (Len (n_led n)))),
                (''log_hash'', GStr (Head (n_led n))), (''money_supply'', GInt (MoneySupply (n_led n))),
                (''member_count'', GInt (of_nat (length (n_members n)))), (''current_ud'', GInt (n_currentUD n)),
                (''contacts'', GArr (map (\<lambda>hr. checkpoint_entry n (cell n (snd hr))) (n_contactByHost n)))]
      in case SignEnvelope L cp (n_priv n) of
           Inl _ \<Rightarrow> None
         | Inr sig \<Rightarrow>
             Some (cp @ [(''sig'', GMap [(''key'', GStr (keyID (cfg_Base (n_cfg n)) (n_keyLocalID n))),
                                          (''alg'', GStr ''ed25519''), (''value'', GStr (b64 sig))])]))"

definition OutboxFor :: "string \<Rightarrow> Node \<Rightarrow> obj list" where
  "OutboxFor peerHost n = mgetl (n_outbox n) peerHost"

section \<open>The log\<close>

definition LogPageSize :: int where
  "LogPageSize = 100"

definition LogHead :: "Node \<Rightarrow> obj" where
  "LogHead n =
     [(''seq'', GInt (of_nat (Len (n_led n)))), (''hash'', GStr (Head (n_led n))), (''page_size'', GInt (of_int LogPageSize)),
      (''page_count'', GInt (of_int ((int (Len (n_led n)) + LogPageSize - 1) div LogPageSize)))]"

text \<open>
  \<open>LogPage\<close>: the page number is an \<open>int\<close>, so its first index can wrap around; \<open>None\<close> is the run-time
  panic of a slice with bounds out of range.
\<close>

definition LogPage :: "i64 \<Rightarrow> Node \<Rightarrow> log_record list option" where
  "LogPage page n =
     (let recs = Records (n_led n);
          start = page * of_int LogPageSize
      in if sint page < 0 \<or> int (length recs) \<le> sint start then Some []
         else
           let end' = start + of_int LogPageSize;
               end' = (if int (length recs) < sint end' then of_nat (length recs) else end')
           in if sint start < 0 \<or> sint end' < sint start then None
              else Some (take (nat (sint end' - sint start)) (drop (nat (sint start)) recs)))"

definition LogRecords :: "Node \<Rightarrow> log_record list" where
  "LogRecords n = Records (n_led n)"

section \<open>Accessors\<close>

definition PeerKeyIDs :: "Node \<Rightarrow> string list" where
  "PeerKeyIDs n = sorted_keys (n_peerKeys n)"

definition contact_open :: "Contact \<Rightarrow> bool" where
  "contact_open c \<longleftrightarrow> c_Active c \<and> \<not> c_Closed c"

definition ContactActive :: "lib \<Rightarrow> string \<Rightarrow> Node \<Rightarrow> bool" where
  "ContactActive L peerBase n =
     (case host_ref n (host L peerBase) of None \<Rightarrow> False | Some r \<Rightarrow> contact_open (cell n r))"

definition IsActivePeer :: "lib \<Rightarrow> string \<Rightarrow> Node \<Rightarrow> bool" where
  "IsActivePeer L peer n =
     (if peer = [] then False
      else case host_ref n (host L peer) of None \<Rightarrow> False | Some r \<Rightarrow> contact_open (cell n r))"

definition NodeBalance :: "string \<Rightarrow> Node \<Rightarrow> i64" where
  "NodeBalance a n = Balance (n_led n) a"

definition AdminAuthorized :: "string \<Rightarrow> Node \<Rightarrow> bool" where
  "AdminAuthorized bearer n =
     (if cfg_AdminToken (n_cfg n) = [] then True
      else let p = ''Bearer '' in
        length p < length bearer \<and> take (length p) bearer = p \<and> drop (length p) bearer = cfg_AdminToken (n_cfg n))"

section \<open>Restoring\<close>

text \<open>
  What the JSON round trip does to an envelope's values: \<open>DecodeJSON\<close> gives back every integer as a decoded
  number, a plain \<open>json.Unmarshal\<close> (which reads the stored receipts) gives it back as a \<open>float64\<close>.
\<close>

fun redecode :: "gval \<Rightarrow> gval" where
  "redecode (GInt i) = GNumber (dec64 i)"
| "redecode (GArr xs) = GArr (map redecode xs)"
| "redecode (GMap kvs) = GMap (map (\<lambda>kv. (fst kv, redecode (snd kv))) kvs)"
| "redecode v = v"

fun unmarshal :: "gval \<Rightarrow> gval" where
  "unmarshal (GInt i) = GFloat"
| "unmarshal (GNumber s) = GFloat"
| "unmarshal (GArr xs) = GArr (map unmarshal xs)"
| "unmarshal (GMap kvs) = GMap (map (\<lambda>kv. (fst kv, unmarshal (snd kv))) kvs)"
| "unmarshal v = v"

definition map_obj :: "(gval \<Rightarrow> gval) \<Rightarrow> obj \<Rightarrow> obj" where
  "map_obj f m = map (\<lambda>kv. (fst kv, f (snd kv))) m"

fun restore_keys :: "lib \<Rightarrow> ownKey list \<Rightarrow> node_error + ownKey list" where
  "restore_keys L [] = Inr []"
| "restore_keys L (ks # kss) =
     (case b64_decode (k_Seed ks) of
        None \<Rightarrow> Inl (InvalidPersistedKey (k_LocalID ks))
      | Some seed \<Rightarrow>
          if length seed \<noteq> 32 then Inl (InvalidPersistedKey (k_LocalID ks))
          else case restore_keys L kss of
              Inl e \<Rightarrow> Inl e
            | Inr ks' \<Rightarrow>
                Inr (ks\<lparr>k_priv := NewKeyFromSeed L seed, k_pub := Public (NewKeyFromSeed L seed)\<rparr> # ks'))"

definition restore_contact :: "Contact \<Rightarrow> Node \<Rightarrow> Node" where
  "restore_contact c n =
     (let c = (if int (length (c_Roots c)) \<le> sint (c_OpSeq c) then recordRoot c else c);
          (r, n) = new_cell c n
      in link_contact (c_ID c) (c_PeerHost c) r n)"

definition restore_inbound :: "channelInbound \<Rightarrow> channelInbound" where
  "restore_inbound ci = ci\<lparr>ci_replies := map (\<lambda>ir. (fst ir, map_obj redecode (snd ir))) (ci_replies ci)\<rparr>"

definition restore_peer_keys :: "(string, string) gomap \<Rightarrow> (string, bytes) gomap" where
  "restore_peer_keys ks =
     foldl (\<lambda>m kb. case b64_decode (snd kb) of
                     None \<Rightarrow> m
                   | Some pub \<Rightarrow> if length pub = 32 then mput (fst kb) pub m else m) [] ks"

definition restore_snapshot :: "lib \<Rightarrow> Config \<Rightarrow> store \<Rightarrow> int \<Rightarrow> nat \<Rightarrow> snapshot \<Rightarrow> node_error + Node" where
  "restore_snapshot L cfg s t i snap =
     (case restore_keys L (s_OwnKeys snap) of
        Inl e \<Rightarrow> Inl e
      | Inr keys \<Rightarrow>
          (case find (\<lambda>k. k_LocalID k = s_ActiveKey snap) (rev keys) of
             None \<Rightarrow> Inl (ActiveKeyMissing (s_ActiveKey snap))
           | Some active \<Rightarrow>
               (case Load (s_Ledger snap) of
                  Inl e \<Rightarrow> Inl (LedgerError e)
                | Inr led \<Rightarrow>
                    let cfg = (if cfg_Transparency cfg = [] then cfg\<lparr>cfg_Transparency := ''pseudonymous''\<rparr> else cfg);
                        n = (empty_node cfg (k_priv active) t i)
                              \<lparr>n_pub := k_pub active, n_keyLocalID := k_LocalID active, n_ownKeys := keys,
                               n_created := s_Created snap, n_currentUD := s_CurrentUD snap, n_led := led,
                               n_store := Some s,
                               n_outSeq := foldl (\<lambda>m kv. mput (fst kv) (snd kv) m) [] (s_OutSeq snap),
                               n_members := foldl (\<lambda>m x. mput (m_Name x) x m) [] (s_Members snap)\<rparr>;
                        n = foldl (\<lambda>n c. restore_contact c n) n (s_Contacts snap);
                        n = n\<lparr>n_transfers :=
                                foldl (\<lambda>m x. mput (t_ID x) (x\<lparr>t_Receipt := map_option (map_obj unmarshal) (t_Receipt x)\<rparr>) m) []
                                  (s_Transfers snap),
                              n_inState := map (\<lambda>hi. (fst hi, restore_inbound (snd hi))) (s_Inbound snap),
                              n_outbox := map (\<lambda>he. (fst he, map (map_obj redecode) (snd he))) (s_Outbox snap),
                              n_peerKeys := restore_peer_keys (s_PeerKeys snap)\<rparr>
                    in Inr (n\<lparr>n_peerKeys :=
                                foldl (\<lambda>m k. mput (keyID (cfg_Base cfg) (k_LocalID k)) (k_pub k) m) (n_peerKeys n) keys\<rparr>))))"

definition Restore :: "lib \<Rightarrow> Config \<Rightarrow> store \<Rightarrow> int \<Rightarrow> nat \<Rightarrow> node_error + Node" where
  "Restore L cfg s t i =
     (case st_saved s of
        Some snap \<Rightarrow> restore_snapshot L cfg s t i snap
      | None \<Rightarrow>
          (case NewNode L cfg t i of
             Inl e \<Rightarrow> Inl e
           | Inr n \<Rightarrow> (case SetStore s n of (Inl e, _) \<Rightarrow> Inl e | (Inr _, n) \<Rightarrow> Inr n)))"

end
