(* ===== verification/LP_Frame.thy ===== *)
theory LP_Frame
  imports LP_Views
begin

text \<open>
  What the building blocks of the operations leave alone: building an envelope, drawing an id, persisting,
  appending a transaction, writing a contact or a transfer. With these facts in the simplifier, a property
  of an operation is about the few steps that matter to it.
\<close>

section \<open>Building blocks and the fields they keep\<close>

lemma draw_id_frame [simp, frame]:
  "n_cfg (snd (draw_id L n)) = n_cfg n" "n_priv (snd (draw_id L n)) = n_priv n" "n_pub (snd (draw_id L n)) = n_pub n"
  "n_keyLocalID (snd (draw_id L n)) = n_keyLocalID n" "n_ownKeys (snd (draw_id L n)) = n_ownKeys n"
  "n_clock (snd (draw_id L n)) = n_clock n" "n_led (snd (draw_id L n)) = n_led n"
  "n_members (snd (draw_id L n)) = n_members n" "n_cells (snd (draw_id L n)) = n_cells n"
  "n_contacts (snd (draw_id L n)) = n_contacts n" "n_contactByHost (snd (draw_id L n)) = n_contactByHost n"
  "n_transfers (snd (draw_id L n)) = n_transfers n" "n_outSeq (snd (draw_id L n)) = n_outSeq n"
  "n_inState (snd (draw_id L n)) = n_inState n" "n_peerKeys (snd (draw_id L n)) = n_peerKeys n"
  "n_outbox (snd (draw_id L n)) = n_outbox n" "n_store (snd (draw_id L n)) = n_store n"
  "n_currentUD (snd (draw_id L n)) = n_currentUD n" "n_panic (snd (draw_id L n)) = n_panic n"
  "n_pushed (snd (draw_id L n)) = n_pushed n"
  by (simp_all add: draw_id_def)

lemma fst_draw_id [simp]: "fst (draw_id L n) = newID L (n_rand n)"
  by (simp add: draw_id_def)

lemma persist_frame [simp, frame]:
  "n_cfg (snd (persistLocked n)) = n_cfg n" "n_priv (snd (persistLocked n)) = n_priv n"
  "n_pub (snd (persistLocked n)) = n_pub n" "n_keyLocalID (snd (persistLocked n)) = n_keyLocalID n"
  "n_ownKeys (snd (persistLocked n)) = n_ownKeys n" "n_clock (snd (persistLocked n)) = n_clock n"
  "n_led (snd (persistLocked n)) = n_led n" "n_members (snd (persistLocked n)) = n_members n"
  "n_cells (snd (persistLocked n)) = n_cells n" "n_contacts (snd (persistLocked n)) = n_contacts n"
  "n_contactByHost (snd (persistLocked n)) = n_contactByHost n" "n_transfers (snd (persistLocked n)) = n_transfers n"
  "n_outSeq (snd (persistLocked n)) = n_outSeq n" "n_inState (snd (persistLocked n)) = n_inState n"
  "n_peerKeys (snd (persistLocked n)) = n_peerKeys n" "n_outbox (snd (persistLocked n)) = n_outbox n"
  "n_currentUD (snd (persistLocked n)) = n_currentUD n" "n_rand (snd (persistLocked n)) = n_rand n"
  "n_panic (snd (persistLocked n)) = n_panic n" "n_pushed (snd (persistLocked n)) = n_pushed n"
  by (simp_all add: persistLocked_def split: option.split)

lemma buildSigned_frame [simp, frame]:
  "n_cfg (snd (buildSigned L ty b re p n)) = n_cfg n" "n_priv (snd (buildSigned L ty b re p n)) = n_priv n"
  "n_pub (snd (buildSigned L ty b re p n)) = n_pub n" "n_keyLocalID (snd (buildSigned L ty b re p n)) = n_keyLocalID n"
  "n_ownKeys (snd (buildSigned L ty b re p n)) = n_ownKeys n" "n_clock (snd (buildSigned L ty b re p n)) = n_clock n"
  "n_led (snd (buildSigned L ty b re p n)) = n_led n" "n_members (snd (buildSigned L ty b re p n)) = n_members n"
  "n_cells (snd (buildSigned L ty b re p n)) = n_cells n" "n_contacts (snd (buildSigned L ty b re p n)) = n_contacts n"
  "n_contactByHost (snd (buildSigned L ty b re p n)) = n_contactByHost n"
  "n_transfers (snd (buildSigned L ty b re p n)) = n_transfers n"
  "n_inState (snd (buildSigned L ty b re p n)) = n_inState n" "n_peerKeys (snd (buildSigned L ty b re p n)) = n_peerKeys n"
  "n_currentUD (snd (buildSigned L ty b re p n)) = n_currentUD n" "n_store (snd (buildSigned L ty b re p n)) = n_store n"
  "n_pushed (snd (buildSigned L ty b re p n)) = n_pushed n"
  by (simp_all add: buildSigned_def Let_def draw_id_def split: sum.split)

lemma cell_frame [simp]:
  "cell (snd (buildSigned L ty b re p n)) r = cell n r" "cell (snd (persistLocked n)) r = cell n r"
  "cell (snd (draw_id L n)) r = cell n r" "cell (set_transfer tid t n) r = cell n r"
  by (simp_all add: cell_def set_transfer_def)

text \<open>The envelope that \<open>buildSigned\<close> makes, when its payload can be written.\<close>

definition envelope :: "lib \<Rightarrow> string \<Rightarrow> string \<Rightarrow> string \<Rightarrow> obj \<Rightarrow> Node \<Rightarrow> obj" where
  "envelope L ty b re p n =
     [(''lp'', GStr ''0.2''), (''id'', GStr (newID L (n_rand n))), (''type'', GStr ty),
      (''from'', GStr (cfg_Base (n_cfg n))), (''to'', GStr b), (''seq'', GInt (mget0 (n_outSeq n) (host L b) + 1)),
      (''created'', GStr (now_text L n)), (''payload'', GMap p), (''re'', if re = [] then GNil else GStr re)]"

definition signature :: "lib \<Rightarrow> obj \<Rightarrow> Node \<Rightarrow> gval" where
  "signature L env n =
     GMap [(''key'', GStr (keyID (cfg_Base (n_cfg n)) (n_keyLocalID n))), (''alg'', GStr ''ed25519''),
           (''value'', GStr (b64_encode (case SignEnvelope L env (n_priv n) of Inl _ \<Rightarrow> [] | Inr s \<Rightarrow> s)))]"

lemma SigningBytes_ok: "float_free (GMap env) \<Longrightarrow> \<exists>b. SigningBytes env = Inr b"
  using float_free_canon_ok [of "GMap (filter (\<lambda>kv. fst kv \<noteq> ''sig'') env)"]
  by (auto simp: SigningBytes_def Canonical_def canon_ok_def is_ok_iff simp del: writeCanonical.simps)

lemma buildSigned_eq:
  assumes "float_free (GMap p)"
  shows "buildSigned L ty b re p n =
    (let env = envelope L ty b re p n @ [(''sig'', signature L (envelope L ty b re p n) n)] in
     (env, n\<lparr>n_outSeq := mput (host L b) (mget0 (n_outSeq n) (host L b) + 1) (n_outSeq n), n_rand := Suc (n_rand n),
             n_outbox := mput (host L b) (mgetl (n_outbox n) (host L b) @ [env]) (n_outbox n)\<rparr>))"
proof -
  have "float_free (GMap (envelope L ty b re p n))"
    using assms by (simp add: envelope_def)
  then obtain m where "SigningBytes (envelope L ty b re p n) = Inr m"
    using SigningBytes_ok by blast
  then show ?thesis
    by (simp add: buildSigned_def envelope_def signature_def SignEnvelope_def draw_id_def now_text_def Let_def)
qed

lemma buildSigned_panic [simp]:
  "float_free (GMap p) \<Longrightarrow> n_panic (snd (buildSigned L ty b re p n)) = n_panic n"
  by (simp add: buildSigned_eq Let_def)

text \<open>Reading back the members of a built envelope.\<close>

lemma built_get:
  assumes "float_free (GMap p)"
  shows "obj_get (fst (buildSigned L ty b re p n)) ''payload'' = GMap p"
    and "envStr (fst (buildSigned L ty b re p n)) ''type'' = ty"
    and "envStr (fst (buildSigned L ty b re p n)) ''from'' = cfg_Base (n_cfg n)"
    and "envStr (fst (buildSigned L ty b re p n)) ''to'' = b"
    and "envStr (fst (buildSigned L ty b re p n)) ''id'' = newID L (n_rand n)"
  using assms by (simp_all add: buildSigned_eq Let_def envelope_def envStr_def)

lemma payloadOf_built [simp]:
  "float_free (GMap p) \<Longrightarrow> payloadOf (fst (buildSigned L ty b re p n)) = (p, True)"
  by (simp add: payloadOf_def built_get)

section \<open>Appending a transaction\<close>

lemma append_tx_cases:
  obtains (refused) e where
      "append_tx L ty ref es n = (Inl e, n\<lparr>n_rand := Suc (n_rand n)\<rparr>)" "\<not> can_append (Balance (n_led n)) es"
  | (taken) rec led where
      "append_tx L ty ref es n = (Inr rec, n\<lparr>n_rand := Suc (n_rand n), n_led := led\<rparr>)"
      "Append (n_led n) \<lparr>tx_ID = newID L (n_rand n), tx_Type = ty, tx_Ref = ref, tx_Created = now_text L n,
         tx_Entries = es\<rparr> = Inr (rec, led)" "can_append (Balance (n_led n)) es"
proof (cases "can_append (Balance (n_led n)) es")
  case True
  then show ?thesis
    using taken by (simp add: append_tx_def draw_id_def now_text_def Append_ok Let_def)
next
  case False
  then show ?thesis
    using refused Append_refused [of "n_led n" "\<lparr>tx_ID = newID L (n_rand n), tx_Type = ty, tx_Ref = ref,
        tx_Created = now_text L n, tx_Entries = es\<rparr>"]
    by (auto simp: append_tx_def draw_id_def now_text_def Let_def)
qed

lemma append_tx_frame [simp, frame]:
  "n_cfg (snd (append_tx L ty ref es n)) = n_cfg n" "n_members (snd (append_tx L ty ref es n)) = n_members n"
  "n_cells (snd (append_tx L ty ref es n)) = n_cells n" "n_contacts (snd (append_tx L ty ref es n)) = n_contacts n"
  "n_contactByHost (snd (append_tx L ty ref es n)) = n_contactByHost n" "cell (snd (append_tx L ty ref es n)) r = cell n r"
  "n_transfers (snd (append_tx L ty ref es n)) = n_transfers n" "n_panic (snd (append_tx L ty ref es n)) = n_panic n"
  "n_inState (snd (append_tx L ty ref es n)) = n_inState n" "n_peerKeys (snd (append_tx L ty ref es n)) = n_peerKeys n"
  "n_outSeq (snd (append_tx L ty ref es n)) = n_outSeq n" "n_outbox (snd (append_tx L ty ref es n)) = n_outbox n"
  "n_clock (snd (append_tx L ty ref es n)) = n_clock n" "n_store (snd (append_tx L ty ref es n)) = n_store n"
  by (cases rule: append_tx_cases [of L ty ref es n]; simp add: cell_def)+

section \<open>Writing a contact or a transfer\<close>

lemma set_cell_frame [simp, frame]:
  "n_cfg (set_cell r c n) = n_cfg n" "n_led (set_cell r c n) = n_led n" "n_members (set_cell r c n) = n_members n"
  "n_contacts (set_cell r c n) = n_contacts n" "n_contactByHost (set_cell r c n) = n_contactByHost n"
  "n_transfers (set_cell r c n) = n_transfers n" "n_panic (set_cell r c n) = n_panic n"
  "n_inState (set_cell r c n) = n_inState n" "n_peerKeys (set_cell r c n) = n_peerKeys n"
  "n_outSeq (set_cell r c n) = n_outSeq n" "n_outbox (set_cell r c n) = n_outbox n" "n_clock (set_cell r c n) = n_clock n"
  "n_rand (set_cell r c n) = n_rand n" "n_store (set_cell r c n) = n_store n" "n_priv (set_cell r c n) = n_priv n"
  "length (n_cells (set_cell r c n)) = length (n_cells n)"
  by (simp_all add: set_cell_def)

lemma cell_set_cell: "r < length (n_cells n) \<Longrightarrow> cell (set_cell r c n) r' = (if r' = r then c else cell n r')"
  by (simp add: cell_def set_cell_def)

lemma set_transfer_frame [simp, frame]:
  "n_cfg (set_transfer tid t n) = n_cfg n" "n_led (set_transfer tid t n) = n_led n"
  "n_members (set_transfer tid t n) = n_members n" "n_cells (set_transfer tid t n) = n_cells n"
  "n_contacts (set_transfer tid t n) = n_contacts n" "n_contactByHost (set_transfer tid t n) = n_contactByHost n"
  "n_panic (set_transfer tid t n) = n_panic n" "n_inState (set_transfer tid t n) = n_inState n"
  "n_peerKeys (set_transfer tid t n) = n_peerKeys n" "n_outSeq (set_transfer tid t n) = n_outSeq n"
  "n_outbox (set_transfer tid t n) = n_outbox n" "n_clock (set_transfer tid t n) = n_clock n"
  "n_rand (set_transfer tid t n) = n_rand n" "n_store (set_transfer tid t n) = n_store n"
  "n_priv (set_transfer tid t n) = n_priv n"
  "map_of (n_transfers (set_transfer tid t n)) tid' = (if tid' = tid then Some t else map_of (n_transfers n) tid')"
  by (simp_all add: set_transfer_def)

lemma contact_ref_frame [simp]:
  "contact_ref (set_cell r c n) x = contact_ref n x" "host_ref (set_cell r c n) h = host_ref n h"
  "contact_ref (set_transfer tid t n) x = contact_ref n x" "host_ref (set_transfer tid t n) h = host_ref n h"
  "contact_ref (snd (buildSigned L ty b re p n)) x = contact_ref n x"
  "host_ref (snd (buildSigned L ty b re p n)) h = host_ref n h"
  "contact_ref (snd (append_tx L ty ref es n)) x = contact_ref n x"
  "host_ref (snd (append_tx L ty ref es n)) h = host_ref n h"
  "contact_ref (snd (persistLocked n)) x = contact_ref n x" "host_ref (snd (persistLocked n)) h = host_ref n h"
  "contact_ref (snd (draw_id L n)) x = contact_ref n x" "host_ref (snd (draw_id L n)) h = host_ref n h"
  by (simp_all add: contact_ref_def host_ref_def)

section \<open>Folding an operation into a contact\<close>

definition folded :: "string \<Rightarrow> string \<Rightarrow> i64 \<Rightarrow> i64 \<Rightarrow> Contact \<Rightarrow> Contact" where
  "folded ty i a b c =
     recordRoot (c\<lparr>c_ChannelRoot := sha256 (c_ChannelRoot c @ op_text (ty, i, a, b)), c_OpSeq := c_OpSeq c + 1\<rparr>)"

lemma applyTransfer_eq: "applyTransfer i a b c = Inr (folded ''transfer'' i a b c)"
  by (simp add: applyTransfer_def ChannelNext_text folded_def del: op_text.simps)

lemma applyAdjust_eq: "applyAdjust i d c = Inr (folded ''adjust'' i d 0 c)"
  by (simp add: applyAdjust_def ChannelNext_text folded_def del: op_text.simps)

definition seeded :: "Contact \<Rightarrow> Contact" where
  "seeded c =
     recordRoot (c\<lparr>c_ChannelRoot :=
       sha256 (ChannelRoot0 (c_ID c) @ op_text (''seed'', c_ID c, c_ProposerSeed c, c_ResponderSeed c)), c_OpSeq := 0\<rparr>)"

lemma applySeed_eq: "applySeed c = Inr (seeded c)"
  by (simp add: applySeed_def ChannelNext_text seeded_def del: op_text.simps)

lemma recordRoot_keeps [simp]:
  "c_ID (recordRoot c) = c_ID c" "c_PeerBase (recordRoot c) = c_PeerBase c" "c_PeerHost (recordRoot c) = c_PeerHost c"
  "c_IAmProposer (recordRoot c) = c_IAmProposer c" "c_Active (recordRoot c) = c_Active c"
  "c_Closed (recordRoot c) = c_Closed c" "c_MyReserveOfPeer (recordRoot c) = c_MyReserveOfPeer c"
  "c_PeerReserveOfMe (recordRoot c) = c_PeerReserveOfMe c" "c_OpSeq (recordRoot c) = c_OpSeq c"
  "c_ChannelRoot (recordRoot c) = c_ChannelRoot c" "c_Busy (recordRoot c) = c_Busy c"
  "c_BusyTransfer (recordRoot c) = c_BusyTransfer c" "c_PendingAdjustID (recordRoot c) = c_PendingAdjustID c"
  "c_PendingAdjustDelta (recordRoot c) = c_PendingAdjustDelta c" "c_AppliedAdjusts (recordRoot c) = c_AppliedAdjusts c"
  "c_Diverged (recordRoot c) = c_Diverged c" "c_ProposerSeed (recordRoot c) = c_ProposerSeed c"
  "c_ResponderSeed (recordRoot c) = c_ResponderSeed c"
  by (simp_all add: recordRoot_def Let_def)

lemma folded_keeps [simp]:
  "c_ID (folded ty i a b c) = c_ID c" "c_PeerBase (folded ty i a b c) = c_PeerBase c"
  "c_PeerHost (folded ty i a b c) = c_PeerHost c" "c_Active (folded ty i a b c) = c_Active c"
  "c_Closed (folded ty i a b c) = c_Closed c" "c_MyReserveOfPeer (folded ty i a b c) = c_MyReserveOfPeer c"
  "c_PeerReserveOfMe (folded ty i a b c) = c_PeerReserveOfMe c" "c_OpSeq (folded ty i a b c) = c_OpSeq c + 1"
  "c_Busy (folded ty i a b c) = c_Busy c" "c_BusyTransfer (folded ty i a b c) = c_BusyTransfer c"
  "c_Diverged (folded ty i a b c) = c_Diverged c" "c_IAmProposer (folded ty i a b c) = c_IAmProposer c"
  "c_ChannelRoot (folded ty i a b c) = sha256 (c_ChannelRoot c @ op_text (ty, i, a, b))"
  by (simp_all add: folded_def del: op_text.simps)

lemma seeded_keeps [simp]:
  "c_ID (seeded c) = c_ID c" "c_PeerBase (seeded c) = c_PeerBase c" "c_PeerHost (seeded c) = c_PeerHost c"
  "c_Closed (seeded c) = c_Closed c" "c_MyReserveOfPeer (seeded c) = c_MyReserveOfPeer c"
  "c_PeerReserveOfMe (seeded c) = c_PeerReserveOfMe c" "c_OpSeq (seeded c) = 0" "c_Busy (seeded c) = c_Busy c"
  "c_BusyTransfer (seeded c) = c_BusyTransfer c" "c_Diverged (seeded c) = c_Diverged c"
  "c_ChannelRoot (seeded c) =
     sha256 (ChannelRoot0 (c_ID c) @ op_text (''seed'', c_ID c, c_ProposerSeed c, c_ResponderSeed c))"
  by (simp_all add: seeded_def del: op_text.simps)

lemma unlock_keeps [simp]:
  "c_ID (unlock c) = c_ID c" "c_PeerBase (unlock c) = c_PeerBase c" "c_PeerHost (unlock c) = c_PeerHost c"
  "c_Active (unlock c) = c_Active c" "c_Closed (unlock c) = c_Closed c"
  "c_MyReserveOfPeer (unlock c) = c_MyReserveOfPeer c" "c_PeerReserveOfMe (unlock c) = c_PeerReserveOfMe c"
  "c_OpSeq (unlock c) = c_OpSeq c" "c_ChannelRoot (unlock c) = c_ChannelRoot c" "c_Diverged (unlock c) = c_Diverged c"
  "\<not> c_Busy (unlock c)" "c_BusyTransfer (unlock c) = []" "c_Roots (unlock c) = c_Roots c"
  by (simp_all add: unlock_def)

end
