(* ===== verification/LP_Invariant.thy ===== *)
theory LP_Invariant
  imports LP_Frame
begin

text \<open>
  The invariant of a node and its preservation by the internal operations and the contact, transfer and
  adjustment handlers: the ledger is well formed, the two contact maps and the contact structs are
  consistent, the pool reserve of every open contact is the balance of its node wallet, and nothing has
  panicked.
\<close>

section \<open>Accounts\<close>

lemmas account_names = NodeWalletPrefix_def MemberPrefix_def FundPrefix_def AcctIssuance_def AcctTreasury_def
  FundRedistribute_def

lemma accounts_distinct [simp]:
  "NodeWalletPrefix @ h \<noteq> MemberPrefix @ x" "MemberPrefix @ x \<noteq> NodeWalletPrefix @ h"
  "NodeWalletPrefix @ h \<noteq> AcctIssuance" "AcctIssuance \<noteq> NodeWalletPrefix @ h"
  "NodeWalletPrefix @ h \<noteq> AcctTreasury" "AcctTreasury \<noteq> NodeWalletPrefix @ h"
  "NodeWalletPrefix @ h \<noteq> FundRedistribute" "FundRedistribute \<noteq> NodeWalletPrefix @ h"
  "MemberPrefix @ x \<noteq> AcctIssuance" "AcctIssuance \<noteq> MemberPrefix @ x"
  "MemberPrefix @ x \<noteq> AcctTreasury" "AcctTreasury \<noteq> MemberPrefix @ x"
  "MemberPrefix @ x \<noteq> FundRedistribute" "FundRedistribute \<noteq> MemberPrefix @ x"
  "AcctIssuance \<noteq> FundRedistribute" "FundRedistribute \<noteq> AcctIssuance" "AcctIssuance \<noteq> AcctTreasury"
  by (simp_all add: account_names)

lemma not_wallet [simp]:
  "\<not> isNodeWallet (MemberPrefix @ x)" "\<not> isNodeWallet AcctIssuance" "\<not> isNodeWallet AcctTreasury"
  "\<not> isNodeWallet FundRedistribute"
  by (simp_all add: isNodeWallet_def account_names)

lemma mk_entry_simps [simp]: "e_Account (mk_entry a x) = a" "e_Amount (mk_entry a x) = x"
  by (simp_all add: mk_entry_def)

definition wallet :: "Node \<Rightarrow> string \<Rightarrow> i64" where
  "wallet n h = Balance (n_led n) (NodeWalletPrefix @ h)"

section \<open>The invariant\<close>

definition linked :: "Node \<Rightarrow> bool" where
  "linked n \<longleftrightarrow>
     (\<forall>h r. host_ref n h = Some r \<longrightarrow> r < length (n_cells n) \<and> c_PeerHost (cell n r) = h) \<and>
     (\<forall>i r. contact_ref n i = Some r \<longrightarrow> r < length (n_cells n)) \<and>
     (\<forall>r < length (n_cells n). host_ref n (c_PeerHost (cell n r)) = Some r)"

definition mirrored :: "Node \<Rightarrow> bool" where
  "mirrored n \<longleftrightarrow>
     (\<forall>r < length (n_cells n). \<not> c_Closed (cell n r) \<longrightarrow>
        wallet n (c_PeerHost (cell n r)) = c_MyReserveOfPeer (cell n r)) \<and>
     (\<forall>h. host_ref n h = None \<longrightarrow> wallet n h = 0) \<and>
     (\<forall>r < length (n_cells n). \<not> c_Active (cell n r) \<longrightarrow> c_MyReserveOfPeer (cell n r) = 0)"

text \<open>
  A contact id names a contact that carries it; what an active contact or a transfer refers to is active,
  and only an active contact has an adjustment pending.
\<close>

definition active_id :: "Node \<Rightarrow> string \<Rightarrow> bool" where
  "active_id n i \<longleftrightarrow> (\<exists>r. contact_ref n i = Some r \<and> c_Active (cell n r))"

definition anchored :: "Node \<Rightarrow> bool" where
  "anchored n \<longleftrightarrow>
     (\<forall>i r. contact_ref n i = Some r \<longrightarrow> c_ID (cell n r) = i) \<and>
     (\<forall>r < length (n_cells n). c_Active (cell n r) \<longrightarrow> active_id n (c_ID (cell n r))) \<and>
     (\<forall>tid t. map_of (n_transfers n) tid = Some t \<longrightarrow> active_id n (t_ContactID t)) \<and>
     (\<forall>r < length (n_cells n). \<not> c_Active (cell n r) \<longrightarrow> c_PendingAdjustDelta (cell n r) = 0)"

definition node_inv :: "Node \<Rightarrow> bool" where
  "node_inv n \<longleftrightarrow> wf_ledger (n_led n) \<and> linked n \<and> mirrored n \<and> anchored n \<and> \<not> n_panic n"

lemmas inv_defs = node_inv_def linked_def mirrored_def anchored_def

lemma inv_host: "node_inv n \<Longrightarrow> host_ref n h = Some r \<Longrightarrow> r < length (n_cells n) \<and> c_PeerHost (cell n r) = h"
  by (simp add: node_inv_def linked_def)

lemma inv_contact: "node_inv n \<Longrightarrow> contact_ref n i = Some r \<Longrightarrow> r < length (n_cells n) \<and> c_ID (cell n r) = i"
  by (simp add: node_inv_def linked_def anchored_def)

lemma inv_transfer_id: "node_inv n \<Longrightarrow> map_of (n_transfers n) tid = Some t \<Longrightarrow> active_id n (t_ContactID t)"
  unfolding node_inv_def anchored_def by blast

lemma inv_transfer:
  "node_inv n \<Longrightarrow> map_of (n_transfers n) tid = Some t \<Longrightarrow> contact_ref n (t_ContactID t) = Some r \<Longrightarrow> c_Active (cell n r)"
  using inv_transfer_id [of n tid t] by (simp add: active_id_def)

text \<open>It looks at six fields only.\<close>

lemma node_inv_cong:
  assumes "n_led n = n_led n'" "n_cells n = n_cells n'" "n_contacts n = n_contacts n'"
    "n_contactByHost n = n_contactByHost n'" "n_panic n = n_panic n'" "n_transfers n = n_transfers n'"
  shows "node_inv n \<longleftrightarrow> node_inv n'"
  using assms
  by (simp add: inv_defs active_id_def wallet_def cell_def host_ref_def contact_ref_def)

lemma node_inv_update [simp]:
  "node_inv (n\<lparr>n_cfg := x1\<rparr>) = node_inv n" "node_inv (n\<lparr>n_members := x2\<rparr>) = node_inv n"
  "node_inv (n\<lparr>n_currentUD := x3\<rparr>) = node_inv n" "node_inv (n\<lparr>n_rand := x4\<rparr>) = node_inv n"
  "node_inv (n\<lparr>n_peerKeys := x5\<rparr>) = node_inv n" "node_inv (n\<lparr>n_inState := x6\<rparr>) = node_inv n"
  "node_inv (n\<lparr>n_ownKeys := x7\<rparr>) = node_inv n" "node_inv (n\<lparr>n_store := x8\<rparr>) = node_inv n"
  "node_inv (n\<lparr>n_pushed := x9\<rparr>) = node_inv n" "node_inv (n\<lparr>n_outbox := x10\<rparr>) = node_inv n"
  "node_inv (n\<lparr>n_clock := x11\<rparr>) = node_inv n"
  "node_inv (n\<lparr>n_priv := x13\<rparr>) = node_inv n" "node_inv (n\<lparr>n_pub := x14\<rparr>) = node_inv n"
  "node_inv (n\<lparr>n_keyLocalID := x15\<rparr>) = node_inv n" "node_inv (n\<lparr>n_outSeq := x16\<rparr>) = node_inv n"
  by (rule node_inv_cong; simp)+

lemma node_inv_steps [simp]:
  "node_inv (snd (persistLocked n)) = node_inv n" "node_inv (snd (draw_id L n)) = node_inv n"
  by (rule node_inv_cong; simp)+

lemma node_inv_built [simp]: "float_free (GMap p) \<Longrightarrow> node_inv (snd (buildSigned L ty b re p n)) = node_inv n"
  by (rule node_inv_cong) simp_all

lemma node_inv_error [simp]: "node_inv (snd (errorReply L env c d n)) = node_inv n"
  by (simp add: errorReply_def)

lemma node_inv_reject [simp]: "node_inv (snd (rejectTransfer L env tid c d n)) = node_inv n"
  by (simp add: rejectTransfer_def)

lemma handled_snd [simp]: "snd (reply en) = snd en" "snd (no_reply n) = n" "fst (no_reply n) = None"
  "fst (reply en) = Some (fst en)"
  by (simp_all add: reply_def no_reply_def)

text \<open>A posting that touches no node wallet.\<close>

definition internal :: "entry list \<Rightarrow> bool" where
  "internal es \<longleftrightarrow> (\<forall>h. booked es (NodeWalletPrefix @ h) = 0) \<and> wallets_once es"

lemma node_inv_internal:
  assumes "node_inv n" "internal es"
  shows "node_inv (snd (append_tx L ty ref es n))"
proof (cases rule: append_tx_cases [of L ty ref es n])
  case (taken rec led)
  have "wf_ledger led"
    using assms taken(2) by (intro led.append_inv [OF _ _ taken(2)]) (auto simp: node_inv_def internal_def)
  moreover have "Balance led (NodeWalletPrefix @ h) = Balance (n_led n) (NodeWalletPrefix @ h)" for h
    using led.append_bal [OF taken(2)] assms(2) by (simp add: internal_def)
  ultimately show ?thesis
    using assms(1) taken(1)
    by (simp add: inv_defs active_id_def wallet_def cell_def host_ref_def contact_ref_def)
qed (use assms in simp)

lemma internal_two [simp]:
  "(\<forall>h. a \<noteq> NodeWalletPrefix @ h) \<Longrightarrow> (\<forall>h. b \<noteq> NodeWalletPrefix @ h) \<Longrightarrow> \<not> isNodeWallet a \<Longrightarrow> \<not> isNodeWallet b \<Longrightarrow>
     internal [mk_entry a x, mk_entry b y]"
  by (simp add: internal_def)

text \<open>Changing a contact in place, reserve and peer unchanged.\<close>

lemma active_id_set_cell:
  "active_id n i \<Longrightarrow> r < length (n_cells n) \<Longrightarrow> c_Active (cell n r) \<longrightarrow> c_Active c \<Longrightarrow> active_id (set_cell r c n) i"
  by (auto simp: active_id_def cell_set_cell)

lemma anchored_set_cell:
  assumes "anchored n" "r < length (n_cells n)" "c_ID c = c_ID (cell n r)"
    and "c_Active c \<longrightarrow> c_Active (cell n r)" "c_Active (cell n r) \<longrightarrow> c_Active c"
    and "\<not> c_Active c \<longrightarrow> c_PendingAdjustDelta c = 0"
  shows "anchored (set_cell r c n)"
  using assms active_id_set_cell [of n _ r c] unfolding anchored_def
  by (simp add: cell_set_cell)

lemma node_inv_set_cell:
  assumes "node_inv n" "r < length (n_cells n)"
    and "c_ID c = c_ID (cell n r)"
    and "c_PeerHost c = c_PeerHost (cell n r)" "c_MyReserveOfPeer c = c_MyReserveOfPeer (cell n r)"
    and "c_Active c = c_Active (cell n r)" "c_Closed (cell n r) \<longrightarrow> c_Closed c"
    and "\<not> c_Active c \<longrightarrow> c_PendingAdjustDelta c = 0"
  shows "node_inv (set_cell r c n)"
  using assms anchored_set_cell [of n r c]
  by (auto simp: node_inv_def linked_def mirrored_def wallet_def cell_set_cell)

lemma inv_pending: "node_inv n \<Longrightarrow> r < length (n_cells n) \<Longrightarrow> \<not> c_Active (cell n r) \<Longrightarrow> c_PendingAdjustDelta (cell n r) = 0"
  by (simp add: node_inv_def anchored_def)

text \<open>Writing a transfer whose contact is active.\<close>

lemma active_id_frame [simp]:
  "active_id (set_transfer tid t n) i = active_id n i" "active_id (snd (persistLocked n)) i = active_id n i"
  "active_id (snd (buildSigned L ty b re p n)) i = active_id n i" "active_id (snd (draw_id L n)) i = active_id n i"
  "active_id (snd (append_tx L ty ref es n)) i = active_id n i"
  by (simp_all add: active_id_def)

lemma node_inv_set_transfer:
  assumes "node_inv n" "active_id n (t_ContactID t)"
  shows "node_inv (set_transfer tid t n)"
  using assms by (simp add: inv_defs wallet_def)

lemma node_inv_retransfer:
  "node_inv n \<Longrightarrow> map_of (n_transfers n) tid = Some t0 \<Longrightarrow> t_ContactID t = t_ContactID t0 \<Longrightarrow> node_inv (set_transfer tid t n)"
  using node_inv_set_transfer inv_transfer_id by metis

text \<open>Booking to a contact's wallet and moving its reserve by the same amount.\<close>

lemma set_cell_twice [simp]: "set_cell r c (set_cell r c' n) = set_cell r c n"
  by (simp add: set_cell_def)

lemma node_inv_post:
  assumes inv: "node_inv n" and r: "r < length (n_cells n)"
    and taken: "append_tx L ty ref es n = (Inr rec, n')" and once: "wallets_once es"
    and booked: "\<And>h. booked es (NodeWalletPrefix @ h) = (if h = c_PeerHost (cell n r) then x else 0)"
    and c: "c_PeerHost c = c_PeerHost (cell n r)" "c_Closed c \<or> c_MyReserveOfPeer c = c_MyReserveOfPeer (cell n r) + x"
      "c_ID c = c_ID (cell n r)" "c_Active c = c_Active (cell n r)" "c_Closed (cell n r) \<longrightarrow> c_Closed c"
    and idle: "\<not> c_Active c \<longrightarrow> c_MyReserveOfPeer c = 0 \<and> c_PendingAdjustDelta c = 0"
  shows "node_inv (set_cell r c n')"
proof -
  obtain led where n': "n' = n\<lparr>n_rand := Suc (n_rand n), n_led := led\<rparr>"
    and app: "Append (n_led n) \<lparr>tx_ID = newID L (n_rand n), tx_Type = ty, tx_Ref = ref, tx_Created = now_text L n,
         tx_Entries = es\<rparr> = Inr (rec, led)"
    using taken by (cases rule: append_tx_cases [of L ty ref es n]) auto
  have "wf_ledger led"
    using inv once by (intro led.append_inv [OF _ _ app]) (auto simp: node_inv_def)
  have wal: "wallet (set_cell r c n') h = wallet n h + (if h = c_PeerHost (cell n r) then x else 0)" for h
    using led.append_bal [OF app] booked by (simp add: wallet_def n')
  have cells: "cell (set_cell r c n') r' = (if r' = r then c else cell n r')" for r'
    using r by (simp add: n' cell_def set_cell_def)
  have refs: "host_ref (set_cell r c n') h = host_ref n h" "contact_ref (set_cell r c n') i = contact_ref n i"
    "length (n_cells (set_cell r c n')) = length (n_cells n)" "n_panic (set_cell r c n') = n_panic n"
    "n_led (set_cell r c n') = led" for h i
    by (simp_all add: n' host_ref_def contact_ref_def)
  have lnk: "linked n" and mir: "mirrored n" and "\<not> n_panic n"
    using inv by (simp_all add: node_inv_def)
  have here: "host_ref n (c_PeerHost (cell n r)) = Some r"
    using lnk r by (simp add: linked_def)
  have only: "r' = r" if "c_PeerHost (cell n r') = c_PeerHost (cell n r)" "r' < length (n_cells n)" for r'
    using lnk r that unfolding linked_def by (metis option.inject)
  have "linked (set_cell r c n')"
    using lnk c(1) unfolding linked_def refs cells by simp
  moreover have "mirrored (set_cell r c n')"
    unfolding mirrored_def refs
  proof (intro conjI allI impI)
    fix r' assume r': "r' < length (n_cells n)" "\<not> c_Closed (cell (set_cell r c n') r')"
    show "wallet (set_cell r c n') (c_PeerHost (cell (set_cell r c n') r')) =
        c_MyReserveOfPeer (cell (set_cell r c n') r')"
    proof (cases "r' = r")
      case True
      then show ?thesis
        using mir r c r'(2) by (simp add: wal cells mirrored_def)
    next
      case False
      then have "c_PeerHost (cell n r') \<noteq> c_PeerHost (cell n r)"
        using only r'(1) by blast
      then show ?thesis
        using mir r' False by (simp add: wal cells mirrored_def)
    qed
  next
    fix h assume "host_ref n h = None"
    then have "h \<noteq> c_PeerHost (cell n r)" "wallet n h = 0"
      using here mir by (auto simp: mirrored_def)
    then show "wallet (set_cell r c n') h = 0"
      by (simp add: wal)
  next
    fix r' assume "r' < length (n_cells n)" "\<not> c_Active (cell (set_cell r c n') r')"
    then show "c_MyReserveOfPeer (cell (set_cell r c n') r') = 0"
      using mir c r idle by (auto simp: cells mirrored_def split: if_splits)
  qed
  moreover have "anchored (set_cell r c n')"
  proof (rule anchored_set_cell)
    show "anchored n'"
      using inv n' by (simp add: node_inv_def anchored_def active_id_def contact_ref_def cell_def)
    show "r < length (n_cells n')"
      using r n' by simp
  qed (use c idle n' in \<open>simp_all add: cell_def\<close>)
  ultimately show ?thesis
    using \<open>wf_ledger led\<close> \<open>\<not> n_panic n\<close> by (simp add: node_inv_def n')
qed

end
