(* ===== verification/LP_Preserve.thy ===== *)
theory LP_Preserve
  imports LP_Invariant
begin

text \<open>
  Every operation of a node keeps its invariant, one lemma per operation; then the step relation of a node
  and the invariant of all its reachable states.
\<close>

section \<open>Internal operations\<close>

lemma sndI: "f n = (x, n') \<Longrightarrow> n' = snd (f n)"
  by simp

lemma inv_append_pair:
  "append_tx L ty ref es n = (res, n') \<Longrightarrow> node_inv n \<Longrightarrow> internal es \<Longrightarrow> node_inv n'"
  using node_inv_internal [of n es L ty ref] by simp

lemma inv_persist_pair: "persistLocked n = (res, n') \<Longrightarrow> node_inv n \<Longrightarrow> node_inv n'"
  using node_inv_steps(1) [of n] by simp

lemma AddMember_inv: "node_inv n \<Longrightarrow> node_inv (snd (AddMember L name d g n))"
  by (auto simp: AddMember_def Let_def split: option.splits prod.splits sum.splits
      dest!: inv_append_pair)

lemma DeactivateMember_inv: "node_inv n \<Longrightarrow> node_inv (snd (DeactivateMember name n))"
  by (simp add: DeactivateMember_def Let_def split: option.split)

lemma Reactivate_inv: "node_inv n \<Longrightarrow> node_inv (snd (Reactivate name n))"
  by (simp add: Reactivate_def Let_def split: option.split)

lemma Pay_inv: "node_inv n \<Longrightarrow> node_inv (snd (Pay L a b x n))"
  by (auto simp: Pay_def split: option.splits prod.splits sum.splits
      dest!: inv_append_pair inv_persist_pair)

lemma leave_target_wallet:
  "leave_target n mem mode to = Inr (dst, typ) \<Longrightarrow> (\<forall>h. dst \<noteq> NodeWalletPrefix @ h) \<and> \<not> isNodeWallet dst"
  by (auto simp: leave_target_def isNodeWallet_def account_names split: if_splits)

lemma Leave_inv: "node_inv n \<Longrightarrow> node_inv (snd (Leave L mem mode to n))"
  by (auto simp: Leave_def Let_def split: option.splits prod.splits sum.splits if_splits
      dest!: inv_append_pair leave_target_wallet)

lemma booked_members: "booked (map (\<lambda>x. mk_entry (MemberPrefix @ x) (f x)) xs) (NodeWalletPrefix @ h) = 0"
  by (induction xs) simp_all

lemma wallets_once_members:
  "wallets_once (map (\<lambda>x. mk_entry (MemberPrefix @ x) (f x)) xs @ es) \<longleftrightarrow> wallets_once es"
  by (induction xs) simp_all

lemma redistribute_inv: "node_inv n \<Longrightarrow> node_inv (snd (redistributeLocked L n))"
proof -
  have "internal (mk_entry FundRedistribute y # map (\<lambda>name. mk_entry (MemberPrefix @ name) x) xs)" for x y xs
    using wallets_once_members [of "\<lambda>_. x" xs "[]"] by (simp add: internal_def booked_members)
  then show "node_inv n \<Longrightarrow> ?thesis"
    by (auto simp: redistributeLocked_def Let_def split: prod.splits sum.splits dest!: inv_append_pair)
qed

lemma ud_each_inv: "node_inv n \<Longrightarrow> node_inv (snd (ud_each L b names n))"
  by (induction names arbitrary: n)
    (auto simp: Let_def split: prod.splits sum.splits dest!: inv_append_pair)

lemma ud_batch_inv: "node_inv n \<Longrightarrow> node_inv (snd (ud_batch L b n))"
proof -
  have "internal (ud_entries n b @ [mk_entry AcctIssuance x])" for x
    by (simp add: internal_def ud_entries_def booked_members wallets_once_members)
  then show "node_inv n \<Longrightarrow> ?thesis"
    by (auto simp: ud_batch_def Let_def split: prod.splits sum.splits dest!: inv_append_pair)
qed

lemma inv_ud_pairs:
  "redistributeLocked L n = (x, n') \<Longrightarrow> node_inv n \<Longrightarrow> node_inv n'"
  "ud_batch L b n = (x, n') \<Longrightarrow> node_inv n \<Longrightarrow> node_inv n'"
  "ud_each L b names n = (x, n') \<Longrightarrow> node_inv n \<Longrightarrow> node_inv n'"
  using redistribute_inv [of n L] ud_batch_inv [of n L b] ud_each_inv [of n L b names] by simp_all

lemma RunUD_inv: "node_inv n \<Longrightarrow> node_inv (snd (RunUD L n))"
  by (auto simp: RunUD_def Let_def split: prod.splits sum.splits dest: inv_ud_pairs)

section \<open>Contacts\<close>

lemma linked_node:
  assumes "linked n" "host_ref n (c_PeerHost c) = None"
    and refs: "\<And>h. host_ref n' h = (if h = c_PeerHost c then Some (length (n_cells n)) else host_ref n h)"
      "\<And>i. contact_ref n' i = (if i = cid then Some (length (n_cells n)) else contact_ref n i)"
    and cells: "n_cells n' = n_cells n @ [c]"
  shows "linked n'"
proof -
  have old: "cell n' r = cell n r" if "r < length (n_cells n)" for r
    using that by (simp add: cell_def cells nth_append)
  have new: "cell n' (length (n_cells n)) = c" and len: "length (n_cells n') = Suc (length (n_cells n))"
    by (simp_all add: cell_def cells)
  show ?thesis
    unfolding linked_def len
  proof (intro conjI allI impI)
    fix h r assume "host_ref n' h = Some r"
    then show "r < Suc (length (n_cells n))" "c_PeerHost (cell n' r) = h"
      using assms(1) by (auto simp: refs linked_def old new less_Suc_eq split: if_splits)
  next
    fix i r assume "contact_ref n' i = Some r"
    then show "r < Suc (length (n_cells n))"
      using assms(1) by (auto simp: refs linked_def less_Suc_eq split: if_splits)
  next
    fix r assume "r < Suc (length (n_cells n))"
    then consider "r = length (n_cells n)" | "r < length (n_cells n)"
      by linarith
    then show "host_ref n' (c_PeerHost (cell n' r)) = Some r"
    proof cases
      case 2
      then have "host_ref n (c_PeerHost (cell n r)) = Some r"
        using assms(1) by (simp add: linked_def)
      then show ?thesis
        using assms(2) 2 by (auto simp: refs old)
    qed (simp add: refs new)
  qed
qed

lemma node_inv_new:
  assumes inv: "node_inv n" and free: "host_ref n (c_PeerHost c) = None"
    and refs: "\<And>h. host_ref n' h = (if h = c_PeerHost c then Some (length (n_cells n)) else host_ref n h)"
      "\<And>i. contact_ref n' i = (if i = c_ID c then Some (length (n_cells n)) else contact_ref n i)"
    and cells: "n_cells n' = n_cells n @ [c]" and same: "n_transfers n' = n_transfers n" "n_panic n' = n_panic n"
    and led: "wf_ledger (n_led n')"
    and wal: "\<And>h. wallet n' h = (if h = c_PeerHost c then c_MyReserveOfPeer c else wallet n h)"
    and act: "c_Active c \<or> contact_ref n (c_ID c) = None \<and> c_MyReserveOfPeer c = 0 \<and> c_PendingAdjustDelta c = 0"
  shows "node_inv n'"
proof -
  have old: "cell n' r = cell n r" if "r < length (n_cells n)" for r
    using that by (simp add: cell_def cells nth_append)
  have new: "cell n' (length (n_cells n)) = c" and len: "length (n_cells n') = Suc (length (n_cells n))"
    by (simp_all add: cell_def cells)
  have lnk: "linked n" and mir: "mirrored n" and anc: "anchored n"
    using inv by (simp_all add: node_inv_def)
  have away: "c_PeerHost (cell n r) \<noteq> c_PeerHost c" if "r < length (n_cells n)" for r
  proof
    assume "c_PeerHost (cell n r) = c_PeerHost c"
    moreover have "host_ref n (c_PeerHost (cell n r)) = Some r"
      using lnk that unfolding linked_def by blast
    ultimately show False
      using free by simp
  qed
  have keep: "active_id n' i" if "active_id n i" for i
  proof (cases "i = c_ID c")
    case True
    then show ?thesis
      using act that by (auto simp: active_id_def refs new)
  next
    case False
    then show ?thesis
      using that inv_contact [OF inv] by (auto simp: active_id_def refs old)
  qed
  have cells_cases: thesis if "r < Suc (length (n_cells n))"
      and "r = length (n_cells n) \<Longrightarrow> cell n' r = c \<Longrightarrow> thesis"
      and "r < length (n_cells n) \<Longrightarrow> cell n' r = cell n r \<Longrightarrow> thesis" for r thesis
    using that old new by (cases "r = length (n_cells n)") simp_all
  have "mirrored n'"
    unfolding mirrored_def len
  proof (intro conjI allI impI)
    fix r assume r: "r < Suc (length (n_cells n))" "\<not> c_Closed (cell n' r)"
    from r(1) show "wallet n' (c_PeerHost (cell n' r)) = c_MyReserveOfPeer (cell n' r)"
    proof (rule cells_cases)
      assume "cell n' r = c"
      then show ?thesis
        by (simp add: wal)
    next
      assume "r < length (n_cells n)" "cell n' r = cell n r"
      then show ?thesis
        using away [of r] mir r(2) by (simp add: wal mirrored_def)
    qed
  next
    fix h assume "host_ref n' h = None"
    then show "wallet n' h = 0"
      using mir by (simp add: refs wal mirrored_def split: if_splits)
  next
    fix r assume "r < Suc (length (n_cells n))" "\<not> c_Active (cell n' r)"
    then show "c_MyReserveOfPeer (cell n' r) = 0"
      using mir act unfolding mirrored_def by (metis cells_cases)
  qed
  moreover have "anchored n'"
    unfolding anchored_def len same
  proof (intro conjI allI impI)
    fix i r assume "contact_ref n' i = Some r"
    then show "c_ID (cell n' r) = i"
      using inv_contact [OF inv, of i r] by (auto simp: refs new old split: if_splits)
  next
    fix r assume r: "r < Suc (length (n_cells n))" "c_Active (cell n' r)"
    show "active_id n' (c_ID (cell n' r))"
    proof (cases "r = length (n_cells n)")
      case True
      then show ?thesis
        using r by (simp add: active_id_def refs new)
    next
      case False
      then have "r < length (n_cells n)"
        using r by simp
      then show ?thesis
        using anc r keep by (simp add: anchored_def old)
    qed
  next
    fix tid t assume "map_of (n_transfers n) tid = Some t"
    then show "active_id n' (t_ContactID t)"
      using inv_transfer_id [OF inv] keep by blast
  next
    fix r assume "r < Suc (length (n_cells n))" "\<not> c_Active (cell n' r)"
    then show "c_PendingAdjustDelta (cell n' r) = 0"
      using act inv_pending [OF inv] by (metis cells_cases)
  qed
  ultimately show ?thesis
    using linked_node [OF lnk free refs cells] led inv by (simp add: node_inv_def same)
qed

lemma new_refs:
  "host_ref (link_contact cid h r n) h' = (if h' = h then Some r else host_ref n h')"
  "contact_ref (link_contact cid h r n) i = (if i = cid then Some r else contact_ref n i)"
  "n_cells (link_contact cid h r n) = n_cells n" "n_transfers (link_contact cid h r n) = n_transfers n"
  "n_led (link_contact cid h r n) = n_led n" "n_panic (link_contact cid h r n) = n_panic n"
  by (simp_all add: link_contact_def host_ref_def contact_ref_def)

lemma new_cell_frame:
  "host_ref (n\<lparr>n_cells := cs\<rparr>) h = host_ref n h" "contact_ref (n\<lparr>n_cells := cs\<rparr>) i = contact_ref n i"
  "host_ref (n\<lparr>n_led := l\<rparr>) h = host_ref n h" "contact_ref (n\<lparr>n_led := l\<rparr>) i = contact_ref n i"
  "host_ref (n\<lparr>n_rand := k\<rparr>) h = host_ref n h" "contact_ref (n\<lparr>n_rand := k\<rparr>) i = contact_ref n i"
  "wallet (n\<lparr>n_cells := cs\<rparr>) h = wallet n h" "wallet (link_contact cid h' r n) h = wallet n h"
  by (simp_all add: host_ref_def contact_ref_def wallet_def link_contact_def)

lemma inv_unknown_wallet: "node_inv n \<Longrightarrow> host_ref n h = None \<Longrightarrow> wallet n h = 0"
  by (simp add: node_inv_def mirrored_def)

lemma OpenContact_inv:
  assumes "node_inv n" and fresh: "contact_ref n (newID L (n_rand n)) = None"
  shows "node_inv (snd (OpenContact L b x note n))"
proof (cases "sint x \<le> 0 \<or> host_ref n (host L b) \<noteq> None")
  case True
  then show ?thesis
    using assms by (auto simp: OpenContact_def Let_def)
next
  case False
  define cid c where "cid = newID L (n_rand n)" and "c = empty_contact cid b (host L b) True x 0"
  define n1 where "n1 = link_contact cid (host L b) (length (n_cells n)) ((snd (draw_id L n))\<lparr>n_cells := n_cells n @ [c]\<rparr>)"
  have "node_inv n1"
    by (rule node_inv_new [OF assms(1), of c])
      (use False assms in \<open>simp_all add: n1_def new_refs new_cell_frame c_def cid_def empty_contact_def node_inv_def
         wallet_def mirrored_def\<close>)
  then show ?thesis
    using False
    by (simp add: OpenContact_def Let_def new_cell_def n1_def c_def cid_def case_prod_beta)
qed

text \<open>A posting to the node wallet of a contact.\<close>

lemma wallet_posting:
  assumes "\<forall>h. a \<noteq> NodeWalletPrefix @ h" "\<not> isNodeWallet a"
  shows "booked [mk_entry (NodeWalletPrefix @ p) x, mk_entry a y] (NodeWalletPrefix @ h) = (if h = p then x else 0)"
    and "booked [mk_entry a y, mk_entry (NodeWalletPrefix @ p) x] (NodeWalletPrefix @ h) = (if h = p then x else 0)"
    and "wallets_once [mk_entry (NodeWalletPrefix @ p) x, mk_entry a y]"
    and "wallets_once [mk_entry a y, mk_entry (NodeWalletPrefix @ p) x]"
  using assms by auto

lemma append_tx_taken:
  assumes "append_tx L ty ref es n = (Inr rec, n')"
  obtains led where "n' = n\<lparr>n_rand := Suc (n_rand n), n_led := led\<rparr>"
    "Append (n_led n) \<lparr>tx_ID = newID L (n_rand n), tx_Type = ty, tx_Ref = ref, tx_Created = now_text L n,
       tx_Entries = es\<rparr> = Inr (rec, led)"
  using assms by (cases rule: append_tx_cases [of L ty ref es n]) auto

lemma refused_inv: "append_tx L ty ref es n = (Inl e, n') \<Longrightarrow> node_inv n' = node_inv n"
  by (cases rule: append_tx_cases [of L ty ref es n]) auto

lemma handleContactPropose_inv:
  assumes inv: "node_inv n"
  shows "node_inv (snd (handleContactPropose L env n))"
proof -
  define cid h rs where "cid = pStr (fst (payloadOf env)) ''contact_id''" and "h = host L (envStr env ''from'')"
    and "rs = cfg_AutoAcceptSeed (n_cfg n)"
  have main: "node_inv (link_contact cid h (length (n_cells n')) (n'\<lparr>n_cells := n_cells n' @ [c]\<rparr>))"
    if taken: "seedLedger L h rs n = (Inr rec, n')" and free: "host_ref n h = None"
      and c: "c_PeerHost c = h" "c_ID c = cid" "c_Active c" "c_MyReserveOfPeer c = rs" for rec n' c
  proof -
    obtain led where n': "n' = n\<lparr>n_rand := Suc (n_rand n), n_led := led\<rparr>"
      and app: "Append (n_led n) \<lparr>tx_ID = newID L (n_rand n), tx_Type = ''contact.seed'', tx_Ref = [],
          tx_Created = now_text L n, tx_Entries = [mk_entry (NodeWalletPrefix @ h) rs, mk_entry AcctIssuance (- rs)]\<rparr>
        = Inr (rec, led)"
      using taken unfolding seedLedger_def by (rule append_tx_taken)
    have wf: "wf_ledger led"
      using inv by (intro led.append_inv [OF _ _ app]) (auto simp: node_inv_def)
    have wal: "wallet n' h' = (if h' = h then rs else wallet n h')" for h'
      using led.append_bal [OF app] inv_unknown_wallet [OF inv free] by (auto simp: wallet_def n')
    show ?thesis
    proof (rule node_inv_new [OF inv, of c])
      fix h'
      show "wallet (link_contact cid h (length (n_cells n')) (n'\<lparr>n_cells := n_cells n' @ [c]\<rparr>)) h' =
          (if h' = c_PeerHost c then c_MyReserveOfPeer c else wallet n h')"
        unfolding new_cell_frame wal c ..
    qed (use wf free c in \<open>simp_all add: new_refs new_cell_frame n'\<close>)
  qed
  obtain res n' where led: "seedLedger L h rs n = (res, n')"
    by (cases "seedLedger L h rs n")
  show ?thesis
  proof (cases "host_ref n h = None")
    case True
    show ?thesis
    proof (cases res)
      case (Inl e)
      then have "node_inv n'"
        using refused_inv inv led by (auto simp: seedLedger_def)
      then show ?thesis
        using inv led Inl True
        by (simp add: handleContactPropose_def case_prod_beta Let_def flip: cid_def h_def rs_def)
    next
      case (Inr rec)
      then show ?thesis
        using inv led main [OF _ True] True
        by (simp add: handleContactPropose_def case_prod_beta Let_def applySeed_eq new_cell_def empty_contact_def
            flip: cid_def h_def rs_def)
    qed
  qed (use inv in \<open>simp add: handleContactPropose_def case_prod_beta Let_def h_def\<close>)
qed

lemma append_tx_set_cell:
  "append_tx L ty ref es (set_cell r c n) =
     (fst (append_tx L ty ref es n), set_cell r c (snd (append_tx L ty ref es n)))"
  by (simp add: append_tx_def draw_id_def now_text_def set_cell_def Let_def split: sum.split)

text \<open>A pending contact becomes active.\<close>

lemma node_inv_activate:
  assumes inv: "node_inv n" and r: "contact_ref n i = Some r"
    and c: "c_ID c = c_ID (cell n r)" "c_PeerHost c = c_PeerHost (cell n r)" "c_MyReserveOfPeer c = c_MyReserveOfPeer (cell n r)"
      "c_Active c" "c_Closed (cell n r) \<longrightarrow> c_Closed c"
  shows "node_inv (set_cell r c n)"
proof -
  have len: "r < length (n_cells n)" and i: "c_ID (cell n r) = i"
    using inv_contact [OF inv r] by auto
  have here: "active_id (set_cell r c n) i"
    using r len c(4) by (simp add: active_id_def cell_set_cell)
  have keep: "active_id n j \<Longrightarrow> active_id (set_cell r c n) j" for j
    using active_id_set_cell len c(4) by blast
  have "anchored n"
    using inv by (simp add: node_inv_def)
  then have "anchored (set_cell r c n)"
    using len i here keep c inv_contact [OF inv] unfolding anchored_def by (auto simp: cell_set_cell)
  then show ?thesis
    using inv len c by (auto simp: node_inv_def linked_def mirrored_def wallet_def cell_set_cell)
qed

lemma handleContactAccept_inv:
  assumes inv: "node_inv n"
  shows "node_inv (snd (handleContactAccept L env n))"
proof -
  define cid where "cid = pStr (fst (payloadOf env)) ''contact_id''"
  show ?thesis
  proof (cases "contact_ref n cid")
    case None
    then show ?thesis
      using inv by (simp add: handleContactAccept_def case_prod_beta Let_def cid_def)
  next
    case (Some r)
    define c rs where "c = cell n r" and "rs = fst (pInt (fst (payloadOf env)) ''my_seed'')"
    define c1 where "c1 = c\<lparr>c_ResponderSeed := rs\<rparr>"
    have len: "r < length (n_cells n)"
      using inv_contact [OF inv Some] by simp
    have idle: "\<not> c_Active c \<Longrightarrow> c_MyReserveOfPeer c = 0 \<and> c_PendingAdjustDelta c = 0"
      using inv len inv_pending [OF inv len] by (simp add: node_inv_def mirrored_def c_def)
    have step: "node_inv (set_cell r c1 n)" if "\<not> c_Active c"
      by (rule node_inv_set_cell [OF inv len]) (use idle that in \<open>simp_all add: c1_def c_def\<close>)
    have main: "node_inv (set_cell r cF n')"
      if idle': "\<not> c_Active c" and led: "seedLedger L (c_PeerHost c) (c_ProposerSeed c) (set_cell r c1 n) = (Inr rec, n')"
        and cF: "c_ID cF = c_ID c" "c_PeerHost cF = c_PeerHost c" "c_MyReserveOfPeer cF = c_ProposerSeed c" "c_Active cF"
          "c_Closed cF = c_Closed c" for rec n' cF
    proof -
      let ?a = "c1\<lparr>c_Active := True\<rparr>"
      have act: "node_inv (set_cell r ?a n)"
        by (rule node_inv_activate [OF inv Some]) (simp_all add: c1_def c_def)
      have "node_inv (set_cell r cF (set_cell r ?a n'))"
      proof (rule node_inv_post [OF act])
        show "append_tx L ''contact.seed'' []
            [mk_entry (NodeWalletPrefix @ c_PeerHost c) (c_ProposerSeed c), mk_entry AcctIssuance (- c_ProposerSeed c)]
            (set_cell r ?a n) = (Inr rec, set_cell r ?a n')"
          using led unfolding seedLedger_def append_tx_set_cell by auto
      qed (use idle idle' len cF in \<open>auto simp: cell_set_cell c1_def c_def\<close>)
      then show ?thesis
        by simp
    qed
    obtain res n' where led: "seedLedger L (c_PeerHost c) (c_ProposerSeed c) (set_cell r c1 n) = (res, n')"
      by (cases "seedLedger L (c_PeerHost c) (c_ProposerSeed c) (set_cell r c1 n)")
    have ref: "node_inv n'" if "res = Inl e" "\<not> c_Active c" for e
      using led that refused_inv step by (auto simp: seedLedger_def)
    show ?thesis
    proof (cases "c_PeerHost c = host L (envStr env ''from'')")
      case True
      show ?thesis
        using inv Some led ref main True
        by (cases res) (simp_all add: handleContactAccept_def case_prod_beta Let_def applySeed_eq c1_def
            flip: cid_def c_def rs_def)
    qed (use inv Some in \<open>simp add: handleContactAccept_def case_prod_beta Let_def flip: cid_def c_def\<close>)
  qed
qed

lemma inv_idle:
  "node_inv n \<Longrightarrow> r < length (n_cells n) \<Longrightarrow> \<not> c_Active (cell n r) \<Longrightarrow>
     c_MyReserveOfPeer (cell n r) = 0 \<and> c_PendingAdjustDelta (cell n r) = 0"
  by (simp add: node_inv_def mirrored_def anchored_def)

lemma inv_close:
  "node_inv n \<Longrightarrow> host_ref n h = Some r \<Longrightarrow> node_inv (set_cell r (cell n r\<lparr>c_Closed := True\<rparr>) n)"
  using inv_host [of n h r] inv_idle [of n r] by (intro node_inv_set_cell) auto

lemma CloseContact_inv: "node_inv n \<Longrightarrow> node_inv (snd (CloseContact L b note n))"
  using inv_close by (simp add: CloseContact_def case_prod_beta Let_def split: option.split)

lemma handleContactClose_inv: "node_inv n \<Longrightarrow> node_inv (snd (handleContactClose L env n))"
  using inv_close by (simp add: handleContactClose_def split: option.split)

lemma handleContactUpdate_inv: "node_inv n \<Longrightarrow> node_inv (snd (handleContactUpdate L env n))"
  by (simp add: handleContactUpdate_def split: option.split)

lemma set_cell_same [simp]: "set_cell r (cell n r) n = n"
  by (cases "r < length (n_cells n)") (simp_all add: set_cell_def cell_def)

lemma RetireReserve_inv:
  assumes inv: "node_inv n"
  shows "node_inv (snd (RetireReserve L b n))"
proof (cases "host_ref n (host L b)")
  case (Some r)
  define bal where "bal = Balance (n_led n) (NodeWalletPrefix @ host L b)"
  have len: "r < length (n_cells n)" "c_PeerHost (cell n r) = host L b"
    using inv_host [OF inv Some] by auto
  obtain res n' where led: "append_tx L ''reserve.retire'' []
      [mk_entry (NodeWalletPrefix @ host L b) (- bal), mk_entry AcctIssuance bal] n = (res, n')"
    by (rule prod.exhaust)
  have "node_inv n'" if "c_Closed (cell n r)"
  proof (cases res)
    case (Inr rec)
    have "node_inv (set_cell r (cell n r) n')"
      by (rule node_inv_post [OF inv len(1) led [unfolded Inr]])
        (use inv_idle [OF inv len(1)] that len(2) in auto)
    moreover have "cell n r = cell n' r"
      using led append_tx_frame(6) by (metis snd_conv)
    ultimately show ?thesis
      by simp
  qed (use inv led refused_inv in auto)
  then show ?thesis
    using inv Some led
    by (simp add: RetireReserve_def Let_def case_prod_beta flip: bal_def split: sum.split)
qed (use inv in \<open>simp add: RetireReserve_def Let_def\<close>)

section \<open>Expiry\<close>

text \<open>Expiring a transfer touches its state, and the lock of the contact it holds.\<close>

lemma release_lock_frame [simp]:
  "n_led (release_lock i tid n) = n_led n" "n_contacts (release_lock i tid n) = n_contacts n"
  "n_contactByHost (release_lock i tid n) = n_contactByHost n" "n_transfers (release_lock i tid n) = n_transfers n"
  "n_cfg (release_lock i tid n) = n_cfg n" "n_clock (release_lock i tid n) = n_clock n"
  "n_members (release_lock i tid n) = n_members n" "n_rand (release_lock i tid n) = n_rand n"
  "n_outSeq (release_lock i tid n) = n_outSeq n" "n_outbox (release_lock i tid n) = n_outbox n"
  "length (n_cells (release_lock i tid n)) = length (n_cells n)"
  "host_ref (release_lock i tid n) h = host_ref n h" "contact_ref (release_lock i tid n) j = contact_ref n j"
  by (simp_all add: release_lock_def split: option.split)

lemma release_lock_cell:
  "cell (release_lock i tid n) r = cell n r \<or> cell (release_lock i tid n) r = unlock (cell n r)"
proof (cases "\<exists>r'. contact_ref n i = Some r' \<and> r' < length (n_cells n)")
  case False
  then show ?thesis
    by (auto simp: release_lock_def set_cell_def cell_def list_update_beyond not_less split: option.split)
qed (auto simp: release_lock_def cell_set_cell)

lemma unlock_keeps_more [simp]:
  "c_PendingAdjustID (unlock c) = c_PendingAdjustID c" "c_PendingAdjustDelta (unlock c) = c_PendingAdjustDelta c"
  "c_IAmProposer (unlock c) = c_IAmProposer c" "c_AppliedAdjusts (unlock c) = c_AppliedAdjusts c"
  "c_ProposerSeed (unlock c) = c_ProposerSeed c" "c_ResponderSeed (unlock c) = c_ResponderSeed c"
  by (simp_all add: unlock_def)

lemma cell_release_lock [simp]:
  "c_ID (cell (release_lock i tid n) r) = c_ID (cell n r)"
  "c_PeerBase (cell (release_lock i tid n) r) = c_PeerBase (cell n r)"
  "c_PeerHost (cell (release_lock i tid n) r) = c_PeerHost (cell n r)"
  "c_Active (cell (release_lock i tid n) r) = c_Active (cell n r)"
  "c_Closed (cell (release_lock i tid n) r) = c_Closed (cell n r)"
  "c_Diverged (cell (release_lock i tid n) r) = c_Diverged (cell n r)"
  "c_MyReserveOfPeer (cell (release_lock i tid n) r) = c_MyReserveOfPeer (cell n r)"
  "c_PeerReserveOfMe (cell (release_lock i tid n) r) = c_PeerReserveOfMe (cell n r)"
  "c_OpSeq (cell (release_lock i tid n) r) = c_OpSeq (cell n r)"
  "c_ChannelRoot (cell (release_lock i tid n) r) = c_ChannelRoot (cell n r)"
  "c_PendingAdjustID (cell (release_lock i tid n) r) = c_PendingAdjustID (cell n r)"
  "c_PendingAdjustDelta (cell (release_lock i tid n) r) = c_PendingAdjustDelta (cell n r)"
  using release_lock_cell [of i tid n r] by auto

lemma release_lock_inv: "node_inv n \<Longrightarrow> node_inv (release_lock i tid n)"
  using inv_contact [of n i] inv_idle [of n]
  by (auto simp: release_lock_def split: option.split intro!: node_inv_set_cell)

lemma expire_not_due: "expireIfDueLocked L tid now n = (False, n') \<Longrightarrow> n' = n"
  by (auto simp: expireIfDueLocked_def split: option.splits if_splits sum.splits)

lemma expire_cases:
  obtains "expireIfDueLocked L tid now n = (False, n)"
  | t st where "map_of (n_transfers n) tid = Some t"
      "expireIfDueLocked L tid now n =
         (True, release_lock (t_ContactID t) (t_ID t) (set_transfer tid (t\<lparr>t_State := st\<rparr>) n))"
proof (cases "fst (expireIfDueLocked L tid now n)")
  case True
  then show ?thesis
    using that(2) by (auto simp: expireIfDueLocked_def split: option.splits if_splits sum.splits)
next
  case False
  then show ?thesis
    using that(1) expire_not_due by (metis prod.collapse)
qed

lemma expire_frame [simp]:
  "n_led (snd (expireIfDueLocked L tid now n)) = n_led n"
  "n_contacts (snd (expireIfDueLocked L tid now n)) = n_contacts n"
  "n_contactByHost (snd (expireIfDueLocked L tid now n)) = n_contactByHost n"
  "n_cfg (snd (expireIfDueLocked L tid now n)) = n_cfg n" "n_clock (snd (expireIfDueLocked L tid now n)) = n_clock n"
  "n_members (snd (expireIfDueLocked L tid now n)) = n_members n"
  "n_rand (snd (expireIfDueLocked L tid now n)) = n_rand n"
  "n_outSeq (snd (expireIfDueLocked L tid now n)) = n_outSeq n"
  "n_outbox (snd (expireIfDueLocked L tid now n)) = n_outbox n"
  "length (n_cells (snd (expireIfDueLocked L tid now n))) = length (n_cells n)"
  "host_ref (snd (expireIfDueLocked L tid now n)) h = host_ref n h"
  "contact_ref (snd (expireIfDueLocked L tid now n)) j = contact_ref n j"
  "c_ID (cell (snd (expireIfDueLocked L tid now n)) r) = c_ID (cell n r)"
  "c_PeerBase (cell (snd (expireIfDueLocked L tid now n)) r) = c_PeerBase (cell n r)"
  "c_PeerHost (cell (snd (expireIfDueLocked L tid now n)) r) = c_PeerHost (cell n r)"
  "c_Active (cell (snd (expireIfDueLocked L tid now n)) r) = c_Active (cell n r)"
  "c_Closed (cell (snd (expireIfDueLocked L tid now n)) r) = c_Closed (cell n r)"
  "c_MyReserveOfPeer (cell (snd (expireIfDueLocked L tid now n)) r) = c_MyReserveOfPeer (cell n r)"
  "c_PeerReserveOfMe (cell (snd (expireIfDueLocked L tid now n)) r) = c_PeerReserveOfMe (cell n r)"
  "c_OpSeq (cell (snd (expireIfDueLocked L tid now n)) r) = c_OpSeq (cell n r)"
  "c_ChannelRoot (cell (snd (expireIfDueLocked L tid now n)) r) = c_ChannelRoot (cell n r)"
  by (cases rule: expire_cases [of L tid now n]; simp)+

lemma expire_inv: "node_inv n \<Longrightarrow> node_inv (snd (expireIfDueLocked L tid now n))"
  by (cases rule: expire_cases [of L tid now n]) (simp_all add: release_lock_inv node_inv_retransfer)

lemma sweep_inv: "node_inv n \<Longrightarrow> node_inv (snd (sweep L now tids k n))"
proof (induction tids arbitrary: k n)
  case (Cons tid tids)
  then show ?case
    using expire_inv [OF Cons.prems] by (simp add: case_prod_beta)
qed simp

lemma SweepExpired_inv: "node_inv n \<Longrightarrow> node_inv (snd (SweepExpired L n))"
  using sweep_inv by (simp add: SweepExpired_def case_prod_beta)

end
