(* ===== verification/LP_PreserveOps.thy ===== *)
theory LP_PreserveOps
  imports LP_Preserve
begin

text \<open>
  The transfer and adjustment operations, keys, dispatch, pull and push keep the invariant of a node.
\<close>

section \<open>Transfers\<close>

lemma release_cases:
  obtains "releaseIfBusyExpired L r n = n"
  | "releaseIfBusyExpired L r n = snd (expireIfDueLocked L (c_BusyTransfer (cell n r)) (n_clock n) n)"
  by (simp add: releaseIfBusyExpired_def Let_def) (metis)

lemma release_frame [simp]:
  "n_led (releaseIfBusyExpired L r n) = n_led n" "n_cfg (releaseIfBusyExpired L r n) = n_cfg n"
  "n_clock (releaseIfBusyExpired L r n) = n_clock n" "n_members (releaseIfBusyExpired L r n) = n_members n"
  "n_rand (releaseIfBusyExpired L r n) = n_rand n" "n_outSeq (releaseIfBusyExpired L r n) = n_outSeq n"
  "n_outbox (releaseIfBusyExpired L r n) = n_outbox n"
  "length (n_cells (releaseIfBusyExpired L r n)) = length (n_cells n)"
  "host_ref (releaseIfBusyExpired L r n) h = host_ref n h"
  "contact_ref (releaseIfBusyExpired L r n) i = contact_ref n i"
  "c_ID (cell (releaseIfBusyExpired L r n) r') = c_ID (cell n r')"
  "c_PeerBase (cell (releaseIfBusyExpired L r n) r') = c_PeerBase (cell n r')"
  "c_PeerHost (cell (releaseIfBusyExpired L r n) r') = c_PeerHost (cell n r')"
  "c_Active (cell (releaseIfBusyExpired L r n) r') = c_Active (cell n r')"
  "c_Closed (cell (releaseIfBusyExpired L r n) r') = c_Closed (cell n r')"
  "c_MyReserveOfPeer (cell (releaseIfBusyExpired L r n) r') = c_MyReserveOfPeer (cell n r')"
  "c_PeerReserveOfMe (cell (releaseIfBusyExpired L r n) r') = c_PeerReserveOfMe (cell n r')"
  "c_OpSeq (cell (releaseIfBusyExpired L r n) r') = c_OpSeq (cell n r')"
  "c_ChannelRoot (cell (releaseIfBusyExpired L r n) r') = c_ChannelRoot (cell n r')"
  by (cases rule: release_cases [of L r n]; simp)+

lemma release_inv: "node_inv n \<Longrightarrow> node_inv (releaseIfBusyExpired L r n)"
  by (cases rule: release_cases [of L r n]) (simp_all add: expire_inv)

lemma inv_active: "node_inv n \<Longrightarrow> r < length (n_cells n) \<Longrightarrow> c_Active (cell n r) \<Longrightarrow> active_id n (c_ID (cell n r))"
  by (simp add: node_inv_def anchored_def)

text \<open>Recording a transfer of an active contact and locking the contact for it.\<close>

lemma node_inv_lock:
  assumes inv: "node_inv n" and r: "r < length (n_cells n)" "c_Active (cell n r)" "t_ContactID t = c_ID (cell n r)"
  shows "node_inv (set_cell r (cell n r\<lparr>c_Busy := True, c_BusyTransfer := b\<rparr>) (set_transfer tid t n))"
  by (rule node_inv_set_cell) (use assms node_inv_set_transfer inv_active in simp_all)

lemma StartTransfer_inv:
  assumes inv: "node_inv n"
  shows "node_inv (snd (StartTransfer L b from' to x note n))"
proof (cases "host_ref n (host L b)")
  case (Some r)
  define n1 where "n1 = releaseIfBusyExpired L r n"
  have inv1: "node_inv (snd (draw_id L n1))" "node_inv n1" and r: "r < length (n_cells (snd (draw_id L n1)))"
    and act: "c_Active (cell n1 r) = c_Active (cell n r)"
    using release_inv [OF inv] inv_host [OF inv Some] by (simp_all add: n1_def)
  show ?thesis
    using inv Some inv1 act node_inv_lock [OF inv1(1) r]
    by (simp add: StartTransfer_def Let_def case_prod_beta split: option.split sum.split flip: n1_def)
qed (use inv in \<open>simp add: StartTransfer_def Let_def\<close>)

lemma handleTransferPropose_inv:
  assumes inv: "node_inv n"
  shows "node_inv (snd (handleTransferPropose L env n))"
proof (cases "host_ref n (host L (envStr env ''from''))")
  case (Some r)
  define n1 where "n1 = releaseIfBusyExpired L r n"
  have inv1: "node_inv n1" and r: "r < length (n_cells n1)" and act: "c_Active (cell n1 r) = c_Active (cell n r)"
    using release_inv [OF inv] inv_host [OF inv Some] by (simp_all add: n1_def)
  show ?thesis
    using inv Some inv1 act node_inv_lock [OF inv1 r]
    by (simp add: handleTransferPropose_def Let_def case_prod_beta split: option.split sum.split flip: n1_def)
qed (use inv in \<open>simp add: handleTransferPropose_def Let_def case_prod_beta\<close>)

lemma senderContact_Some:
  "senderContact L env i n = Some r \<longleftrightarrow> contact_ref n i = Some r \<and> c_PeerHost (cell n r) = host L (envStr env ''from'')"
  by (auto simp: senderContact_def split: option.split)

text \<open>
  A settling step: the transfer is written, the ledger moves the amount to or from the wallet of the contact,
  and the contact is rewritten with its reserve moved alike.
\<close>

lemma node_inv_settle:
  assumes inv: "node_inv n" and t: "map_of (n_transfers n) tid = Some t" "t_ContactID t1 = t_ContactID t"
    and r: "contact_ref n (t_ContactID t) = Some r"
    and led: "append_tx L ty ref es (set_transfer tid t1 n) = (Inr rec, n')"
    and es: "wallets_once es" "\<And>h. booked es (NodeWalletPrefix @ h) = (if h = c_PeerHost (cell n r) then x else 0)"
    and c: "c_PeerHost c = c_PeerHost (cell n r)" "c_MyReserveOfPeer c = c_MyReserveOfPeer (cell n r) + x"
      "c_ID c = c_ID (cell n r)" "c_Active c" "c_Closed c = c_Closed (cell n r)"
  shows "node_inv (set_cell r c n')"
  by (rule node_inv_post [OF node_inv_retransfer [OF inv t] _ led es(1)])
    (use assms inv_contact [OF inv r] inv_transfer [OF inv t(1) r] in auto)

lemma retransfer_after:
  assumes "node_inv (set_cell r c n')" and "append_tx L ty ref es (set_transfer tid t1 n) = (res, n')"
    and "t_ContactID t2 = t_ContactID t1"
  shows "node_inv (set_transfer tid t2 (set_cell r c n'))"
proof (rule node_inv_retransfer [OF assms(1) _ assms(3)])
  show "map_of (n_transfers (set_cell r c n')) tid = Some t1"
    using append_tx_frame(7) [of L ty ref es "set_transfer tid t1 n"] assms(2) by simp
qed

lemma handleTransferAccept_inv:
  assumes inv: "node_inv n"
  shows "node_inv (snd (handleTransferAccept L env n))"
proof -
  define tid where "tid = pStr (fst (payloadOf env)) ''transfer_id''"
  consider (none) "map_of (n_transfers n) tid = None" |
    (foreign) t where "map_of (n_transfers n) tid = Some t" "senderContact L env (t_ContactID t) n = None" |
    (own) t r where "map_of (n_transfers n) tid = Some t" "senderContact L env (t_ContactID t) n = Some r"
    by (metis not_None_eq)
  then show ?thesis
  proof cases
    case (own t r)
    have ref: "contact_ref n (t_ContactID t) = Some r"
      using own(2) by (simp add: senderContact_Some)
    show ?thesis
    proof (cases rule: expire_cases [of L tid "n_clock n" n])
      case 1
      show ?thesis
      proof (cases "Transition (t_State t) ''accept''")
        case (Inr st)
        define es where "es = [mk_entry (MemberPrefix @ localPart (t_FromMember t)) (- t_SrcAmount t),
          mk_entry (NodeWalletPrefix @ c_PeerHost (cell n r)) (t_SrcAmount t)]"
        define t1 where "t1 = t\<lparr>t_State := st\<rparr>"
        have same: "t_ContactID t1 = t_ContactID t"
          and sel: "t_ID t1 = t_ID t" "t_FromMember t1 = t_FromMember t" "t_SrcAmount t1 = t_SrcAmount t"
            "t_DstAmount t1 = t_DstAmount t"
          by (simp_all add: t1_def)
        have inv1: "node_inv (set_transfer tid t1 n)"
          by (rule node_inv_retransfer [OF inv own(1) same])
        obtain res n' where led: "append_tx L ''transfer.out'' (t_ID t) es (set_transfer tid t1 n) = (res, n')"
          by (rule prod.exhaust)
        show ?thesis
        proof (cases res)
          case (Inl e)
          then have "node_inv n'"
            using led refused_inv inv1 by metis
          then show ?thesis
            using own 1 Inr inv led [unfolded es_def] Inl
            by (simp add: handleTransferAccept_def Let_def case_prod_beta sel flip: tid_def t1_def)
        next
          case (Inr rec)
          have "node_inv (set_cell r c n')" if "c_PeerHost c = c_PeerHost (cell n r)"
              "c_MyReserveOfPeer c = c_MyReserveOfPeer (cell n r) + t_SrcAmount t" "c_ID c = c_ID (cell n r)"
              "c_Active c = c_Active (cell n r)" "c_Closed c = c_Closed (cell n r)" for c
            using node_inv_settle [OF inv own(1) same ref led [unfolded Inr], of "t_SrcAmount t" c] that
              inv_transfer [OF inv own(1) ref] by (auto simp: es_def)
          then show ?thesis
            using own 1 \<open>Transition (t_State t) ''accept'' = Inr st\<close> inv led [unfolded es_def] Inr retransfer_after [OF _ led]
            by (simp add: handleTransferAccept_def Let_def case_prod_beta applyTransfer_eq entry_payload_def sel
                flip: tid_def t1_def)
        qed
      qed (use own 1 inv in \<open>simp add: handleTransferAccept_def Let_def flip: tid_def\<close>)
    next
      case (2 t' st)
      then show ?thesis
        using own inv expire_inv [OF inv, of L tid "n_clock n"]
        by (simp add: handleTransferAccept_def Let_def flip: tid_def)
    qed
  qed (use inv in \<open>simp_all add: handleTransferAccept_def Let_def flip: tid_def\<close>)
qed

lemma node_inv_unlock: "node_inv n \<Longrightarrow> r < length (n_cells n) \<Longrightarrow> node_inv (set_cell r (unlock (cell n r)) n)"
  using inv_idle [of n r] by (intro node_inv_set_cell) auto

lemma handleTransferCommit_inv:
  assumes inv: "node_inv n"
  shows "node_inv (snd (handleTransferCommit L env n))"
proof -
  define p where "p = fst (payloadOf env)"
  define tid where "tid = pStr p ''transfer_id''"
  consider (none) "map_of (n_transfers n) tid = None" |
    (foreign) t where "map_of (n_transfers n) tid = Some t" "senderContact L env (t_ContactID t) n = None" |
    (own) t r where "map_of (n_transfers n) tid = Some t" "senderContact L env (t_ContactID t) n = Some r"
    by (metis not_None_eq)
  then show ?thesis
  proof cases
    case (own t r)
    have ref: "contact_ref n (t_ContactID t) = Some r"
      using own(2) by (simp add: senderContact_Some)
    show ?thesis
    proof (cases "Transition (t_State t) ''commit''")
      case (Inr st)
      define es where "es = [mk_entry (NodeWalletPrefix @ c_PeerHost (cell n r)) (- t_DstAmount t),
        mk_entry (MemberPrefix @ localPart (t_ToMember t)) (t_DstAmount t)]"
      define t1 where "t1 = t\<lparr>t_State := st, t_PeerEntry := entry_proof_of p (t_PeerEntry t)\<rparr>"
      have same: "t_ContactID t1 = t_ContactID t"
        and sel: "t_ID t1 = t_ID t" "t_ToMember t1 = t_ToMember t" "t_SrcAmount t1 = t_SrcAmount t"
          "t_DstAmount t1 = t_DstAmount t"
        by (simp_all add: t1_def)
      have inv1: "node_inv (set_transfer tid t1 n)"
        by (rule node_inv_retransfer [OF inv own(1) same])
      obtain res n' where led: "append_tx L ''transfer.in'' (t_ID t) es (set_transfer tid t1 n) = (res, n')"
        by (rule prod.exhaust)
      show ?thesis
      proof (cases res)
        case (Inl e)
        then have "node_inv n'"
          using led refused_inv inv1 by metis
        then show ?thesis
          using own Inr inv led [unfolded es_def] Inl
          by (simp add: handleTransferCommit_def Let_def case_prod_beta sel flip: p_def tid_def t1_def)
      next
        case (Inr rec)
        have moved: "node_inv (set_cell r c n')" if "c_PeerHost c = c_PeerHost (cell n r)"
            "c_MyReserveOfPeer c = c_MyReserveOfPeer (cell n r) - t_DstAmount t" "c_ID c = c_ID (cell n r)"
            "c_Active c = c_Active (cell n r)" "c_Closed c = c_Closed (cell n r)" for c
          using node_inv_settle [OF inv own(1) same ref led [unfolded Inr], of "- t_DstAmount t" c] that
            inv_transfer [OF inv own(1) ref] by (auto simp: es_def)
        have final: "node_inv (set_transfer tid t2 (snd (buildSigned L ty b re q (set_cell r c n'))))"
          if "node_inv (set_cell r c n')" "t_ContactID t2 = t_ContactID t1" "float_free (GMap q)" for c t2 ty b re q
        proof (rule node_inv_retransfer [where ?t0.0 = t1])
          show "map_of (n_transfers (snd (buildSigned L ty b re q (set_cell r c n')))) tid = Some t1"
            using append_tx_frame(7) [of L "''transfer.in''" "t_ID t" es "set_transfer tid t1 n"] led by simp
        qed (use that in simp_all)
        then show ?thesis
          using own \<open>Transition (t_State t) ''commit'' = Inr st\<close> inv led [unfolded es_def] Inr moved
          by (simp add: handleTransferCommit_def Let_def case_prod_beta applyTransfer_eq entry_payload_def sel
              flip: p_def tid_def t1_def)
      qed
    qed (use own inv in \<open>simp add: handleTransferCommit_def Let_def flip: p_def tid_def\<close>)
  qed (use inv in \<open>simp_all add: handleTransferCommit_def Let_def flip: p_def tid_def\<close>)
qed

lemma closing_inv:
  assumes inv: "node_inv n" and t: "map_of (n_transfers n) tid = Some t" "t_ContactID t1 = t_ContactID t"
    and r: "contact_ref n i = Some r"
  shows "node_inv (set_transfer tid t1 n)"
    and "node_inv (set_cell r (unlock (cell n r)) (set_transfer tid t1 n))"
  using node_inv_retransfer [OF inv t] node_inv_unlock [of "set_transfer tid t1 n" r] inv_contact [OF inv r] by simp_all

lemma handleTransferReceipt_inv:
  "node_inv n \<Longrightarrow> node_inv (snd (handleTransferReceipt L env n))"
  by (auto simp: handleTransferReceipt_def Let_def senderContact_Some split: option.split sum.split
      intro: closing_inv)

lemma close_transfer_inv:
  "node_inv n \<Longrightarrow> node_inv (snd (close_transfer ev out L env n))"
  by (auto simp: close_transfer_def Let_def senderContact_Some split: option.split sum.split
      intro: closing_inv)

lemma AbortTransfer_inv: "node_inv n \<Longrightarrow> node_inv (snd (AbortTransfer L tid n))"
  by (auto simp: AbortTransfer_def Let_def case_prod_beta split: option.split sum.split
      intro: closing_inv node_inv_retransfer)

section \<open>Adjustments\<close>

lemma AdjustReserve_inv:
  assumes inv: "node_inv n"
  shows "node_inv (snd (AdjustReserve L b d memo n))"
proof (cases "host_ref n (host L b)")
  case (Some r)
  define n1 where "n1 = releaseIfBusyExpired L r n"
  have inv1: "node_inv (snd (draw_id L n1))" "node_inv n1" and r: "r < length (n_cells (snd (draw_id L n1)))"
    and act: "c_Active (cell n1 r) = c_Active (cell n r)"
    using release_inv [OF inv] inv_host [OF inv Some] by (simp_all add: n1_def)
  have "node_inv (set_cell r (cell n1 r\<lparr>c_Busy := True, c_BusyTransfer := x, c_PendingAdjustID := x,
      c_PendingAdjustDelta := d\<rparr>) (snd (draw_id L n1)))" if "c_Active (cell n r)" for x
    by (rule node_inv_set_cell [OF inv1(1) r]) (use that act in simp_all)
  then show ?thesis
    using inv Some inv1 act
    by (simp add: AdjustReserve_def Let_def case_prod_beta flip: n1_def)
qed (use inv in \<open>simp add: AdjustReserve_def Let_def\<close>)

lemma folded_keeps_more [simp]:
  "c_PendingAdjustID (folded ty i a b c) = c_PendingAdjustID c"
  "c_PendingAdjustDelta (folded ty i a b c) = c_PendingAdjustDelta c"
  "c_AppliedAdjusts (folded ty i a b c) = c_AppliedAdjusts c"
  by (simp_all add: folded_def recordRoot_def Let_def del: op_text.simps)

lemma handleReserveAdjust_inv:
  assumes inv: "node_inv n"
  shows "node_inv (snd (handleReserveAdjust L env n))"
proof (cases "host_ref n (host L (envStr env ''from''))")
  case (Some r)
  define n1 where "n1 = releaseIfBusyExpired L r n"
  have inv1: "node_inv n1" and r: "r < length (n_cells n1)"
    using release_inv [OF inv] inv_host [OF inv Some] by (simp_all add: n1_def)
  have "node_inv (set_cell r c n1)" if "c_ID c = c_ID (cell n1 r)" "c_PeerHost c = c_PeerHost (cell n1 r)"
      "c_MyReserveOfPeer c = c_MyReserveOfPeer (cell n1 r)" "c_Active c = c_Active (cell n1 r)"
      "c_Closed c = c_Closed (cell n1 r)" "c_PendingAdjustDelta c = c_PendingAdjustDelta (cell n1 r)" for c
    by (rule node_inv_set_cell [OF inv1 r]) (use that inv_idle [OF inv1 r] in auto)
  then show ?thesis
    using inv Some inv1
    by (simp add: handleReserveAdjust_def Let_def case_prod_beta applyAdjust_eq flip: n1_def)
qed (use inv in \<open>simp add: handleReserveAdjust_def Let_def case_prod_beta\<close>)

lemma handleReserveAccept_inv:
  assumes inv: "node_inv n"
  shows "node_inv (snd (handleReserveAccept L env n))"
proof (cases "host_ref n (host L (envStr env ''from''))")
  case (Some r)
  define c aid where "c = cell n r" and "aid = pStr (fst (payloadOf env)) ''adjust_id''"
  define es where "es = [mk_entry (NodeWalletPrefix @ c_PeerHost c) (c_PendingAdjustDelta c),
    mk_entry AcctTreasury (- c_PendingAdjustDelta c)]"
  have r: "r < length (n_cells n)"
    using inv_host [OF inv Some] by simp
  obtain res n' where led: "append_tx L ''reserve.adjust'' aid es n = (res, n')"
    by (rule prod.exhaust)
  show ?thesis
  proof (cases res)
    case (Inl e)
    then have "node_inv n'"
      using led refused_inv inv by metis
    then show ?thesis
      using inv Some led Inl
      by (simp add: handleReserveAccept_def Let_def case_prod_beta flip: c_def aid_def es_def)
  next
    case (Inr rec)
    have "node_inv (set_cell r c' n')" if "c_PeerHost c' = c_PeerHost c"
        "c_MyReserveOfPeer c' = c_MyReserveOfPeer c + c_PendingAdjustDelta c" "c_ID c' = c_ID c"
        "c_Active c' = c_Active c" "c_Closed c' = c_Closed c" "c_PendingAdjustDelta c' = 0" for c'
      by (rule node_inv_post [OF inv r led [unfolded Inr]])
        (use that inv_idle [OF inv r] in \<open>auto simp: es_def c_def\<close>)
    then show ?thesis
      using inv Some led Inr
      by (simp add: handleReserveAccept_def Let_def case_prod_beta applyAdjust_eq flip: c_def aid_def es_def)
  qed
qed (use inv in \<open>simp add: handleReserveAccept_def case_prod_beta\<close>)

section \<open>Keys, dispatch, pull and push\<close>

lemma announce_inv: "node_inv n \<Longrightarrow> node_inv (announce_all L k pub t bs n)"
  by (induction bs arbitrary: n) simp_all

lemma RotateKey_inv: "node_inv n \<Longrightarrow> node_inv (snd (RotateKey L n))"
  by (simp add: RotateKey_def Let_def announce_inv)

lemma RevokeKey_inv: "node_inv n \<Longrightarrow> node_inv (snd (RevokeKey L k n))"
  by (simp add: RevokeKey_def split: option.split)

lemma handleKeyAnnounce_inv: "node_inv n \<Longrightarrow> node_inv (snd (handleKeyAnnounce L env n))"
  by (simp add: handleKeyAnnounce_def Let_def case_prod_beta split: sum.split)

lemma fetchPeerKeys_inv [simp]: "node_inv (snd (fetchPeerKeys S b n)) = node_inv n"
  by (simp add: fetchPeerKeys_def Let_def split: option.split)

lemma RefreshPeerKeys_inv [simp]: "node_inv (snd (RefreshPeerKeys S b n)) = node_inv n"
  by (simp add: RefreshPeerKeys_def Let_def split: option.split)

lemma handleMemberLookup_inv: "node_inv n \<Longrightarrow> node_inv (snd (handleMemberLookup L env n))"
  by (simp add: handleMemberLookup_def Let_def case_prod_beta split: option.split)

lemmas handlers_inv = handleContactPropose_inv handleContactAccept_inv handleContactUpdate_inv handleContactClose_inv
  handleKeyAnnounce_inv handleTransferPropose_inv handleTransferAccept_inv handleTransferCommit_inv
  handleTransferReceipt_inv close_transfer_inv handleReserveAdjust_inv handleReserveAccept_inv handleMemberLookup_inv

lemma route_inv: "node_inv n \<Longrightarrow> node_inv (snd (route L env n))"
  by (simp add: route_def Let_def handlers_inv handleTransferReject_def handleTransferAbort_def)

lemma inbound_inv [simp]: "node_inv (snd (inbound h n)) = node_inv n"
  by (simp add: inbound_def split: option.split)

lemma ProcessInbound_inv: "node_inv n \<Longrightarrow> node_inv (snd (snd (ProcessInbound L S env n)))"
  by (simp add: ProcessInbound_def Let_def case_prod_beta route_inv split: sum.split)

lemma process_all_inv: "node_inv n \<Longrightarrow> node_inv (snd (process_all L S envs k n))"
  by (induction envs arbitrary: n k) (simp_all add: case_prod_beta ProcessInbound_inv)

lemma PollPeer_inv: "node_inv n \<Longrightarrow> node_inv (snd (PollPeer L S b n))"
  by (simp add: PollPeer_def case_prod_beta process_all_inv split: option.split)

lemma prune_inv [simp]: "node_inv (snd (pruneOutboxLocked h k n)) = node_inv n"
  by (simp add: pruneOutboxLocked_def Let_def)

lemma reconcile_entry_inv:
  assumes "node_inv n" "host_ref n h = Some r"
  shows "node_inv (snd (reconcile_entry b r m n))"
proof -
  define n1 where "n1 = snd (pruneOutboxLocked (c_PeerHost (cell n r)) (fst (asInt (obj_get m ''last_seq_processed''))) n)"
  have inv: "node_inv n1" and same: "cell n1 r = cell n r" "length (n_cells n1) = length (n_cells n)"
    using assms(1) by (simp_all add: n1_def) (simp_all add: pruneOutboxLocked_def Let_def cell_def)
  have r: "r < length (n_cells n1)"
    using inv_host [OF assms] same by simp
  have "node_inv (set_cell r (cell n r\<lparr>c_Diverged := True\<rparr>) n1)"
    by (rule node_inv_set_cell [OF inv r]) (use inv_idle [OF inv r] same in auto)
  then show ?thesis
    using inv by (simp add: reconcile_entry_def Let_def case_prod_beta flip: n1_def)
qed

lemma ReconcilePeer_inv: "node_inv n \<Longrightarrow> node_inv (snd (ReconcilePeer L S b n))"
  using reconcile_entry_inv [of n]
  by (simp add: ReconcilePeer_def Let_def case_prod_beta split: option.split)

lemma poll_bases_inv: "node_inv n \<Longrightarrow> node_inv (poll_bases L S bs n)"
  by (induction bs arbitrary: n) (simp_all add: PollPeer_inv ReconcilePeer_inv)

lemma PollAll_inv: "node_inv n \<Longrightarrow> node_inv (PollAll L S n)"
  by (simp add: PollAll_def poll_bases_inv)

lemma reconcile_bases_inv: "node_inv n \<Longrightarrow> node_inv (reconcile_bases L S bs n)"
  by (induction bs arbitrary: n) (simp_all add: ReconcilePeer_inv)

lemma ReconcileAll_inv: "node_inv n \<Longrightarrow> node_inv (ReconcileAll L S n)"
  by (simp add: ReconcileAll_def reconcile_bases_inv)

lemma pushHost_inv [simp]: "node_inv (snd (pushHost deliver h n)) = node_inv n"
  by (simp add: pushHost_def split: prod.split list.split)

lemma SetStore_inv [simp]: "node_inv (snd (SetStore s n)) = node_inv n"
  by (simp add: SetStore_def)

lemma SetIdentity_inv [simp]: "node_inv (SetIdentity a b c n) = node_inv n"
  by (simp add: SetIdentity_def Let_def)

section \<open>A new node\<close>

lemma empty_node_inv: "node_inv (empty_node cfg priv t i)"
  using wf_ledger_New
  by (simp add: empty_node_def inv_defs host_ref_def contact_ref_def wallet_def New_def Balance_def)

lemma node_inv_created [simp]: "node_inv (n\<lparr>n_created := x\<rparr>) = node_inv n"
  by (rule node_inv_cong) simp_all

lemma grant_member_inv: "grant_member L mc n = Inr n' \<Longrightarrow> node_inv n \<Longrightarrow> node_inv n'"
  by (auto simp: grant_member_def Let_def split: option.splits prod.splits sum.splits if_splits dest!: inv_append_pair)

lemma grant_members_inv: "grant_members L mcs n = Inr n' \<Longrightarrow> node_inv n \<Longrightarrow> node_inv n'"
  by (induction mcs arbitrary: n) (auto split: sum.splits dest: grant_member_inv)

lemma NewNode_inv: "NewNode L cfg t i = Inr n \<Longrightarrow> node_inv n"
  by (auto simp: NewNode_def Let_def empty_node_inv split: if_splits sum.splits prod.splits option.splits
      dest!: grant_members_inv)

end
