(* ===== verification/LP_Effects.thy ===== *)
theory LP_Effects
  imports LP_PreserveOps
begin

text \<open>
  What the operations do on the branch that succeeds, as equations: the node after a posting, after an
  envelope was sent, after a lock was taken. The properties of whole exchanges compose these.
\<close>

section \<open>Postings\<close>

definition tx_of :: "lib \<Rightarrow> string \<Rightarrow> string \<Rightarrow> entry list \<Rightarrow> Node \<Rightarrow> tx" where
  "tx_of L ty ref es n =
     \<lparr>tx_ID = newID L (n_rand n), tx_Type = ty, tx_Ref = ref, tx_Created = now_text L n, tx_Entries = es\<rparr>"

definition posted :: "lib \<Rightarrow> string \<Rightarrow> string \<Rightarrow> entry list \<Rightarrow> Node \<Rightarrow> Node" where
  "posted L ty ref es n =
     n\<lparr>n_rand := Suc (n_rand n),
       n_led := \<lparr>l_log = l_log (n_led n) @ [next_record (n_led n) (tx_of L ty ref es n)],
                 l_balances = add_entries (l_balances (n_led n)) es\<rparr>\<rparr>"

lemma append_tx_posted:
  "can_append (Balance (n_led n)) es \<Longrightarrow>
     append_tx L ty ref es n = (Inr (next_record (n_led n) (tx_of L ty ref es n)), posted L ty ref es n)"
  by (simp add: append_tx_def draw_id_def now_text_def Append_ok tx_of_def posted_def Let_def)

lemma Balance_posted [simp]: "Balance (n_led (posted L ty ref es n)) a = Balance (n_led n) a + booked es a"
  by (simp add: posted_def Balance_def mget0_add_entries)

lemma posted_frame [simp]:
  "n_cfg (posted L ty ref es n) = n_cfg n" "n_members (posted L ty ref es n) = n_members n"
  "n_cells (posted L ty ref es n) = n_cells n" "cell (posted L ty ref es n) r = cell n r"
  "n_transfers (posted L ty ref es n) = n_transfers n" "n_clock (posted L ty ref es n) = n_clock n"
  "n_outSeq (posted L ty ref es n) = n_outSeq n" "n_outbox (posted L ty ref es n) = n_outbox n"
  "n_panic (posted L ty ref es n) = n_panic n" "n_inState (posted L ty ref es n) = n_inState n"
  "n_peerKeys (posted L ty ref es n) = n_peerKeys n" "n_priv (posted L ty ref es n) = n_priv n"
  "n_pub (posted L ty ref es n) = n_pub n" "n_keyLocalID (posted L ty ref es n) = n_keyLocalID n"
  "n_store (posted L ty ref es n) = n_store n" "n_currentUD (posted L ty ref es n) = n_currentUD n"
  "host_ref (posted L ty ref es n) h = host_ref n h" "contact_ref (posted L ty ref es n) i = contact_ref n i"
  by (simp_all add: posted_def cell_def host_ref_def contact_ref_def)

lemma can_append_pair [simp]:
  "\<not> isNodeWallet a \<Longrightarrow> \<not> isNodeWallet b \<Longrightarrow> can_append bal [mk_entry a x, mk_entry b y] \<longleftrightarrow> x + y = 0"
  by (simp add: can_append_def)

lemma isNodeWallet_host [simp]: "isNodeWallet (NodeWalletPrefix @ h) \<longleftrightarrow> h \<noteq> []"
  by (simp add: isNodeWallet_def)

lemma can_append_wallet [simp]:
  assumes "\<not> isNodeWallet b" "h \<noteq> []"
  shows "can_append bal [mk_entry (NodeWalletPrefix @ h) x, mk_entry b y] \<longleftrightarrow>
      x + y = 0 \<and> 0 \<le> sint (bal (NodeWalletPrefix @ h) + x)"
    and "can_append bal [mk_entry b y, mk_entry (NodeWalletPrefix @ h) x] \<longleftrightarrow>
      y + x = 0 \<and> 0 \<le> sint (bal (NodeWalletPrefix @ h) + x)"
  using assms by (auto simp: can_append_def)

section \<open>On the wire\<close>

text \<open>An envelope as its receiver decodes it.\<close>

definition wire :: "obj \<Rightarrow> obj" where
  "wire env = map_obj redecode env"

lemma map_obj_get [simp]: "obj_get (map_obj redecode m) k = redecode (obj_get m k)"
  by (induction m) (auto simp: map_obj_def obj_get_def)

lemma asInt_redecode [simp]: "asInt (redecode v) = asInt v"
  by (cases v) (simp_all add: ParseInt_dec64)

lemma asString_redecode [simp]: "asString (redecode v) = asString v"
  by (cases v) simp_all

lemma wire_reads [simp]:
  "envStr (wire env) k = envStr env k" "pStr (map_obj redecode p) k = pStr p k" "pInt (map_obj redecode p) k = pInt p k"
  by (simp_all add: wire_def envStr_def pStr_def pInt_def)

lemma payloadOf_wire [simp]: "payloadOf (wire env) = (map_obj redecode (fst (payloadOf env)), snd (payloadOf env))"
  by (cases "obj_get env ''payload''") (simp_all add: payloadOf_def wire_def flip: map_obj_def, simp_all add: map_obj_def)

lemma entry_proof_wire [simp]: "entry_proof_of (map_obj redecode p) old = entry_proof_of p old"
  by (cases "obj_get p ''entry''") (simp_all add: entry_proof_of_def flip: map_obj_def)

text \<open>The newest envelope for a peer.\<close>

definition newest :: "lib \<Rightarrow> string \<Rightarrow> Node \<Rightarrow> obj" where
  "newest L base n = last (mgetl (n_outbox n) (host L base))"

lemma newest_built [simp]:
  "float_free (GMap p) \<Longrightarrow> newest L b (snd (buildSigned L ty b re p n)) = fst (buildSigned L ty b re p n)"
  by (simp add: newest_def buildSigned_eq Let_def mgetl_def)

lemma newest_persist [simp]: "newest L b (snd (persistLocked n)) = newest L b n"
  by (simp add: newest_def)

section \<open>The steps of a transfer\<close>

definition kept :: "Node \<Rightarrow> Node \<Rightarrow> bool" where
  "kept n n' \<longleftrightarrow> n_cfg n' = n_cfg n \<and> n_members n' = n_members n \<and> n_clock n' = n_clock n \<and>
     n_contacts n' = n_contacts n \<and> n_contactByHost n' = n_contactByHost n \<and> length (n_cells n') = length (n_cells n)"

lemma kept_refl: "kept n n"
  by (simp add: kept_def)

lemma kept_trans: "kept n n1 \<Longrightarrow> kept n1 n2 \<Longrightarrow> kept n n2"
  by (simp add: kept_def)

lemma kept_refs:
  "kept n n' \<Longrightarrow> host_ref n' h = host_ref n h" "kept n n' \<Longrightarrow> contact_ref n' i = contact_ref n i"
  "kept n n' \<Longrightarrow> usable_member n' x = usable_member n x"
  by (simp_all add: kept_def host_ref_def contact_ref_def usable_member_def)

definition ready :: "Contact \<Rightarrow> bool" where
  "ready c \<longleftrightarrow> c_Active c \<and> \<not> c_Closed c \<and> \<not> c_Diverged c \<and> \<not> c_Busy c"

definition lock :: "string \<Rightarrow> Contact \<Rightarrow> Contact" where
  "lock tid c = c\<lparr>c_Busy := True, c_BusyTransfer := tid\<rparr>"

lemma release_ready [simp]: "\<not> c_Busy (cell n r) \<Longrightarrow> releaseIfBusyExpired L r n = n"
  by (simp add: releaseIfBusyExpired_def Let_def)

definition proposal :: "lib \<Rightarrow> Contact \<Rightarrow> string \<Rightarrow> string \<Rightarrow> i64 \<Rightarrow> i64 \<Rightarrow> Node \<Rightarrow> Transfer" where
  "proposal L c from' to src dst n =
     \<lparr>t_ID = newID L (n_rand n), t_ContactID = c_ID c, t_Outgoing = True, t_State = ''PROPOSED'', t_OpSeq = c_OpSeq c,
      t_FromMember = from', t_ToMember = to, t_SrcAmount = src, t_DstAmount = dst,
      t_Expires = fmt_time L (n_clock n + 3600000000000), t_MyEntry = None, t_PeerEntry = None, t_Receipt = None\<rparr>"

definition propose_payload :: "Transfer \<Rightarrow> string \<Rightarrow> obj" where
  "propose_payload t note =
     [(''transfer_id'', GStr (t_ID t)), (''contact_id'', GStr (t_ContactID t)), (''op_seq'', GInt (t_OpSeq t)),
      (''from_member'', GStr (t_FromMember t)), (''to_member'', GStr (t_ToMember t)), (''src_amount'', GInt (t_SrcAmount t)),
      (''dst_amount'', GInt (t_DstAmount t)), (''note'', GStr note), (''expires'', GStr (t_Expires t))]"

lemma propose_reads [simp]:
  "pStr (propose_payload t note) ''transfer_id'' = t_ID t" "pStr (propose_payload t note) ''from_member'' = t_FromMember t"
  "pStr (propose_payload t note) ''to_member'' = t_ToMember t" "pStr (propose_payload t note) ''expires'' = t_Expires t"
  "pInt (propose_payload t note) ''op_seq'' = (t_OpSeq t, True)"
  "pInt (propose_payload t note) ''src_amount'' = (t_SrcAmount t, True)"
  "pInt (propose_payload t note) ''dst_amount'' = (t_DstAmount t, True)"
  by (simp_all add: propose_payload_def pStr_def pInt_def)

lemma transitions_used [simp]:
  "Transition ''NONE'' ''propose'' = Inr ''PROPOSED''" "Transition ''PROPOSED'' ''accept'' = Inr ''ACCEPTED''"
  "Transition ''ACCEPTED'' ''commit'' = Inr ''COMMITTED''" "Transition ''COMMITTED'' ''receipt'' = Inr ''SETTLED''"
  by (simp_all add: Transition_def row_def transitions_def)

lemma Transition_or_empty_Inr [simp]: "Transition s e = Inr s' \<Longrightarrow> Transition_or_empty s e = s'"
  by (simp add: Transition_or_empty_def)

lemma StartTransfer_ok:
  assumes "host_ref n (host L base) = Some r" "r < length (n_cells n)" "ready (cell n r)" "0 < sint src"
    and "usable_member n from' = Some fm" "sint src \<le> sint (Balance (n_led n) (MemberPrefix @ m_Name fm))"
    and "priceOutgoing (cell n r) src = Inr dst"
  obtains n1 where "StartTransfer L base from' to src note n = (Inr (newID L (n_rand n)), n1)" "kept n n1"
    "n_led n1 = n_led n" "cell n1 r = lock (newID L (n_rand n)) (cell n r)"
    "map_of (n_transfers n1) (newID L (n_rand n)) = Some (proposal L (cell n r) from' to src dst n)"
    "envStr (newest L base n1) ''type'' = ''transfer.propose''" "envStr (newest L base n1) ''from'' = cfg_Base (n_cfg n)"
    "payloadOf (newest L base n1) = (propose_payload (proposal L (cell n r) from' to src dst n) note, True)"
proof -
  let ?tid = "newID L (n_rand n)" and ?t = "proposal L (cell n r) from' to src dst n"
  let ?n1 = "snd (persistLocked (snd (buildSigned L ''transfer.propose'' base [] (propose_payload ?t note)
    (set_cell r (lock ?tid (cell n r)) (set_transfer ?tid ?t (snd (draw_id L n)))))))"
  have ff: "float_free (GMap (propose_payload ?t note))"
    by (simp add: propose_payload_def)
  show ?thesis
  proof (rule that [of ?n1])
    show "StartTransfer L base from' to src note n = (Inr ?tid, ?n1)"
      using assms
      by (simp add: StartTransfer_def ready_def Let_def case_prod_beta lock_def proposal_def propose_payload_def)
    show "kept n ?n1"
      by (simp add: kept_def)
  qed (use assms(2) ff in \<open>simp_all add: built_get cell_set_cell\<close>)
qed

definition incoming :: "Contact \<Rightarrow> obj \<Rightarrow> Transfer" where
  "incoming c p =
     \<lparr>t_ID = pStr p ''transfer_id'', t_ContactID = c_ID c, t_Outgoing = False, t_State = ''ACCEPTED'',
      t_OpSeq = fst (pInt p ''op_seq''), t_FromMember = pStr p ''from_member'', t_ToMember = pStr p ''to_member'',
      t_SrcAmount = fst (pInt p ''src_amount''), t_DstAmount = fst (pInt p ''dst_amount''), t_Expires = pStr p ''expires'',
      t_MyEntry = None, t_PeerEntry = None, t_Receipt = None\<rparr>"

lemma incoming_wire [simp]: "incoming c (map_obj redecode p) = incoming c p"
  by (simp add: incoming_def)

lemma handleTransferPropose_ok:
  assumes "payloadOf env = (p, True)" "pStr p ''transfer_id'' \<noteq> []"
    and "host_ref n (host L (envStr env ''from'')) = Some r" "r < length (n_cells n)" "ready (cell n r)"
    and "fst (pInt p ''op_seq'') = c_OpSeq (cell n r)" "usable_member n (pStr p ''to_member'') \<noteq> None"
    and "pInt p ''src_amount'' = (src, True)" "pInt p ''dst_amount'' = (dst, True)" "0 < sint src"
    and "priceIncoming (cell n r) src = Inr dst"
  obtains n1 env1 where "handleTransferPropose L env n = (Some env1, n1)" "kept n n1" "n_led n1 = n_led n"
    "cell n1 r = lock (pStr p ''transfer_id'') (cell n r)"
    "map_of (n_transfers n1) (pStr p ''transfer_id'') = Some (incoming (cell n r) p)"
    "envStr env1 ''type'' = ''transfer.accept''" "envStr env1 ''from'' = cfg_Base (n_cfg n)"
    "payloadOf env1 = ([(''transfer_id'', GStr (pStr p ''transfer_id''))], True)"
proof -
  let ?tid = "pStr p ''transfer_id''"
  let ?b = "buildSigned L ''transfer.accept'' (c_PeerBase (cell n r)) (envStr env ''id'') [(''transfer_id'', GStr ?tid)]
    (set_cell r (lock ?tid (cell n r)) (set_transfer ?tid (incoming (cell n r) p) n))"
  show ?thesis
  proof (rule that [of "fst ?b" "snd ?b"])
    show "handleTransferPropose L env n = (Some (fst ?b), snd ?b)"
      using assms
      by (auto simp: handleTransferPropose_def ready_def Let_def lock_def incoming_def reply_def split: option.split)
    show "kept n (snd ?b)"
      by (simp add: kept_def)
  qed (use assms in \<open>simp_all add: cell_set_cell built_get\<close>)
qed

definition not_due :: "lib \<Rightarrow> Transfer \<Rightarrow> Node \<Rightarrow> bool" where
  "not_due L t n \<longleftrightarrow> (case parse_time L (t_Expires t) of None \<Rightarrow> True | Some e \<Rightarrow> n_clock n \<le> e)"

lemma not_due_expire:
  "map_of (n_transfers n) tid = Some t \<Longrightarrow> not_due L t n \<Longrightarrow> expireIfDueLocked L tid (n_clock n) n = (False, n)"
  by (auto simp: expireIfDueLocked_def not_due_def split: option.splits)

text \<open>The pool of a contact after a payment out of this node, and into it.\<close>

definition paid_out :: "Transfer \<Rightarrow> Contact \<Rightarrow> Contact" where
  "paid_out t c =
     folded ''transfer'' (t_ID t) (t_SrcAmount t) (t_DstAmount t)
       (c\<lparr>c_MyReserveOfPeer := c_MyReserveOfPeer c + t_SrcAmount t,
          c_PeerReserveOfMe := c_PeerReserveOfMe c - t_DstAmount t\<rparr>)"

definition paid_in :: "Transfer \<Rightarrow> Contact \<Rightarrow> Contact" where
  "paid_in t c =
     folded ''transfer'' (t_ID t) (t_SrcAmount t) (t_DstAmount t)
       (c\<lparr>c_PeerReserveOfMe := c_PeerReserveOfMe c + t_SrcAmount t,
          c_MyReserveOfPeer := c_MyReserveOfPeer c - t_DstAmount t\<rparr>)"

definition out_entries :: "Transfer \<Rightarrow> string \<Rightarrow> entry list" where
  "out_entries t h =
     [mk_entry (MemberPrefix @ localPart (t_FromMember t)) (- t_SrcAmount t), mk_entry (NodeWalletPrefix @ h) (t_SrcAmount t)]"

definition in_entries :: "Transfer \<Rightarrow> string \<Rightarrow> entry list" where
  "in_entries t h =
     [mk_entry (NodeWalletPrefix @ h) (- t_DstAmount t), mk_entry (MemberPrefix @ localPart (t_ToMember t)) (t_DstAmount t)]"

lemma handleTransferAccept_ok:
  assumes "pStr (fst (payloadOf env)) ''transfer_id'' = tid" "map_of (n_transfers n) tid = Some t" "t_Outgoing t"
    and "t_State t = ''PROPOSED''" "not_due L t n"
    and "contact_ref n (t_ContactID t) = Some r" "r < length (n_cells n)"
    and "c_PeerHost (cell n r) = host L (envStr env ''from'')"
    and can: "can_append (Balance (n_led n)) (out_entries t (c_PeerHost (cell n r)))"
  obtains n1 env1 rec where "handleTransferAccept L env n = (Some env1, n1)" "kept n n1"
    "\<And>a. Balance (n_led n1) a = Balance (n_led n) a + booked (out_entries t (c_PeerHost (cell n r))) a"
    "Records (n_led n1) = Records (n_led n) @ [rec]" "cell n1 r = paid_out t (cell n r)"
    "map_of (n_transfers n1) tid =
       Some (t\<lparr>t_MyEntry := Some \<lparr>ep_LogSeq = r_Seq rec, ep_LogHash = r_Hash rec\<rparr>, t_State := ''COMMITTED''\<rparr>)"
    "envStr env1 ''type'' = ''transfer.commit''" "envStr env1 ''from'' = cfg_Base (n_cfg n)"
    "payloadOf env1 = (entry_payload (t_ID t) rec, True)"
proof -
  let ?t1 = "t\<lparr>t_State := ''ACCEPTED''\<rparr>" and ?es = "out_entries t (c_PeerHost (cell n r))"
  let ?m = "set_transfer tid ?t1 n"
  let ?rec = "next_record (n_led ?m) (tx_of L ''transfer.out'' (t_ID t) ?es ?m)"
  let ?t2 = "t\<lparr>t_MyEntry := Some \<lparr>ep_LogSeq = r_Seq ?rec, ep_LogHash = r_Hash ?rec\<rparr>, t_State := ''COMMITTED''\<rparr>"
  let ?b = "buildSigned L ''transfer.commit'' (c_PeerBase (cell n r)) (envStr env ''id'') (entry_payload (t_ID t) ?rec)
    (set_transfer tid ?t2 (set_cell r (paid_out t (cell n r)) (posted L ''transfer.out'' (t_ID t) ?es ?m)))"
  have ff: "float_free (GMap (entry_payload (t_ID t) ?rec))"
    by (simp add: entry_payload_def)
  have app: "append_tx L ''transfer.out'' (t_ID t) ?es ?m = (Inr ?rec, posted L ''transfer.out'' (t_ID t) ?es ?m)"
    using can by (simp add: append_tx_posted)
  have own: "senderContact L env (t_ContactID t) n = Some r"
    using assms by (simp add: senderContact_Some)
  show ?thesis
  proof (rule that [of "fst ?b" "snd ?b" ?rec])
    show "handleTransferAccept L env n = (Some (fst ?b), snd ?b)"
      using assms(1-8) app own
      by (simp add: handleTransferAccept_def Let_def not_due_expire out_entries_def paid_out_def
          applyTransfer_eq reply_def)
    show "kept n (snd ?b)"
      by (simp add: kept_def) (simp add: posted_def)
    show "Records (n_led (snd ?b)) = Records (n_led n) @ [?rec]"
      by (simp add: Records_def posted_def)
  qed (use assms(7) ff in \<open>simp_all add: cell_set_cell built_get\<close>)
qed

lemma handleTransferCommit_ok:
  assumes "payloadOf env = (p, True)" "pStr p ''transfer_id'' = tid" "map_of (n_transfers n) tid = Some t" "\<not> t_Outgoing t"
    and "t_State t = ''ACCEPTED''"
    and "contact_ref n (t_ContactID t) = Some r" "r < length (n_cells n)"
    and "c_PeerHost (cell n r) = host L (envStr env ''from'')"
    and can: "can_append (Balance (n_led n)) (in_entries t (c_PeerHost (cell n r)))"
  obtains n1 env1 rec where "handleTransferCommit L env n = (Some env1, n1)" "kept n n1"
    "\<And>a. Balance (n_led n1) a = Balance (n_led n) a + booked (in_entries t (c_PeerHost (cell n r))) a"
    "Records (n_led n1) = Records (n_led n) @ [rec]" "cell n1 r = unlock (paid_in t (cell n r))"
    "map_of (n_transfers n1) tid =
       Some (t\<lparr>t_PeerEntry := entry_proof_of p (t_PeerEntry t),
               t_MyEntry := Some \<lparr>ep_LogSeq = r_Seq rec, ep_LogHash = r_Hash rec\<rparr>, t_State := ''SETTLED'',
               t_Receipt := Some env1\<rparr>)"
    "envStr env1 ''type'' = ''transfer.receipt''" "envStr env1 ''from'' = cfg_Base (n_cfg n)"
    "payloadOf env1 = (entry_payload (t_ID t) rec, True)"
proof -
  let ?t1 = "t\<lparr>t_State := ''COMMITTED'', t_PeerEntry := entry_proof_of p (t_PeerEntry t)\<rparr>"
    and ?es = "in_entries t (c_PeerHost (cell n r))"
  let ?m = "set_transfer tid ?t1 n"
  let ?rec = "next_record (n_led ?m) (tx_of L ''transfer.in'' (t_ID t) ?es ?m)"
  let ?b = "buildSigned L ''transfer.receipt'' (c_PeerBase (cell n r)) (envStr env ''id'') (entry_payload (t_ID t) ?rec)
    (set_cell r (unlock (paid_in t (cell n r))) (posted L ''transfer.in'' (t_ID t) ?es ?m))"
  let ?t2 = "t\<lparr>t_PeerEntry := entry_proof_of p (t_PeerEntry t),
    t_MyEntry := Some \<lparr>ep_LogSeq = r_Seq ?rec, ep_LogHash = r_Hash ?rec\<rparr>, t_State := ''SETTLED'', t_Receipt := Some (fst ?b)\<rparr>"
  have ff: "float_free (GMap (entry_payload (t_ID t) ?rec))"
    by (simp add: entry_payload_def)
  have app: "append_tx L ''transfer.in'' (t_ID t) ?es ?m = (Inr ?rec, posted L ''transfer.in'' (t_ID t) ?es ?m)"
    using can by (simp add: append_tx_posted)
  have own: "senderContact L env (t_ContactID t) n = Some r"
    using assms by (simp add: senderContact_Some)
  show ?thesis
  proof (rule that [of "fst ?b" "set_transfer tid ?t2 (snd ?b)" ?rec])
    show "handleTransferCommit L env n = (Some (fst ?b), set_transfer tid ?t2 (snd ?b))"
      using assms(1-8) app own
      by (simp add: handleTransferCommit_def Let_def in_entries_def paid_in_def applyTransfer_eq case_prod_beta)
    show "kept n (set_transfer tid ?t2 (snd ?b))"
      by (simp add: kept_def) (simp add: posted_def)
    show "Records (n_led (set_transfer tid ?t2 (snd ?b))) = Records (n_led n) @ [?rec]"
      by (simp add: Records_def posted_def)
  qed (use assms(7) ff in \<open>simp_all add: cell_set_cell built_get\<close>)
qed

lemma handleTransferReceipt_ok:
  assumes "payloadOf env = (p, True)" "pStr p ''transfer_id'' = tid" "map_of (n_transfers n) tid = Some t" "t_Outgoing t"
    and "t_State t = ''COMMITTED''" "c_BusyTransfer (cell n r) = t_ID t"
    and "contact_ref n (t_ContactID t) = Some r" "r < length (n_cells n)"
    and "c_PeerHost (cell n r) = host L (envStr env ''from'')"
  obtains n1 where "handleTransferReceipt L env n = (None, n1)" "kept n n1" "n_led n1 = n_led n"
    "cell n1 r = unlock (cell n r)"
    "map_of (n_transfers n1) tid = Some (t\<lparr>t_State := ''SETTLED'', t_PeerEntry := entry_proof_of p (t_PeerEntry t)\<rparr>)"
proof -
  have own: "senderContact L env (t_ContactID t) n = Some r"
    using assms by (simp add: senderContact_Some)
  show ?thesis
    by (rule that [of "snd (handleTransferReceipt L env n)"])
      (use assms own in \<open>simp_all add: handleTransferReceipt_def Let_def kept_def no_reply_def cell_set_cell\<close>)
qed

section \<open>Two concrete nodes\<close>

text \<open>A node with one member, on the concrete platform; the witnesses start from two of them.\<close>

definition demo_cfg :: "string \<Rightarrow> string \<Rightarrow> Config" where
  "demo_cfg base mem =
     \<lparr>cfg_Base = base, cfg_Name = ''demo'', cfg_Description = [], cfg_CurrencyName = ''Demo'',
      cfg_CurrencySymbol = ''D'', cfg_CPeriodPpm = 1000, cfg_UDPeriod = ''P1D'', cfg_GenesisUD = 1000000,
      cfg_Transparency = ''public'', cfg_AutoAcceptSeed = 5000000,
      cfg_Members = [\<lparr>mc_Name = mem, mc_Grant = 9000000, mc_DisplayName = []\<rparr>],
      cfg_AdminToken = ''secret'', cfg_BatchUD = True, cfg_PrivKey = Some (NewKeyFromSeed demo (replicate 32 (CHR ''s'')))\<rparr>"

definition demo_node :: "string \<Rightarrow> string \<Rightarrow> Node" where
  "demo_node base mem = (case NewNode demo (demo_cfg base mem) 0 0 of Inl e \<Rightarrow> empty_node (demo_cfg base mem) [] 0 0 | Inr n \<Rightarrow> n)"

lemma NewNode_one:
  assumes "cfg_Base cfg \<noteq> []" "cfg_Members cfg = [mc]" "validMemberName (mc_Name mc) = None" "0 < sint (mc_Grant mc)"
  obtains n where "NewNode L cfg t i = Inr n" "n_members n = [(mc_Name mc, new_member (mc_Name mc) (mc_DisplayName mc))]"
    "cfg_Base (n_cfg n) = cfg_Base cfg" "cfg_AutoAcceptSeed (n_cfg n) = cfg_AutoAcceptSeed cfg"
    "Balance (n_led n) (MemberPrefix @ mc_Name mc) = mc_Grant mc"
    "n_contacts n = []" "n_contactByHost n = []" "n_cells n = []" "n_clock n = t" "n_transfers n = []"
    "n_keyLocalID n = ''#nk1''" "n_outSeq n = []" "n_inState n = []"
    "\<And>p. cfg_PrivKey cfg = Some p \<Longrightarrow> n_priv n = p \<and> n_pub n = Public p"
proof -
  have grant: "append_tx L ty [] [mk_entry (MemberPrefix @ x) g, mk_entry AcctIssuance (- g)] n =
      (Inr (next_record (n_led n) (tx_of L ty [] [mk_entry (MemberPrefix @ x) g, mk_entry AcctIssuance (- g)] n)),
       posted L ty [] [mk_entry (MemberPrefix @ x) g, mk_entry AcctIssuance (- g)] n)" for ty x g n
    by (rule append_tx_posted) simp
  have "case NewNode L cfg t i of Inl _ \<Rightarrow> False
    | Inr n \<Rightarrow> n_members n = [(mc_Name mc, new_member (mc_Name mc) (mc_DisplayName mc))] \<and>
        cfg_Base (n_cfg n) = cfg_Base cfg \<and> cfg_AutoAcceptSeed (n_cfg n) = cfg_AutoAcceptSeed cfg \<and>
        Balance (n_led n) (MemberPrefix @ mc_Name mc) = mc_Grant mc \<and>
        n_contacts n = [] \<and> n_contactByHost n = [] \<and> n_cells n = [] \<and> n_clock n = t \<and> n_transfers n = [] \<and>
        n_keyLocalID n = ''#nk1'' \<and> n_outSeq n = [] \<and> n_inState n = [] \<and>
        (\<forall>p. cfg_PrivKey cfg = Some p \<longrightarrow> n_priv n = p \<and> n_pub n = Public p)"
    using assms
    by (simp add: NewNode_def Let_def grant_member_def grant case_prod_beta empty_node_def mput_def)
       (auto simp: posted_def New_def Balance_def)
  then show ?thesis
    using that by (auto split: sum.splits)
qed

abbreviation demo_a :: Node where "demo_a \<equiv> demo_node ''https://a.example'' ''ann''"
abbreviation demo_b :: Node where "demo_b \<equiv> demo_node ''https://b.example'' ''bob''"

lemma demo_hosts [simp]: "host demo ''https://a.example'' = ''a.example''" "host demo ''https://b.example'' = ''b.example''"
  by (simp_all add: host_def demo_def HasPrefix_def)

lemma demo_node_facts:
  assumes "base \<noteq> []" "validMemberName mem = None"
  shows "NewNode demo (demo_cfg base mem) 0 0 = Inr (demo_node base mem)"
    and "n_members (demo_node base mem) = [(mem, new_member mem [])]"
    and "cfg_Base (n_cfg (demo_node base mem)) = base" "cfg_AutoAcceptSeed (n_cfg (demo_node base mem)) = 5000000"
    and "Balance (n_led (demo_node base mem)) (MemberPrefix @ mem) = 9000000"
    and "host_ref (demo_node base mem) h = None" "contact_ref (demo_node base mem) i = None"
    and "n_cells (demo_node base mem) = []" "n_clock (demo_node base mem) = 0" "n_transfers (demo_node base mem) = []"
    and "n_keyLocalID (demo_node base mem) = ''#nk1''" "n_outSeq (demo_node base mem) = []" "n_inState (demo_node base mem) = []"
    and "n_priv (demo_node base mem) = NewKeyFromSeed demo (replicate 32 (CHR ''s''))"
    and "n_pub (demo_node base mem) = Public (NewKeyFromSeed demo (replicate 32 (CHR ''s'')))"
proof -
  obtain n where "NewNode demo (demo_cfg base mem) 0 0 = Inr n" "n_members n = [(mem, new_member mem [])]"
    "cfg_Base (n_cfg n) = base" "cfg_AutoAcceptSeed (n_cfg n) = 5000000" "Balance (n_led n) (MemberPrefix @ mem) = 9000000"
    "n_contacts n = []" "n_contactByHost n = []" "n_cells n = []" "n_clock n = 0" "n_transfers n = []"
    "n_keyLocalID n = ''#nk1''" "n_outSeq n = []" "n_inState n = []"
    "n_priv n = NewKeyFromSeed demo (replicate 32 (CHR ''s''))" "n_pub n = Public (NewKeyFromSeed demo (replicate 32 (CHR ''s'')))"
    by (rule NewNode_one [of "demo_cfg base mem" "\<lparr>mc_Name = mem, mc_Grant = 9000000, mc_DisplayName = []\<rparr>" demo 0 0])
      (use assms in \<open>simp_all add: demo_cfg_def\<close>)
  then show "NewNode demo (demo_cfg base mem) 0 0 = Inr (demo_node base mem)"
    "n_members (demo_node base mem) = [(mem, new_member mem [])]"
    "cfg_Base (n_cfg (demo_node base mem)) = base" "cfg_AutoAcceptSeed (n_cfg (demo_node base mem)) = 5000000"
    "Balance (n_led (demo_node base mem)) (MemberPrefix @ mem) = 9000000"
    "host_ref (demo_node base mem) h = None" "contact_ref (demo_node base mem) i = None"
    "n_cells (demo_node base mem) = []" "n_clock (demo_node base mem) = 0" "n_transfers (demo_node base mem) = []"
    "n_keyLocalID (demo_node base mem) = ''#nk1''" "n_outSeq (demo_node base mem) = []" "n_inState (demo_node base mem) = []"
    "n_priv (demo_node base mem) = NewKeyFromSeed demo (replicate 32 (CHR ''s''))"
    "n_pub (demo_node base mem) = Public (NewKeyFromSeed demo (replicate 32 (CHR ''s'')))"
    by (simp_all add: demo_node_def host_ref_def contact_ref_def)
qed

lemma demo_names [simp]: "validMemberName ''ann'' = None" "validMemberName ''bob'' = None"
  by (simp_all add: validMemberName_def valid_name_char_def)

lemmas demo_facts [simp] = demo_node_facts [of "''https://a.example''" "''ann''", simplified]
  demo_node_facts [of "''https://b.example''" "''bob''", simplified]

lemma demo_inv [simp]: "node_inv demo_a" "node_inv demo_b"
  using NewNode_inv [OF demo_node_facts(1)] by simp_all

end
