(* ===== verification/LP_Reachable.thy ===== *)
theory LP_Reachable
  imports LP_Effects
begin

text \<open>
  The step relation of a node, its reachable states, and what holds of all of them.
\<close>

section \<open>Steps\<close>

text \<open>
  One rule per operation of the node that changes its state; the clock and the network (what a peer sends or
  answers, which deliveries succeed) are free. Opening a contact needs a fresh random id.
\<close>

inductive node_step :: "lib \<Rightarrow> Node \<Rightarrow> Node \<Rightarrow> bool" for L where
  tick: "n_clock n \<le> t \<Longrightarrow> node_step L n (n\<lparr>n_clock := t\<rparr>)"
| add_member: "node_step L n (snd (AddMember L name display grant n))"
| deactivate: "node_step L n (snd (DeactivateMember name n))"
| reactivate: "node_step L n (snd (Reactivate name n))"
| pay: "node_step L n (snd (Pay L from' to amount n))"
| leave: "node_step L n (snd (Leave L mem mode to n))"
| dividend: "node_step L n (snd (RunUD L n))"
| open_contact: "contact_ref n (newID L (n_rand n)) = None \<Longrightarrow> node_step L n (snd (OpenContact L base seed note n))"
| close_contact: "node_step L n (snd (CloseContact L base note n))"
| retire: "node_step L n (snd (RetireReserve L base n))"
| start_transfer: "node_step L n (snd (StartTransfer L base from' to amount note n))"
| abort_transfer: "node_step L n (snd (AbortTransfer L tid n))"
| adjust_reserve: "node_step L n (snd (AdjustReserve L base delta memo n))"
| sweep_expired: "node_step L n (snd (SweepExpired L n))"
| rotate_key: "node_step L n (snd (RotateKey L n))"
| revoke_key: "node_step L n (snd (RevokeKey L kid n))"
| refresh_keys: "node_step L n (snd (RefreshPeerKeys S base n))"
| receive: "node_step L n (snd (snd (ProcessInbound L S env n)))"
| poll: "node_step L n (snd (PollPeer L S base n))"
| reconcile: "node_step L n (snd (ReconcilePeer L S base n))"
| push: "node_step L n (snd (pushHost deliver h n))"
| set_store: "node_step L n (snd (SetStore s n))"
| set_identity: "node_step L n (SetIdentity name currency symbol n)"

inductive node_reachable :: "lib \<Rightarrow> Node \<Rightarrow> bool" for L where
  created: "NewNode L cfg t i = Inr n \<Longrightarrow> node_reachable L n"
| stepped: "node_reachable L n \<Longrightarrow> node_step L n n' \<Longrightarrow> node_reachable L n'"

lemma node_step_inv: "node_step L n n' \<Longrightarrow> node_inv n \<Longrightarrow> node_inv n'"
  by (induction rule: node_step.induct)
    (simp_all add: AddMember_inv DeactivateMember_inv Reactivate_inv Pay_inv Leave_inv RunUD_inv OpenContact_inv
      CloseContact_inv RetireReserve_inv StartTransfer_inv AbortTransfer_inv AdjustReserve_inv SweepExpired_inv
      RotateKey_inv RevokeKey_inv ProcessInbound_inv PollPeer_inv ReconcilePeer_inv)

lemma reachable_inv: "node_reachable L n \<Longrightarrow> node_inv n"
  by (induction rule: node_reachable.induct) (auto intro: NewNode_inv node_step_inv)

inductive_cases node_reachableE: "node_reachable L n"

lemma demo_reachable: "node_reachable demo demo_a"
  by (rule node_reachable.created [OF demo_facts(1)])

section \<open>Properties of the reachable states\<close>

text \<open>
  C1: the books of a node balance in every state it can reach, whatever its members and administrators do
  and whatever its peers send. The ledger passes its own audit and sums to zero; the two contact maps lead
  to contacts that carry the key they are found under; for every open contact the pool reserve that prices
  payments is exactly the balance of that peer's node wallet, and it is not negative; the wallet of an
  unknown host is empty; and no envelope ever failed to be built (the code would have panicked).
\<close>

theorem reachable_books_balance:
  assumes "node_reachable L n"
  shows "VerifyChain (n_led n) = None \<and> (\<Sum>b\<leftarrow>l_balances (n_led n). snd b) = 0 \<and> \<not> n_panic n \<and>
    (\<forall>h. case host_ref n h of
        None \<Rightarrow> Balance (n_led n) (NodeWalletPrefix @ h) = 0
      | Some r \<Rightarrow> r < length (n_cells n) \<and> c_PeerHost (cell n r) = h \<and>
          (c_Closed (cell n r) \<or>
             Balance (n_led n) (NodeWalletPrefix @ h) = c_MyReserveOfPeer (cell n r) \<and>
             (h = [] \<or> 0 \<le> sint (c_MyReserveOfPeer (cell n r))))) \<and>
    (\<forall>i. case contact_ref n i of None \<Rightarrow> True | Some r \<Rightarrow> r < length (n_cells n) \<and> c_ID (cell n r) = i)"
proof (intro conjI allI)
  have inv: "node_inv n"
    using reachable_inv [OF assms] .
  then have wf: "wf_ledger (n_led n)" and mir: "mirrored n"
    by (simp_all add: node_inv_def)
  show "VerifyChain (n_led n) = None" "(\<Sum>b\<leftarrow>l_balances (n_led n). snd b) = 0" "\<not> n_panic n"
    using wf inv wf_ledger_total by (simp_all add: wf_ledger_def node_inv_def)
  show "case host_ref n h of
        None \<Rightarrow> Balance (n_led n) (NodeWalletPrefix @ h) = 0
      | Some r \<Rightarrow> r < length (n_cells n) \<and> c_PeerHost (cell n r) = h \<and>
          (c_Closed (cell n r) \<or>
             Balance (n_led n) (NodeWalletPrefix @ h) = c_MyReserveOfPeer (cell n r) \<and>
             (h = [] \<or> 0 \<le> sint (c_MyReserveOfPeer (cell n r))))" for h
  proof (cases "host_ref n h")
    case (Some r)
    have r: "r < length (n_cells n)" "c_PeerHost (cell n r) = h"
      using inv_host [OF inv Some] by auto
    have "Balance (n_led n) (NodeWalletPrefix @ h) = c_MyReserveOfPeer (cell n r)" if "\<not> c_Closed (cell n r)"
      using mir r that by (auto simp: mirrored_def wallet_def)
    then show ?thesis
      using Some r wf_ledger_wallets [OF wf, of "NodeWalletPrefix @ h"] by (cases "h = []") auto
  qed (use inv inv_unknown_wallet in \<open>simp add: wallet_def\<close>)
  show "case contact_ref n i of None \<Rightarrow> True | Some r \<Rightarrow> r < length (n_cells n) \<and> c_ID (cell n r) = i" for i
    using inv_contact [OF inv] by (simp split: option.split)
qed

theorem reachable_books_balance_witness:
  "VerifyChain (n_led (snd (OpenContact demo ''https://b.example'' 2000000 [] demo_a))) = None"
proof -
  have "node_reachable demo (snd (OpenContact demo ''https://b.example'' 2000000 [] demo_a))"
    by (rule node_reachable.stepped [OF demo_reachable]) (rule node_step.open_contact, simp)
  then show ?thesis
    using reachable_books_balance by blast
qed

end
