(* ===== verification/LP_Exchange.thy ===== *)
theory LP_Exchange
  imports LP_Effects
begin

text \<open>
  Two nodes that talk to each other: whole exchanges of envelopes, each decoded from the wire by its receiver
  and dispatched by type. A contact that is mirrored on both sides stays so.
\<close>

section \<open>Two sides of one contact\<close>

definition mirror :: "Contact \<Rightarrow> Contact \<Rightarrow> bool" where
  "mirror c d \<longleftrightarrow> c_ID c = c_ID d \<and> c_MyReserveOfPeer c = c_PeerReserveOfMe d \<and> c_PeerReserveOfMe c = c_MyReserveOfPeer d \<and>
     c_OpSeq c = c_OpSeq d \<and> c_ChannelRoot c = c_ChannelRoot d"

text \<open>\<open>n\<close> knows the node with this base by its contact \<open>r\<close>.\<close>

definition knows :: "lib \<Rightarrow> Node \<Rightarrow> cref \<Rightarrow> string \<Rightarrow> bool" where
  "knows L n r base \<longleftrightarrow> host L base \<noteq> [] \<and> host_ref n (host L base) = Some r \<and> contact_ref n (c_ID (cell n r)) = Some r \<and>
     r < length (n_cells n) \<and> c_PeerHost (cell n r) = host L base"

definition paired :: "lib \<Rightarrow> Node \<Rightarrow> cref \<Rightarrow> Node \<Rightarrow> cref \<Rightarrow> bool" where
  "paired L a r b s \<longleftrightarrow>
     knows L a r (cfg_Base (n_cfg b)) \<and> knows L b s (cfg_Base (n_cfg a)) \<and> mirror (cell a r) (cell b s)"

lemma kept_knows: "kept n n' \<Longrightarrow> c_ID (cell n' r) = c_ID (cell n r) \<Longrightarrow> c_PeerHost (cell n' r) = c_PeerHost (cell n r) \<Longrightarrow>
    knows L n r base \<Longrightarrow> knows L n' r base"
  by (simp add: knows_def kept_refs) (simp add: kept_def)

text \<open>The reserve of an open contact is the balance of its wallet.\<close>

lemma inv_reserve:
  "node_inv n \<Longrightarrow> knows L n r base \<Longrightarrow> ready (cell n r) \<Longrightarrow>
     Balance (n_led n) (NodeWalletPrefix @ host L base) = c_MyReserveOfPeer (cell n r)"
  unfolding knows_def by (auto simp: node_inv_def mirrored_def wallet_def ready_def)

section \<open>A payment from one node to another\<close>

definition run_transfer :: "lib \<Rightarrow> string \<Rightarrow> string \<Rightarrow> i64 \<Rightarrow> string \<Rightarrow> Node \<Rightarrow> Node \<Rightarrow> (string \<times> Node \<times> Node) option" where
  "run_transfer L from' to src note a b =
     (case StartTransfer L (cfg_Base (n_cfg b)) from' to src note a of
        (Inl _, _) \<Rightarrow> None
      | (Inr tid, a1) \<Rightarrow>
          (case route L (wire (newest L (cfg_Base (n_cfg b)) a1)) b of
             (None, _) \<Rightarrow> None
           | (Some m2, b1) \<Rightarrow>
               (case route L (wire m2) a1 of
                  (None, _) \<Rightarrow> None
                | (Some m3, a2) \<Rightarrow>
                    (case route L (wire m3) b1 of
                       (None, _) \<Rightarrow> None
                     | (Some m4, b2) \<Rightarrow> Some (tid, snd (route L (wire m4) a2), b2)))))"

lemma route_transfers:
  "envStr env ''type'' = ''transfer.propose'' \<Longrightarrow> route L env n = handleTransferPropose L env n"
  "envStr env ''type'' = ''transfer.accept'' \<Longrightarrow> route L env n = handleTransferAccept L env n"
  "envStr env ''type'' = ''transfer.commit'' \<Longrightarrow> route L env n = handleTransferCommit L env n"
  "envStr env ''type'' = ''transfer.receipt'' \<Longrightarrow> route L env n = handleTransferReceipt L env n"
  by (simp_all add: route_def Let_def)

lemma not_due_proposal:
  assumes "rfc3339_correct L" "n_clock n' = n_clock n"
  shows "not_due L (proposal L c from' to src dst n) n'"
proof -
  have "n_clock n \<le> (n_clock n + 3600000000000) div 1000000000 * 1000000000"
    by linarith
  then show ?thesis
    using assms by (simp add: not_due_def proposal_def rfc3339_correct_def)
qed

lemma transfer_settles:
  assumes inv: "node_inv a" "node_inv b" and pair: "paired L a r b s" and rdy: "ready (cell a r)" "ready (cell b s)"
    and fm: "usable_member a from' = Some fm" "sint src \<le> sint (Balance (n_led a) (MemberPrefix @ m_Name fm))"
    and tm: "usable_member b to \<noteq> None" and price: "priceOutgoing (cell a r) src = Inr dst"
    and room: "sint (c_MyReserveOfPeer (cell a r)) + sint src < 2 ^ 63" and lib: "rfc3339_correct L"
  obtains tid a' b' where "run_transfer L from' to src memo a b = Some (tid, a', b')"
    "TransferState tid a' = ''SETTLED''" "TransferState tid b' = ''SETTLED''"
    "\<And>x. Balance (n_led a') x = Balance (n_led a) x + (if x = MemberPrefix @ localPart from' then - src else
        if x = NodeWalletPrefix @ host L (cfg_Base (n_cfg b)) then src else 0)"
    "\<And>x. Balance (n_led b') x = Balance (n_led b) x + (if x = MemberPrefix @ localPart to then dst else
        if x = NodeWalletPrefix @ host L (cfg_Base (n_cfg a)) then - dst else 0)"
    "paired L a' r b' s" "ready (cell a' r)" "ready (cell b' s)" "c_OpSeq (cell a' r) = c_OpSeq (cell a r) + 1"
    "kept a a'" "kept b b'"
proof -
  define ba bb where "ba = cfg_Base (n_cfg a)" and "bb = cfg_Base (n_cfg b)"
  define tid where "tid = newID L (n_rand a)"
  define t where "t = proposal L (cell a r) from' to src dst a"
  have ka: "knows L a r bb" and kb: "knows L b s ba" and mir: "mirror (cell a r) (cell b s)"
    using pair by (simp_all add: paired_def ba_def bb_def)
  have src: "0 < sint src" and dst: "0 < sint dst" "sint dst < sint (c_PeerReserveOfMe (cell a r))"
    and priced: "priceIncoming (cell b s) src = Inr dst" and res: "0 < sint (c_MyReserveOfPeer (cell a r))"
    using price PoolPrice_bounds [of _ _ src dst] mir
    by (auto simp: priceOutgoing_def priceIncoming_def mirror_def PoolPrice_Inr)
  obtain a1 where a1: "StartTransfer L bb from' to src memo a = (Inr tid, a1)" "kept a a1" "n_led a1 = n_led a"
    "cell a1 r = lock tid (cell a r)" "map_of (n_transfers a1) tid = Some t"
    "envStr (newest L bb a1) ''type'' = ''transfer.propose''" "envStr (newest L bb a1) ''from'' = ba"
    "payloadOf (newest L bb a1) = (propose_payload t memo, True)"
    using ka rdy src fm price unfolding knows_def tid_def t_def ba_def
    by (elim conjE) (rule StartTransfer_ok [of a L bb r src "from'" fm dst "to" memo])
  have t: "t_ID t = tid" "t_ContactID t = c_ID (cell a r)" "t_Outgoing t" "t_State t = ''PROPOSED''" "t_SrcAmount t = src"
    "t_DstAmount t = dst" "t_FromMember t = from'" "t_ToMember t = to" "t_OpSeq t = c_OpSeq (cell a r)"
    by (simp_all add: t_def proposal_def tid_def)
  obtain b1 m2 where b1: "handleTransferPropose L (wire (newest L bb a1)) b = (Some m2, b1)" "kept b b1" "n_led b1 = n_led b"
    "cell b1 s = lock tid (cell b s)"
    "map_of (n_transfers b1) tid = Some (incoming (cell b s) (propose_payload t memo))"
    "envStr m2 ''type'' = ''transfer.accept''" "envStr m2 ''from'' = bb" "payloadOf m2 = ([(''transfer_id'', GStr tid)], True)"
  proof (rule handleTransferPropose_ok [of "wire (newest L bb a1)" "map_obj redecode (propose_payload t memo)" b L s src dst])
    show "host_ref b (host L (envStr (wire (newest L bb a1)) ''from'')) = Some s" "s < length (n_cells b)"
      using kb by (simp_all add: a1 knows_def)
  qed (use rdy priced src mir tm a1 t in \<open>simp_all add: mirror_def tid_def bb_def\<close>)
  define u where "u = incoming (cell b s) (propose_payload t memo)"
  have u: "t_ID u = tid" "t_ContactID u = c_ID (cell b s)" "\<not> t_Outgoing u" "t_State u = ''ACCEPTED''" "t_SrcAmount u = src"
    "t_DstAmount u = dst" "t_ToMember u = to"
    using t by (simp_all add: u_def incoming_def)
  have ka1: "knows L a1 r bb" and kb1: "knows L b1 s ba"
    using kept_knows [OF a1(2) _ _ ka] kept_knows [OF b1(2) _ _ kb] a1(4) b1(4) by (simp_all add: lock_def)
  have ids: "c_ID (cell a1 r) = c_ID (cell a r)" "c_ID (cell b1 s) = c_ID (cell b s)"
    by (simp_all add: a1(4) b1(4) lock_def)
  have wa: "Balance (n_led a1) (NodeWalletPrefix @ host L bb) = c_MyReserveOfPeer (cell a r)"
    and wb: "Balance (n_led b1) (NodeWalletPrefix @ host L ba) = c_MyReserveOfPeer (cell b s)"
    using inv_reserve [OF inv(1) ka rdy(1)] inv_reserve [OF inv(2) kb rdy(2)] a1(3) b1(3) by simp_all
  have hosts: "c_PeerHost (cell a1 r) = host L bb" "c_PeerHost (cell b1 s) = host L ba" "host L ba \<noteq> []" "host L bb \<noteq> []"
    and refs: "contact_ref a1 (t_ContactID t) = Some r" "contact_ref b1 (t_ContactID u) = Some s"
    and lens: "r < length (n_cells a1)" "s < length (n_cells b1)"
    and bases: "cfg_Base (n_cfg a1) = ba" "cfg_Base (n_cfg b1) = bb"
    using ka1 kb1 a1(2) b1(2) ids by (simp_all add: knows_def t u kept_def ba_def bb_def)
  have due: "not_due L t a1"
    using not_due_proposal [OF lib] a1(2) by (simp add: t_def kept_def)
  have can_a: "can_append (Balance (n_led a1)) (out_entries t (c_PeerHost (cell a1 r)))"
    using hosts wa src res room sint_add_exact [of "c_MyReserveOfPeer (cell a r)" src] by (simp add: out_entries_def t)
  have can_b: "can_append (Balance (n_led b1)) (in_entries u (c_PeerHost (cell b1 s)))"
    using hosts wb dst mir sint_sub_nonneg [of dst "c_MyReserveOfPeer (cell b s)"] by (simp add: in_entries_def u mirror_def)
  have m2: "pStr (fst (payloadOf (wire m2))) ''transfer_id'' = tid" "c_PeerHost (cell a1 r) = host L (envStr (wire m2) ''from'')"
    using b1 hosts by (simp_all add: pStr_def)
  obtain a2 m3 ra where a2: "handleTransferAccept L (wire m2) a1 = (Some m3, a2)" "kept a1 a2"
    "\<And>x. Balance (n_led a2) x = Balance (n_led a1) x + booked (out_entries t (c_PeerHost (cell a1 r))) x"
    "Records (n_led a2) = Records (n_led a1) @ [ra]" "cell a2 r = paid_out t (cell a1 r)"
    "map_of (n_transfers a2) tid =
       Some (t\<lparr>t_MyEntry := Some \<lparr>ep_LogSeq = r_Seq ra, ep_LogHash = r_Hash ra\<rparr>, t_State := ''COMMITTED''\<rparr>)"
    "envStr m3 ''type'' = ''transfer.commit''" "envStr m3 ''from'' = cfg_Base (n_cfg a1)"
    "payloadOf m3 = (entry_payload (t_ID t) ra, True)"
    by (rule handleTransferAccept_ok [OF m2(1) a1(5) t(3,4) due refs(1) lens(1) m2(2) can_a]) (rule that)
  have m3: "payloadOf (wire m3) = (map_obj redecode (entry_payload tid ra), True)"
    "pStr (map_obj redecode (entry_payload tid ra)) ''transfer_id'' = tid"
    "c_PeerHost (cell b1 s) = host L (envStr (wire m3) ''from'')"
    using a2(8,9) hosts bases t by (simp_all add: entry_payload_def pStr_def)
  obtain b2 m4 rb where b2: "handleTransferCommit L (wire m3) b1 = (Some m4, b2)" "kept b1 b2"
    "\<And>x. Balance (n_led b2) x = Balance (n_led b1) x + booked (in_entries u (c_PeerHost (cell b1 s))) x"
    "Records (n_led b2) = Records (n_led b1) @ [rb]" "cell b2 s = unlock (paid_in u (cell b1 s))"
    "map_of (n_transfers b2) tid =
       Some (u\<lparr>t_PeerEntry := entry_proof_of (map_obj redecode (entry_payload tid ra)) (t_PeerEntry u),
               t_MyEntry := Some \<lparr>ep_LogSeq = r_Seq rb, ep_LogHash = r_Hash rb\<rparr>, t_State := ''SETTLED'',
               t_Receipt := Some m4\<rparr>)"
    "envStr m4 ''type'' = ''transfer.receipt''" "envStr m4 ''from'' = cfg_Base (n_cfg b1)"
    "payloadOf m4 = (entry_payload (t_ID u) rb, True)"
    by (rule handleTransferCommit_ok [OF m3(1,2) b1(5) [folded u_def] u(3,4) refs(2) lens(2) m3(3) can_b]) (rule that)
  define t2 where "t2 = t\<lparr>t_MyEntry := Some \<lparr>ep_LogSeq = r_Seq ra, ep_LogHash = r_Hash ra\<rparr>, t_State := ''COMMITTED''\<rparr>"
  have t2: "t_Outgoing t2" "t_State t2 = ''COMMITTED''" "t_ContactID t2 = t_ContactID t" "t_ID t2 = tid"
    by (simp_all add: t2_def t)
  have m4: "payloadOf (wire m4) = (map_obj redecode (entry_payload tid rb), True)"
    "pStr (map_obj redecode (entry_payload tid rb)) ''transfer_id'' = tid"
    "c_PeerHost (cell a2 r) = host L (envStr (wire m4) ''from'')"
    using b2(8,9) a2(5) hosts bases u by (simp_all add: entry_payload_def pStr_def paid_out_def)
  have here: "c_BusyTransfer (cell a2 r) = t_ID t2" "contact_ref a2 (t_ContactID t2) = Some r" "r < length (n_cells a2)"
    using a2(2,5) a1(4) refs lens t2 by (simp_all add: paid_out_def lock_def kept_refs) (simp add: kept_def)
  obtain a3 where a3: "handleTransferReceipt L (wire m4) a2 = (None, a3)" "kept a2 a3" "n_led a3 = n_led a2"
    "cell a3 r = unlock (cell a2 r)"
    "map_of (n_transfers a3) tid = Some (t2\<lparr>t_State := ''SETTLED'',
       t_PeerEntry := entry_proof_of (map_obj redecode (entry_payload tid rb)) (t_PeerEntry t2)\<rparr>)"
    by (rule handleTransferReceipt_ok [OF m4(1,2) a2(6) [folded t2_def] t2(1,2) here m4(3)]) (rule that)
  have ka3: "kept a a3" and kb2: "kept b b2"
    using a1(2) a2(2) a3(2) b1(2) b2(2) kept_trans by blast+
  show ?thesis
  proof (rule that [of tid a3 b2])
    show "run_transfer L from' to src memo a b = Some (tid, a3, b2)"
      using a1(1,6) b1(1,6) a2(1,7) b2(1,7) a3(1) by (simp add: run_transfer_def route_transfers flip: bb_def)
    show "TransferState tid a3 = ''SETTLED''" "TransferState tid b2 = ''SETTLED''"
      by (simp_all add: TransferState_def a3(5) b2(6))
    show "Balance (n_led a3) x = Balance (n_led a) x + (if x = MemberPrefix @ localPart from' then - src else
        if x = NodeWalletPrefix @ host L (cfg_Base (n_cfg b)) then src else 0)" for x
      by (simp add: a3(3) a2(3) a1(3) out_entries_def t hosts flip: bb_def)
    show "Balance (n_led b2) x = Balance (n_led b) x + (if x = MemberPrefix @ localPart to then dst else
        if x = NodeWalletPrefix @ host L (cfg_Base (n_cfg a)) then - dst else 0)" for x
      by (simp add: b2(3) b1(3) in_entries_def u hosts flip: ba_def)
    have ca: "cell a3 r = unlock (paid_out t (lock tid (cell a r)))" and cb: "cell b2 s = unlock (paid_in u (lock tid (cell b s)))"
      by (simp_all add: a3(4) a2(5) a1(4) b2(5) b1(4))
    have "mirror (cell a3 r) (cell b2 s)"
      using mir by (simp add: ca cb mirror_def paid_out_def paid_in_def lock_def t u del: op_text.simps)
    moreover have "knows L a3 r bb" "knows L b2 s ba"
      using kept_knows [OF ka3 _ _ ka] kept_knows [OF kb2 _ _ kb] by (simp_all add: ca cb paid_out_def paid_in_def lock_def)
    ultimately show "paired L a3 r b2 s"
      using ka3 kb2 by (simp add: paired_def kept_def ba_def bb_def)
    show "ready (cell a3 r)" "ready (cell b2 s)"
      using rdy by (simp_all add: ca cb ready_def paid_out_def paid_in_def lock_def)
    show "c_OpSeq (cell a3 r) = c_OpSeq (cell a r) + 1"
      by (simp add: ca paid_out_def lock_def)
    show "kept a a3" "kept b b2"
      using ka3 kb2 .
  qed
qed

section \<open>Opening a contact\<close>

text \<open>A node after a contact was added as its newest cell.\<close>

definition gained :: "Node \<Rightarrow> Node \<Rightarrow> Contact \<Rightarrow> bool" where
  "gained n n' c \<longleftrightarrow> n_cfg n' = n_cfg n \<and> n_members n' = n_members n \<and> n_clock n' = n_clock n \<and>
     n_cells n' = n_cells n @ [c] \<and> n_transfers n' = n_transfers n \<and>
     n_contactByHost n' = mput (c_PeerHost c) (length (n_cells n)) (n_contactByHost n) \<and>
     (\<forall>h. host_ref n' h = (if h = c_PeerHost c then Some (length (n_cells n)) else host_ref n h)) \<and>
     (\<forall>i. contact_ref n' i = (if i = c_ID c then Some (length (n_cells n)) else contact_ref n i))"

lemma posted_hosts [simp]: "n_contactByHost (posted L ty ref es n) = n_contactByHost n"
  by (simp add: posted_def)

lemma gained_link:
  "n_cfg m = n_cfg n \<Longrightarrow> n_members m = n_members n \<Longrightarrow> n_clock m = n_clock n \<Longrightarrow> n_cells m = n_cells n \<Longrightarrow>
   n_transfers m = n_transfers n \<Longrightarrow> n_contactByHost m = n_contactByHost n \<Longrightarrow> (\<And>h. host_ref m h = host_ref n h) \<Longrightarrow> (\<And>i. contact_ref m i = contact_ref n i) \<Longrightarrow>
   gained n (link_contact (c_ID c) (c_PeerHost c) (length (n_cells n)) (m\<lparr>n_cells := n_cells m @ [c]\<rparr>)) c"
  by (simp add: gained_def new_refs new_cell_frame) (simp add: link_contact_def)

lemma gained_after [simp]:
  "gained n (snd (buildSigned L ty b re p n')) c = gained n n' c" "gained n (snd (persistLocked n')) c = gained n n' c"
  by (simp_all add: gained_def)

lemma gained_cell: "gained n n' c \<Longrightarrow> cell n' (length (n_cells n)) = c"
  by (simp add: gained_def cell_def)

lemma OpenContact_ok:
  assumes "host_ref n (host L base) = None" "0 < sint seed"
  obtains n1 where "OpenContact L base seed note n = (Inr (newID L (n_rand n)), n1)" "n_led n1 = n_led n"
    "gained n n1 (empty_contact (newID L (n_rand n)) base (host L base) True seed 0)"
    "envStr (newest L base n1) ''type'' = ''contact.propose''" "envStr (newest L base n1) ''from'' = cfg_Base (n_cfg n)"
    "payloadOf (newest L base n1) =
       ([(''contact_id'', GStr (newID L (n_rand n))), (''my_seed'', GInt seed), (''note'', GStr note)], True)"
proof -
  let ?cid = "newID L (n_rand n)"
  let ?c = "empty_contact ?cid base (host L base) True seed 0"
  let ?m = "link_contact ?cid (host L base) (length (n_cells n)) ((snd (draw_id L n))\<lparr>n_cells := n_cells n @ [?c]\<rparr>)"
  let ?n1 = "snd (persistLocked (snd (buildSigned L ''contact.propose'' base []
    [(''contact_id'', GStr ?cid), (''my_seed'', GInt seed), (''note'', GStr note)] ?m)))"
  show ?thesis
  proof (rule that [of ?n1])
    show "OpenContact L base seed note n = (Inr ?cid, ?n1)"
      using assms by (simp add: OpenContact_def Let_def case_prod_beta new_cell_def)
    have "gained n ?m ?c"
      using gained_link [of "snd (draw_id L n)" n ?c] by (simp add: empty_contact_def)
    then show "gained n ?n1 ?c"
      by simp
  qed (simp_all add: built_get new_refs, simp_all add: link_contact_def)
qed

text \<open>A contact as both sides have it once it is open.\<close>

definition opened :: "string \<Rightarrow> string \<Rightarrow> string \<Rightarrow> bool \<Rightarrow> i64 \<Rightarrow> i64 \<Rightarrow> Contact" where
  "opened cid base h proposer pseed rseed =
     seeded ((empty_contact cid base h proposer pseed rseed)
       \<lparr>c_MyReserveOfPeer := (if proposer then pseed else rseed),
        c_PeerReserveOfMe := (if proposer then rseed else pseed)\<rparr>)\<lparr>c_Active := True\<rparr>"

definition seed_entries :: "string \<Rightarrow> i64 \<Rightarrow> entry list" where
  "seed_entries h x = [mk_entry (NodeWalletPrefix @ h) x, mk_entry AcctIssuance (- x)]"

lemma handleContactPropose_ok:
  assumes "payloadOf env = (p, True)" "0 < sint (cfg_AutoAcceptSeed (n_cfg n))" "pInt p ''my_seed'' = (seed, True)" "0 < sint seed"
    and free: "host_ref n (host L (envStr env ''from'')) = None"
    and can: "can_append (Balance (n_led n)) (seed_entries (host L (envStr env ''from'')) (cfg_AutoAcceptSeed (n_cfg n)))"
  obtains n1 env1 where "handleContactPropose L env n = (Some env1, n1)"
    "\<And>a. Balance (n_led n1) a =
       Balance (n_led n) a + booked (seed_entries (host L (envStr env ''from'')) (cfg_AutoAcceptSeed (n_cfg n))) a"
    "gained n n1 (opened (pStr p ''contact_id'') (envStr env ''from'') (host L (envStr env ''from'')) False seed
       (cfg_AutoAcceptSeed (n_cfg n)))"
    "envStr env1 ''type'' = ''contact.accept''" "envStr env1 ''from'' = cfg_Base (n_cfg n)"
    "payloadOf env1 =
       ([(''contact_id'', GStr (pStr p ''contact_id'')), (''my_seed'', GInt (cfg_AutoAcceptSeed (n_cfg n)))], True)"
proof -
  let ?h = "host L (envStr env ''from'')" and ?rs = "cfg_AutoAcceptSeed (n_cfg n)" and ?cid = "pStr p ''contact_id''"
  let ?c = "opened ?cid (envStr env ''from'') ?h False seed ?rs"
  let ?po = "posted L ''contact.seed'' [] (seed_entries ?h ?rs) n"
  let ?m = "link_contact ?cid ?h (length (n_cells n)) (?po\<lparr>n_cells := n_cells n @ [?c]\<rparr>)"
  let ?b = "buildSigned L ''contact.accept'' (envStr env ''from'') (envStr env ''id'')
    [(''contact_id'', GStr ?cid), (''my_seed'', GInt ?rs)] ?m"
  have c: "c_ID ?c = ?cid" "c_PeerHost ?c = ?h"
    by (simp_all add: opened_def empty_contact_def)
  have led: "seedLedger L ?h ?rs n = (Inr (next_record (n_led n) (tx_of L ''contact.seed'' [] (seed_entries ?h ?rs) n)), ?po)"
    using can by (simp add: seedLedger_def append_tx_posted flip: seed_entries_def)
  show ?thesis
  proof (rule that [of "fst ?b" "snd ?b"])
    show "handleContactPropose L env n = (Some (fst ?b), snd ?b)"
      using assms(1-5) led
      by (simp add: handleContactPropose_def Let_def applySeed_eq new_cell_def reply_def opened_def empty_contact_def)
    have "gained n ?m ?c"
      using gained_link [of ?po n ?c] by (simp add: c)
    then show "gained n (snd ?b) ?c"
      by simp
    show "Balance (n_led (snd ?b)) a = Balance (n_led n) a + booked (seed_entries ?h ?rs) a" for a
      by (simp add: new_refs)
  qed (simp_all add: built_get, simp_all add: link_contact_def)
qed

lemma handleContactAccept_ok:
  assumes "payloadOf env = (p, True)" "pInt p ''my_seed'' = (rs, True)" "0 < sint rs"
    and r: "contact_ref n (pStr p ''contact_id'') = Some r" "r < length (n_cells n)"
    and c: "cell n r = empty_contact cid base h True seed 0" "h = host L (envStr env ''from'')"
    and can: "can_append (Balance (n_led n)) (seed_entries h seed)"
  obtains n1 where "handleContactAccept L env n = (None, n1)" "kept n n1"
    "\<And>a. Balance (n_led n1) a = Balance (n_led n) a + booked (seed_entries h seed) a"
    "cell n1 r = opened cid base h True seed rs"
proof -
  let ?c1 = "empty_contact cid base h True seed 0\<lparr>c_ResponderSeed := rs\<rparr>"
  let ?po = "posted L ''contact.seed'' [] (seed_entries h seed) (set_cell r ?c1 n)"
  have led: "seedLedger L h seed (set_cell r ?c1 n) =
      (Inr (next_record (n_led n) (tx_of L ''contact.seed'' [] (seed_entries h seed) (set_cell r ?c1 n))), ?po)"
    using can by (simp add: seedLedger_def append_tx_posted flip: seed_entries_def)
  have run: "handleContactAccept L env n = (None, set_cell r (opened cid base h True seed rs) ?po)"
    using assms(1-4) c led
    by (simp add: handleContactAccept_def Let_def applySeed_eq no_reply_def opened_def empty_contact_def)
  show ?thesis
    by (rule that [OF run]) (use r in \<open>simp_all add: kept_def cell_set_cell, simp_all add: posted_def set_cell_def\<close>)
qed

definition run_contact :: "lib \<Rightarrow> i64 \<Rightarrow> string \<Rightarrow> Node \<Rightarrow> Node \<Rightarrow> (Node \<times> Node) option" where
  "run_contact L seed note a b =
     (case OpenContact L (cfg_Base (n_cfg b)) seed note a of
        (Inl _, _) \<Rightarrow> None
      | (Inr _, a1) \<Rightarrow>
          (case route L (wire (newest L (cfg_Base (n_cfg b)) a1)) b of
             (None, _) \<Rightarrow> None
           | (Some m2, b1) \<Rightarrow> Some (snd (route L (wire m2) a1), b1)))"

lemma route_contacts:
  "envStr env ''type'' = ''contact.propose'' \<Longrightarrow> route L env n = handleContactPropose L env n"
  "envStr env ''type'' = ''contact.accept'' \<Longrightarrow> route L env n = handleContactAccept L env n"
  by (simp_all add: route_def Let_def)

lemma inv_unknown: "node_inv n \<Longrightarrow> host_ref n h = None \<Longrightarrow> Balance (n_led n) (NodeWalletPrefix @ h) = 0"
  using inv_unknown_wallet by (simp add: wallet_def)

lemma opened_simps [simp]:
  "c_ID (opened cid base h pr ps rs) = cid" "c_PeerBase (opened cid base h pr ps rs) = base"
  "c_PeerHost (opened cid base h pr ps rs) = h" "ready (opened cid base h pr ps rs)"
  "c_MyReserveOfPeer (opened cid base h pr ps rs) = (if pr then ps else rs)"
  "c_PeerReserveOfMe (opened cid base h pr ps rs) = (if pr then rs else ps)"
  "c_OpSeq (opened cid base h pr ps rs) = 0"
  "c_ChannelRoot (opened cid base h pr ps rs) = sha256 (ChannelRoot0 cid @ op_text (''seed'', cid, ps, rs))"
  "c_AppliedAdjusts (opened cid base h pr ps rs) = []"
  by (simp_all add: opened_def empty_contact_def ready_def seeded_def recordRoot_def Let_def del: op_text.simps)

lemma empty_contact_host [simp]: "c_PeerHost (empty_contact cid base h pr ps rs) = h"
  by (simp add: empty_contact_def)

lemma contact_opens:
  assumes inv: "node_inv a" "node_inv b" and seed: "0 < sint seed" "0 < sint (cfg_AutoAcceptSeed (n_cfg b))"
    and free: "host_ref a (host L (cfg_Base (n_cfg b))) = None" "host_ref b (host L (cfg_Base (n_cfg a))) = None"
    and hosts: "host L (cfg_Base (n_cfg a)) \<noteq> []" "host L (cfg_Base (n_cfg b)) \<noteq> []"
  obtains a' b' where "run_contact L seed note a b = Some (a', b')"
    "n_cfg a' = n_cfg a" "n_members a' = n_members a" "n_cfg b' = n_cfg b" "n_members b' = n_members b"
    "\<And>x. Balance (n_led a') x = Balance (n_led a) x + booked (seed_entries (host L (cfg_Base (n_cfg b))) seed) x"
    "\<And>x. Balance (n_led b') x =
       Balance (n_led b) x + booked (seed_entries (host L (cfg_Base (n_cfg a))) (cfg_AutoAcceptSeed (n_cfg b))) x"
    "paired L a' (length (n_cells a)) b' (length (n_cells b))"
    "n_contactByHost a' = mput (host L (cfg_Base (n_cfg b))) (length (n_cells a)) (n_contactByHost a)"
    "n_contactByHost b' = mput (host L (cfg_Base (n_cfg a))) (length (n_cells b)) (n_contactByHost b)"
    "cell a' (length (n_cells a)) = opened (newID L (n_rand a)) (cfg_Base (n_cfg b)) (host L (cfg_Base (n_cfg b))) True seed
       (cfg_AutoAcceptSeed (n_cfg b))"
    "cell b' (length (n_cells b)) = opened (newID L (n_rand a)) (cfg_Base (n_cfg a)) (host L (cfg_Base (n_cfg a))) False seed
       (cfg_AutoAcceptSeed (n_cfg b))"
proof -
  define ba bb cid rs where "ba = cfg_Base (n_cfg a)" and "bb = cfg_Base (n_cfg b)" and "cid = newID L (n_rand a)"
    and "rs = cfg_AutoAcceptSeed (n_cfg b)"
  obtain a1 where a1: "OpenContact L bb seed note a = (Inr cid, a1)" "n_led a1 = n_led a"
    "gained a a1 (empty_contact cid bb (host L bb) True seed 0)"
    "envStr (newest L bb a1) ''type'' = ''contact.propose''" "envStr (newest L bb a1) ''from'' = ba"
    "payloadOf (newest L bb a1) = ([(''contact_id'', GStr cid), (''my_seed'', GInt seed), (''note'', GStr note)], True)"
    using OpenContact_ok [OF free(1) seed(1)] unfolding ba_def bb_def cid_def by metis
  define p where "p = [(''contact_id'', GStr cid), (''my_seed'', GInt seed), (''note'', GStr note)]"
  have p: "pStr (map_obj redecode p) ''contact_id'' = cid" "pInt (map_obj redecode p) ''my_seed'' = (seed, True)"
    "payloadOf (wire (newest L bb a1)) = (map_obj redecode p, True)" "envStr (wire (newest L bb a1)) ''from'' = ba"
    using a1(5,6) by (simp_all add: p_def pStr_def pInt_def ParseInt_dec64)
  have can_b: "can_append (Balance (n_led b)) (seed_entries (host L ba) rs)"
    using inv_unknown [OF inv(2) free(2)] seed(2) hosts by (simp add: seed_entries_def rs_def ba_def)
  obtain b1 m2 where b1: "handleContactPropose L (wire (newest L bb a1)) b = (Some m2, b1)"
    "\<And>x. Balance (n_led b1) x = Balance (n_led b) x + booked (seed_entries (host L ba) rs) x"
    "gained b b1 (opened cid ba (host L ba) False seed rs)"
    "envStr m2 ''type'' = ''contact.accept''" "envStr m2 ''from'' = bb"
    "payloadOf m2 = ([(''contact_id'', GStr cid), (''my_seed'', GInt rs)], True)"
    using handleContactPropose_ok [OF p(3) seed(2) p(2) seed(1), unfolded p(1,4), OF free(2) [folded ba_def]] can_b
    unfolding rs_def bb_def by metis
  define q where "q = [(''contact_id'', GStr cid), (''my_seed'', GInt rs)]"
  have q: "pStr (map_obj redecode q) ''contact_id'' = cid" "pInt (map_obj redecode q) ''my_seed'' = (rs, True)"
    "payloadOf (wire m2) = (map_obj redecode q, True)" "envStr (wire m2) ''from'' = bb"
    using b1(5,6) by (simp_all add: q_def pStr_def pInt_def ParseInt_dec64)
  have here: "contact_ref a1 (pStr (map_obj redecode q) ''contact_id'') = Some (length (n_cells a))"
    "length (n_cells a) < length (n_cells a1)"
    using a1(3) q(1) by (simp_all add: gained_def empty_contact_def)
  have can_a: "can_append (Balance (n_led a1)) (seed_entries (host L bb) seed)"
    using inv_unknown [OF inv(1) free(1)] seed(1) hosts by (simp add: seed_entries_def bb_def a1(2))
  obtain a2 where a2: "handleContactAccept L (wire m2) a1 = (None, a2)" "kept a1 a2"
    "\<And>x. Balance (n_led a2) x = Balance (n_led a1) x + booked (seed_entries (host L bb) seed) x"
    "cell a2 (length (n_cells a)) = opened cid bb (host L bb) True seed rs"
    using handleContactAccept_ok [OF q(3,2) seed(2) [folded rs_def] here gained_cell [OF a1(3)] _ can_a] q(4) by metis
  show ?thesis
  proof (rule that [of a2 b1])
    show "run_contact L seed note a b = Some (a2, b1)"
      using a1(1,4) b1(1,4) a2(1) by (simp add: run_contact_def route_contacts flip: bb_def)
    have "knows L a2 (length (n_cells a)) bb" "knows L b1 (length (n_cells b)) ba"
      using a1(3) a2(2,4) b1(3) hosts gained_cell [OF b1(3)]
      by (simp_all add: knows_def kept_refs gained_def empty_contact_def ba_def bb_def) (simp add: kept_def)
    then show "paired L a2 (length (n_cells a)) b1 (length (n_cells b))"
      using a1(3) a2(2,4) b1(3) gained_cell [OF b1(3)]
      by (simp add: paired_def mirror_def gained_def kept_def ba_def bb_def del: op_text.simps)
  qed (use a1 b1 a2 gained_cell [OF b1(3)] in
      \<open>simp_all add: gained_def kept_def flip: ba_def bb_def cid_def rs_def\<close>)
qed

section \<open>Adjusting a reserve\<close>

definition run_adjust :: "lib \<Rightarrow> i64 \<Rightarrow> string \<Rightarrow> Node \<Rightarrow> Node \<Rightarrow> (Node \<times> Node) option" where
  "run_adjust L delta memo a b =
     (case AdjustReserve L (cfg_Base (n_cfg b)) delta memo a of
        (Inl _, _) \<Rightarrow> None
      | (Inr _, a1) \<Rightarrow>
          (case route L (wire (newest L (cfg_Base (n_cfg b)) a1)) b of
             (None, _) \<Rightarrow> None
           | (Some m2, b1) \<Rightarrow> Some (snd (route L (wire m2) a1), b1)))"

lemma route_adjusts:
  "envStr env ''type'' = ''reserve.adjust'' \<Longrightarrow> route L env n = handleReserveAdjust L env n"
  "envStr env ''type'' = ''reserve.accept'' \<Longrightarrow> route L env n = handleReserveAccept L env n"
  by (simp_all add: route_def Let_def)

definition asking :: "string \<Rightarrow> i64 \<Rightarrow> Contact \<Rightarrow> Contact" where
  "asking aid d c = c\<lparr>c_Busy := True, c_BusyTransfer := aid, c_PendingAdjustID := aid, c_PendingAdjustDelta := d\<rparr>"

definition adjust_entries :: "string \<Rightarrow> i64 \<Rightarrow> entry list" where
  "adjust_entries h d = [mk_entry (NodeWalletPrefix @ h) d, mk_entry AcctTreasury (- d)]"

lemma AdjustReserve_ok:
  assumes "host_ref n (host L base) = Some r" "r < length (n_cells n)" "ready (cell n r)" "d \<noteq> 0"
    "0 \<le> sint (c_MyReserveOfPeer (cell n r) + d)"
  obtains n1 where "AdjustReserve L base d memo n = (Inr (newID L (n_rand n)), n1)" "kept n n1" "n_led n1 = n_led n"
    "cell n1 r = asking (newID L (n_rand n)) d (cell n r)"
    "envStr (newest L base n1) ''type'' = ''reserve.adjust''" "envStr (newest L base n1) ''from'' = cfg_Base (n_cfg n)"
    "payloadOf (newest L base n1) =
       ([(''contact_id'', GStr (c_ID (cell n r))), (''op_seq'', GInt (c_OpSeq (cell n r))),
         (''adjust_id'', GStr (newID L (n_rand n))), (''my_delta'', GInt d), (''memo'', GStr memo)], True)"
proof -
  let ?aid = "newID L (n_rand n)"
  let ?p = "[(''contact_id'', GStr (c_ID (cell n r))), (''op_seq'', GInt (c_OpSeq (cell n r))),
         (''adjust_id'', GStr ?aid), (''my_delta'', GInt d), (''memo'', GStr memo)]"
  let ?n1 = "snd (persistLocked (snd (buildSigned L ''reserve.adjust'' base [] ?p
    (set_cell r (asking ?aid d (cell n r)) (snd (draw_id L n))))))"
  show ?thesis
  proof (rule that [of ?n1])
    show "AdjustReserve L base d memo n = (Inr ?aid, ?n1)"
      using assms by (simp add: AdjustReserve_def ready_def Let_def case_prod_beta asking_def)
  qed (use assms(2) in \<open>simp_all add: kept_def cell_set_cell built_get\<close>)
qed

lemma handleReserveAdjust_ok:
  assumes "payloadOf env = (p, True)" "host_ref n (host L (envStr env ''from'')) = Some r" "r < length (n_cells n)"
    and "ready (cell n r)" "fst (pInt p ''op_seq'') = c_OpSeq (cell n r)" "pInt p ''my_delta'' = (d, True)" "d \<noteq> 0"
    and "map_of (c_AppliedAdjusts (cell n r)) (pStr p ''adjust_id'') \<noteq> Some True" "0 \<le> sint (c_PeerReserveOfMe (cell n r) + d)"
  obtains n1 env1 where "handleReserveAdjust L env n = (Some env1, n1)" "kept n n1" "n_led n1 = n_led n"
    "\<exists>adj. cell n1 r = (folded ''adjust'' (pStr p ''adjust_id'') d 0
       (cell n r\<lparr>c_PeerReserveOfMe := c_PeerReserveOfMe (cell n r) + d\<rparr>))\<lparr>c_AppliedAdjusts := adj\<rparr>"
    "envStr env1 ''type'' = ''reserve.accept''" "envStr env1 ''from'' = cfg_Base (n_cfg n)"
    "payloadOf env1 = ([(''contact_id'', GStr (c_ID (cell n r))), (''adjust_id'', GStr (pStr p ''adjust_id''))], True)"
proof -
  let ?aid = "pStr p ''adjust_id''"
  let ?c = "(folded ''adjust'' ?aid d 0 (cell n r\<lparr>c_PeerReserveOfMe := c_PeerReserveOfMe (cell n r) + d\<rparr>))
    \<lparr>c_AppliedAdjusts := mput ?aid True (c_AppliedAdjusts (cell n r))\<rparr>"
  let ?b = "buildSigned L ''reserve.accept'' (c_PeerBase (cell n r)) (envStr env ''id'')
    [(''contact_id'', GStr (c_ID (cell n r))), (''adjust_id'', GStr ?aid)] (set_cell r ?c n)"
  show ?thesis
  proof (rule that [of "fst ?b" "snd ?b"])
    show "handleReserveAdjust L env n = (Some (fst ?b), snd ?b)"
      using assms by (simp add: handleReserveAdjust_def ready_def Let_def applyAdjust_eq reply_def)
  qed (use assms(3) in \<open>simp_all add: kept_def cell_set_cell built_get, blast?\<close>)
qed

lemma handleReserveAccept_ok:
  assumes "payloadOf env = (p, True)" "host_ref n (host L (envStr env ''from'')) = Some r" "r < length (n_cells n)"
    and "c_PendingAdjustID (cell n r) = pStr p ''adjust_id''" "c_PendingAdjustDelta (cell n r) = d"
    and can: "can_append (Balance (n_led n)) (adjust_entries (c_PeerHost (cell n r)) d)"
  obtains n1 where "handleReserveAccept L env n = (None, n1)" "kept n n1"
    "\<And>a. Balance (n_led n1) a = Balance (n_led n) a + booked (adjust_entries (c_PeerHost (cell n r)) d) a"
    "cell n1 r = (unlock (folded ''adjust'' (pStr p ''adjust_id'') d 0
       (cell n r\<lparr>c_MyReserveOfPeer := c_MyReserveOfPeer (cell n r) + d\<rparr>)))\<lparr>c_PendingAdjustID := [], c_PendingAdjustDelta := 0\<rparr>"
proof -
  let ?po = "posted L ''reserve.adjust'' (pStr p ''adjust_id'') (adjust_entries (c_PeerHost (cell n r)) d) n"
  let ?c = "(unlock (folded ''adjust'' (pStr p ''adjust_id'') d 0
       (cell n r\<lparr>c_MyReserveOfPeer := c_MyReserveOfPeer (cell n r) + d\<rparr>)))\<lparr>c_PendingAdjustID := [], c_PendingAdjustDelta := 0\<rparr>"
  have app: "append_tx L ''reserve.adjust'' (pStr p ''adjust_id'') (adjust_entries (c_PeerHost (cell n r)) d) n =
      (Inr (next_record (n_led n) (tx_of L ''reserve.adjust'' (pStr p ''adjust_id'')
         (adjust_entries (c_PeerHost (cell n r)) d) n)), ?po)"
    using can by (rule append_tx_posted)
  have run: "handleReserveAccept L env n = (None, set_cell r ?c ?po)"
    using assms(1-5) app by (simp add: handleReserveAccept_def Let_def applyAdjust_eq no_reply_def adjust_entries_def)
  show ?thesis
    by (rule that [OF run]) (use assms(3) in \<open>simp_all add: kept_def cell_set_cell, simp_all add: posted_def\<close>)
qed

lemma adjust_applies:
  assumes inv: "node_inv a" and pair: "paired L a r b s" and rdy: "ready (cell a r)" "ready (cell b s)"
    and d: "d \<noteq> 0" "0 \<le> sint (c_MyReserveOfPeer (cell a r) + d)"
    and fresh: "map_of (c_AppliedAdjusts (cell b s)) (newID L (n_rand a)) \<noteq> Some True"
  obtains a' b' where "run_adjust L d memo a b = Some (a', b')"
    "\<And>x. Balance (n_led a') x = Balance (n_led a) x + booked (adjust_entries (host L (cfg_Base (n_cfg b))) d) x"
    "n_led b' = n_led b" "paired L a' r b' s" "ready (cell a' r)" "ready (cell b' s)"
    "c_MyReserveOfPeer (cell a' r) = c_MyReserveOfPeer (cell a r) + d" "c_OpSeq (cell a' r) = c_OpSeq (cell a r) + 1"
proof -
  define ba bb aid where "ba = cfg_Base (n_cfg a)" and "bb = cfg_Base (n_cfg b)" and "aid = newID L (n_rand a)"
  have ka: "knows L a r bb" and kb: "knows L b s ba" and mir: "mirror (cell a r) (cell b s)"
    using pair by (simp_all add: paired_def ba_def bb_def)
  define p where "p = [(''contact_id'', GStr (c_ID (cell a r))), (''op_seq'', GInt (c_OpSeq (cell a r))),
    (''adjust_id'', GStr aid), (''my_delta'', GInt d), (''memo'', GStr memo)]"
  obtain a1 where a1: "AdjustReserve L bb d memo a = (Inr aid, a1)" "kept a a1" "n_led a1 = n_led a"
    "cell a1 r = asking aid d (cell a r)"
    "envStr (newest L bb a1) ''type'' = ''reserve.adjust''" "envStr (newest L bb a1) ''from'' = ba"
    "payloadOf (newest L bb a1) = (p, True)"
    using ka rdy d unfolding knows_def aid_def ba_def p_def
    by (elim conjE) (rule AdjustReserve_ok [of a L bb r d memo])
  have q: "payloadOf (wire (newest L bb a1)) = (map_obj redecode p, True)" "envStr (wire (newest L bb a1)) ''from'' = ba"
    "fst (pInt (map_obj redecode p) ''op_seq'') = c_OpSeq (cell b s)" "pInt (map_obj redecode p) ''my_delta'' = (d, True)"
    "pStr (map_obj redecode p) ''adjust_id'' = aid"
    using a1(6,7) mir by (simp_all add: p_def pStr_def pInt_def ParseInt_dec64 mirror_def)
  have hb: "host_ref b (host L (envStr (wire (newest L bb a1)) ''from'')) = Some s" "s < length (n_cells b)"
    using kb q(2) by (simp_all add: knows_def)
  have d_b: "0 \<le> sint (c_PeerReserveOfMe (cell b s) + d)"
    using d(2) mir by (simp add: mirror_def)
  obtain b1 m2 adj where b1: "handleReserveAdjust L (wire (newest L bb a1)) b = (Some m2, b1)" "kept b b1" "n_led b1 = n_led b"
    "cell b1 s = (folded ''adjust'' aid d 0 (cell b s\<lparr>c_PeerReserveOfMe := c_PeerReserveOfMe (cell b s) + d\<rparr>))
       \<lparr>c_AppliedAdjusts := adj\<rparr>"
    "envStr m2 ''type'' = ''reserve.accept''" "envStr m2 ''from'' = bb"
    "payloadOf m2 = ([(''contact_id'', GStr (c_ID (cell b s))), (''adjust_id'', GStr aid)], True)"
    using handleReserveAdjust_ok [OF q(1) hb rdy(2) q(3,4) d(1), unfolded q(5), OF fresh [folded aid_def] d_b]
    unfolding bb_def by metis
  define q2 where "q2 = map_obj redecode [(''contact_id'', GStr (c_ID (cell b s))), (''adjust_id'', GStr aid)]"
  have m2: "payloadOf (wire m2) = (q2, True)" and q2: "pStr q2 ''adjust_id'' = aid"
    using b1(7) by (simp_all add: q2_def pStr_def)
  have ka1: "knows L a1 r bb"
    using kept_knows [OF a1(2) _ _ ka] a1(4) by (simp add: asking_def)
  have ha: "host_ref a1 (host L (envStr (wire m2) ''from'')) = Some r" "r < length (n_cells a1)"
    "c_PendingAdjustID (cell a1 r) = pStr q2 ''adjust_id''" "c_PendingAdjustDelta (cell a1 r) = d"
    using ka1 b1(6) a1(4) by (simp_all add: knows_def asking_def q2)
  have host_a: "c_PeerHost (cell a1 r) = host L bb" "host L bb \<noteq> []"
    using ka1 by (simp_all add: knows_def)
  have can: "can_append (Balance (n_led a1)) (adjust_entries (c_PeerHost (cell a1 r)) d)"
    using host_a inv_reserve [OF inv ka rdy(1)] a1(3) d(2) by (simp add: adjust_entries_def)
  obtain a2 where a2: "handleReserveAccept L (wire m2) a1 = (None, a2)" "kept a1 a2"
    "\<And>x. Balance (n_led a2) x = Balance (n_led a1) x + booked (adjust_entries (host L bb) d) x"
    "cell a2 r = (unlock (folded ''adjust'' aid d 0
       (cell a1 r\<lparr>c_MyReserveOfPeer := c_MyReserveOfPeer (cell a1 r) + d\<rparr>)))\<lparr>c_PendingAdjustID := [], c_PendingAdjustDelta := 0\<rparr>"
    by (rule handleReserveAccept_ok [OF m2 ha can, unfolded host_a(1) q2]) (rule that)
  have ka2: "kept a a2"
    using a1(2) a2(2) kept_trans by blast
  show ?thesis
  proof (rule that [of a2 b1])
    show "run_adjust L d memo a b = Some (a2, b1)"
      using a1(1,5) b1(1,5) a2(1) by (simp add: run_adjust_def route_adjusts flip: bb_def)
    have ca: "cell a2 r = (unlock (folded ''adjust'' aid d 0
       (asking aid d (cell a r)\<lparr>c_MyReserveOfPeer := c_MyReserveOfPeer (cell a r) + d\<rparr>)))
         \<lparr>c_PendingAdjustID := [], c_PendingAdjustDelta := 0\<rparr>"
      by (simp add: a2(4) a1(4) asking_def)
    have "mirror (cell a2 r) (cell b1 s)"
      using mir by (simp add: ca b1(4) mirror_def asking_def del: op_text.simps)
    moreover have "knows L a2 r bb" "knows L b1 s ba"
      using kept_knows [OF ka2 _ _ ka] kept_knows [OF b1(2) _ _ kb] by (simp_all add: ca b1(4) asking_def)
    ultimately show "paired L a2 r b1 s"
      using ka2 b1(2) by (simp add: paired_def kept_def ba_def bb_def)
    show "ready (cell a2 r)" "ready (cell b1 s)"
      using rdy by (simp_all add: ca b1(4) ready_def asking_def)
    show "c_MyReserveOfPeer (cell a2 r) = c_MyReserveOfPeer (cell a r) + d" "c_OpSeq (cell a2 r) = c_OpSeq (cell a r) + 1"
      by (simp_all add: ca asking_def)
  qed (use a1(3) a2(3) b1(3) in \<open>simp_all add: bb_def\<close>)
qed

section \<open>Properties of the exchanges\<close>

lemma run_contact_inv:
  assumes "run_contact L seed note a b = Some (a', b')" "node_inv a" "node_inv b" "contact_ref a (newID L (n_rand a)) = None"
  shows "node_inv a'" "node_inv b'"
proof -
  obtain cid a1 m2 where steps: "OpenContact L (cfg_Base (n_cfg b)) seed note a = (Inr cid, a1)"
    "route L (wire (newest L (cfg_Base (n_cfg b)) a1)) b = (Some m2, b')" "a' = snd (route L (wire m2) a1)"
    using assms(1) by (auto simp: run_contact_def split: prod.splits sum.splits option.splits)
  then have "node_inv a1" "node_inv b'"
    using OpenContact_inv [OF assms(2,4)] route_inv [OF assms(3)] by (metis snd_conv)+
  then show "node_inv a'" "node_inv b'"
    using route_inv steps(3) by blast+
qed

lemma demo_pair:
  obtains a b where "paired demo a 0 b 0" "ready (cell a 0)" "ready (cell b 0)" "node_inv a" "node_inv b"
    "usable_member a ''ann'' = Some (new_member ''ann'' [])" "usable_member b ''bob'' \<noteq> None"
    "Balance (n_led a) (MemberPrefix @ ''ann'') = 9000000" "c_MyReserveOfPeer (cell a 0) = 2000000"
    "c_PeerReserveOfMe (cell a 0) = 5000000" "c_AppliedAdjusts (cell b 0) = []"
proof -
  obtain a b where ab: "run_contact demo 2000000 [] demo_a demo_b = Some (a, b)"
    "n_members a = n_members demo_a" "n_members b = n_members demo_b"
    "Balance (n_led a) (MemberPrefix @ ''ann'') = 9000000" "paired demo a 0 b 0"
    "cell a 0 = opened (newID demo (n_rand demo_a)) ''https://b.example'' ''b.example'' True 2000000 5000000"
    "cell b 0 = opened (newID demo (n_rand demo_a)) ''https://a.example'' ''a.example'' False 2000000 5000000"
    by (rule contact_opens [of demo_a demo_b 2000000 demo "[]"]) (simp_all add: seed_entries_def)
  have "node_inv a" "node_inv b"
    using run_contact_inv [OF ab(1)] by simp_all
  then show ?thesis
    using ab by (intro that [of a b])
      (simp_all add: usable_member_def localPart_def new_member_def)
qed

text \<open>
  C8: opening a contact works and leaves both sides with one picture of it. When neither node has a contact
  with the other and the asked node accepts automatically, the three steps (propose, accept, activate) end
  with an open contact on each side: the same id, operation number and channel root, each side's reserve
  of the other equal to what the other believes it is, each funded by its own issuance and nothing else moved.
\<close>

theorem contact_opening_mirrors:
  assumes "node_inv a" "node_inv b" "0 < sint seed" "0 < sint (cfg_AutoAcceptSeed (n_cfg b))"
    and "host_ref a (host L (cfg_Base (n_cfg b))) = None" "host_ref b (host L (cfg_Base (n_cfg a))) = None"
    and "host L (cfg_Base (n_cfg a)) \<noteq> []" "host L (cfg_Base (n_cfg b)) \<noteq> []"
  shows "\<exists>a' b' r s. run_contact L seed note a b = Some (a', b') \<and> paired L a' r b' s \<and>
    ready (cell a' r) \<and> ready (cell b' s) \<and>
    c_MyReserveOfPeer (cell a' r) = seed \<and> c_MyReserveOfPeer (cell b' s) = cfg_AutoAcceptSeed (n_cfg b) \<and>
    (\<forall>x. Balance (n_led a') x = Balance (n_led a) x + (if x = NodeWalletPrefix @ host L (cfg_Base (n_cfg b)) then seed
        else if x = AcctIssuance then - seed else 0))"
proof -
  obtain a' b' where "run_contact L seed note a b = Some (a', b')"
    "paired L a' (length (n_cells a)) b' (length (n_cells b))"
    "\<And>x. Balance (n_led a') x = Balance (n_led a) x + booked (seed_entries (host L (cfg_Base (n_cfg b))) seed) x"
    "cell a' (length (n_cells a)) = opened (newID L (n_rand a)) (cfg_Base (n_cfg b)) (host L (cfg_Base (n_cfg b))) True seed
       (cfg_AutoAcceptSeed (n_cfg b))"
    "cell b' (length (n_cells b)) = opened (newID L (n_rand a)) (cfg_Base (n_cfg a)) (host L (cfg_Base (n_cfg a))) False seed
       (cfg_AutoAcceptSeed (n_cfg b))"
    by (rule contact_opens [OF assms]) (rule that)
  then show ?thesis
    by (intro exI [of _ a'] exI [of _ b'] exI [of _ "length (n_cells a)"] exI [of _ "length (n_cells b)"])
      (simp add: seed_entries_def)
qed

theorem contact_opening_mirrors_witness:
  "\<exists>a' b' r s. run_contact demo 2000000 [] demo_a demo_b = Some (a', b') \<and> paired demo a' r b' s"
  using contact_opening_mirrors [of demo_a demo_b 2000000 demo "[]"] by (simp, blast)

text \<open>
  C2: a payment between two nodes with a mirrored, idle contact completes. The five steps (propose, accept,
  commit, receipt, settle) end with the transfer settled on both sides; the payer's account is down by the
  source amount and the payee's up by the price that both computed, the two node wallets take the other
  side of it and no other balance moves; and the contact is again mirrored, idle and one operation on.
\<close>

theorem transfer_completes:
  assumes "node_inv a" "node_inv b" "paired L a r b s" "ready (cell a r)" "ready (cell b s)"
    and "usable_member a from' = Some fm" "sint src \<le> sint (Balance (n_led a) (MemberPrefix @ m_Name fm))"
    and "usable_member b to \<noteq> None" "priceOutgoing (cell a r) src = Inr dst"
    and "sint (c_MyReserveOfPeer (cell a r)) + sint src < 2 ^ 63" "rfc3339_correct L"
  shows "\<exists>tid a' b'. run_transfer L from' to src memo a b = Some (tid, a', b') \<and>
    TransferState tid a' = ''SETTLED'' \<and> TransferState tid b' = ''SETTLED'' \<and>
    (\<forall>x. Balance (n_led a') x = Balance (n_led a) x + (if x = MemberPrefix @ localPart from' then - src else
        if x = NodeWalletPrefix @ host L (cfg_Base (n_cfg b)) then src else 0)) \<and>
    (\<forall>x. Balance (n_led b') x = Balance (n_led b) x + (if x = MemberPrefix @ localPart to then dst else
        if x = NodeWalletPrefix @ host L (cfg_Base (n_cfg a)) then - dst else 0)) \<and>
    paired L a' r b' s \<and> ready (cell a' r) \<and> ready (cell b' s) \<and> c_OpSeq (cell a' r) = c_OpSeq (cell a r) + 1"
  by (rule transfer_settles [OF assms, where memo = memo]) blast

theorem transfer_completes_witness:
  "\<exists>a b tid a' b'. paired demo a 0 b 0 \<and> run_transfer demo ''ann'' ''bob'' 1000000 [] a b = Some (tid, a', b') \<and>
     TransferState tid b' = ''SETTLED''"
proof -
  obtain a b where ab: "paired demo a 0 b 0" "ready (cell a 0)" "ready (cell b 0)" "node_inv a" "node_inv b"
    "usable_member a ''ann'' = Some (new_member ''ann'' [])" "usable_member b ''bob'' \<noteq> None"
    "Balance (n_led a) (MemberPrefix @ ''ann'') = 9000000" "c_MyReserveOfPeer (cell a 0) = 2000000"
    "c_PeerReserveOfMe (cell a 0) = 5000000"
    by (rule demo_pair)
  have price: "priceOutgoing (cell a 0) 1000000 = Inr 1666666"
    by (simp add: priceOutgoing_def PoolPrice_Inr ab)
  show ?thesis
    using transfer_completes [OF ab(4,5,1,2,3,6) _ ab(7) price _ demo_rfc3339, of "[]"] ab
    by (simp add: new_member_def, blast)
qed

text \<open>
  C9: a reserve adjustment on a mirrored, idle contact is applied by both sides or the withdrawal is not
  possible. For an amount that leaves the reserve non-negative, the exchange moves it between the
  treasury and the node wallet of the asking node, books nothing at the other, and both sides fold the
  same operation into the channel, so that the contact is again mirrored and idle.
\<close>

theorem adjustment_mirrors:
  assumes "node_inv a" "paired L a r b s" "ready (cell a r)" "ready (cell b s)" "d \<noteq> 0"
    and "0 \<le> sint (c_MyReserveOfPeer (cell a r) + d)"
    and "map_of (c_AppliedAdjusts (cell b s)) (newID L (n_rand a)) \<noteq> Some True"
  shows "\<exists>a' b'. run_adjust L d memo a b = Some (a', b') \<and> n_led b' = n_led b \<and>
    (\<forall>x. Balance (n_led a') x = Balance (n_led a) x + (if x = NodeWalletPrefix @ host L (cfg_Base (n_cfg b)) then d else
        if x = AcctTreasury then - d else 0)) \<and>
    paired L a' r b' s \<and> ready (cell a' r) \<and> ready (cell b' s) \<and>
    c_MyReserveOfPeer (cell a' r) = c_MyReserveOfPeer (cell a r) + d"
  by (rule adjust_applies [OF assms, where memo = memo]) (auto simp: adjust_entries_def)

theorem adjustment_mirrors_witness:
  "\<exists>a b a' b'. paired demo a 0 b 0 \<and> run_adjust demo (- 500000) [] a b = Some (a', b') \<and> paired demo a' 0 b' 0"
proof -
  obtain a b where ab: "paired demo a 0 b 0" "ready (cell a 0)" "ready (cell b 0)" "node_inv a"
    "c_MyReserveOfPeer (cell a 0) = 2000000" "c_AppliedAdjusts (cell b 0) = []"
    by (rule demo_pair)
  show ?thesis
    using adjustment_mirrors [OF ab(4,1,2,3), of "- 500000" "[]"] ab by (simp, blast)
qed

end
