(* ===== verification/LP_Inbox.thy ===== *)
theory LP_Inbox
  imports LP_Reachable LP_Exchange
begin

text \<open>
  Messages: what a node builds is accepted by the peer it is meant for, what is refused has no effect, what
  was processed is not processed again, and what is queued goes out in order.
\<close>

section \<open>Built envelopes are accepted\<close>

lemma sorted_keys_map_snd: "sorted_keys (map (\<lambda>kv. (fst kv, f (snd kv))) kvs) = sorted_keys kvs"
  by (rule sorted_keys_cong) (simp add: image_image)

lemma writeCanonical_redecode [simp]: "writeCanonical (redecode v) = writeCanonical v"
proof (induction v)
  case (GInt i)
  have "float_free (GNumber (dec64 i))"
    using plain_float_free [of "GNumber (dec64 i)"] dec64_num by simp
  then show ?case by simp
next
  case (GArr xs)
  then show ?case by (simp add: comp_def cong: map_cong)
next
  case (GMap kvs)
  have "map (\<lambda>kv. (fst kv, writeCanonical (snd kv))) (map (\<lambda>kv. (fst kv, redecode (snd kv))) kvs) =
      map (\<lambda>kv. (fst kv, writeCanonical (snd kv))) kvs"
    using GMap by (auto simp: snds.simps)
  then show ?case
    by (simp add: Let_def sorted_keys_map_snd del: map_map)
qed simp_all

lemma SigningBytes_wire [simp]: "SigningBytes (wire env) = SigningBytes env"
proof -
  have "filter (\<lambda>kv. fst kv \<noteq> ''sig'') (wire env) = map_obj redecode (filter (\<lambda>kv. fst kv \<noteq> ''sig'') env)"
    by (induction env) (simp_all add: wire_def map_obj_def)
  then have "GMap (filter (\<lambda>kv. fst kv \<noteq> ''sig'') (wire env)) = redecode (GMap (filter (\<lambda>kv. fst kv \<noteq> ''sig'') env))"
    by (simp add: map_obj_def)
  then show ?thesis
    unfolding SigningBytes_def Canonical_def by (simp only: writeCanonical_redecode)
qed

lemma SigningBytes_append_sig [simp]: "''sig'' \<notin> fst ` set env \<Longrightarrow> SigningBytes (env @ [(''sig'', s)]) = SigningBytes env"
  by (simp add: SigningBytes_def)

text \<open>The key a node signs with, as it was made from a seed.\<close>

definition signs_with :: "lib \<Rightarrow> Node \<Rightarrow> bool" where
  "signs_with L n \<longleftrightarrow> (\<exists>seed. length seed = 32 \<and> n_priv n = NewKeyFromSeed L seed \<and> n_pub n = ed_pub_of L seed)"

definition expects :: "lib \<Rightarrow> Node \<Rightarrow> string \<Rightarrow> ValidationState \<Rightarrow> bool" where
  "expects L n base st \<longleftrightarrow>
     map_of (vs_Keys st) (keyID (cfg_Base (n_cfg n)) (n_keyLocalID n)) = Some (n_pub n) \<and>
     map_of (vs_SeenIDs st) (newID L (n_rand n)) \<noteq> Some True \<and>
     sint (vs_LastSeq st) < sint (mget0 (n_outSeq n) (host L base) + 1) \<and>
     vs_Now st - n_clock n \<le> MaxAge - 1000000000 \<and> n_clock n - vs_Now st \<le> MaxFuture"

lemma built_accepted:
  assumes lib: "ed25519_correct L" "rfc3339_correct L" and key: "signs_with L n" "cfg_Base (n_cfg n) \<noteq> []"
    and p: "float_free (GMap p)" and st: "expects L n base st"
  shows "accepted L (wire (fst (buildSigned L ty base re p n))) st"
proof -
  define env where "env = envelope L ty base re p n"
  define full where "full = env @ [(''sig'', signature L env n)]"
  have full: "fst (buildSigned L ty base re p n) = full"
    using p by (simp add: buildSigned_eq Let_def full_def env_def)
  have "float_free (GMap env)"
    using p by (simp add: env_def envelope_def)
  then obtain m where m: "SigningBytes env = Inr m"
    using SigningBytes_ok by blast
  obtain seed where seed: "length seed = 32" "n_priv n = NewKeyFromSeed L seed" "n_pub n = ed_pub_of L seed"
    using key(1) by (auto simp: signs_with_def)
  define raw where "raw = ed_sign L (n_priv n) m"
  have sig: "signature L env n = GMap [(''key'', GStr (keyID (cfg_Base (n_cfg n)) (n_keyLocalID n))),
      (''alg'', GStr ''ed25519''), (''value'', GStr (b64_encode raw))]"
    by (simp add: signature_def SignEnvelope_def m raw_def)
  have bytes: "SigningBytes full = Inr m"
    unfolding full_def using m by (subst SigningBytes_append_sig) (auto simp: env_def envelope_def)
  have ver: "VerifyEnvelope L (wire full) raw (n_pub n) = Inr True"
    using lib(1) seed by (simp add: VerifyEnvelope_def bytes raw_def ed25519_correct_def)
  have reads: "envStr (wire full) ''from'' = cfg_Base (n_cfg n)" "envStr (wire full) ''id'' = newID L (n_rand n)"
    "envStr (wire full) ''created'' = now_text L n" "obj_get full ''sig'' = signature L env n"
    "pInt (wire full) ''seq'' = (mget0 (n_outSeq n) (host L base) + 1, True)"
    by (simp_all add: full_def env_def envelope_def envStr_def pInt_def wire_def ParseInt_dec64)
  have time: "parse_time L (now_text L n) = Some (n_clock n div 1000000000 * 1000000000)"
    using lib(2) by (simp add: rfc3339_correct_def now_text_def)
  have "n_clock n - 1000000000 < n_clock n div 1000000000 * 1000000000" "n_clock n div 1000000000 * 1000000000 \<le> n_clock n"
    by linarith+
  then have window: "vs_Now st - n_clock n div 1000000000 * 1000000000 \<le> MaxAge"
    "n_clock n div 1000000000 * 1000000000 - vs_Now st \<le> MaxFuture"
    using st by (auto simp: expects_def)
  show ?thesis
    unfolding full accepted_def
  proof (intro exI conjI)
    show "obj_get (wire full) ''sig'' = GMap [(''key'', GStr (keyID (cfg_Base (n_cfg n)) (n_keyLocalID n))),
      (''alg'', GStr ''ed25519''), (''value'', GStr (b64_encode raw))]"
      by (simp add: wire_def reads(4) sig)
  qed (use st ver reads time window key(2) keyID_bound in
      \<open>auto simp: expects_def pStr_def b64_decode_encode\<close>)
qed

section \<open>What the handlers leave alone\<close>

definition side :: "Node \<Rightarrow> Config \<times> int \<times> (string, channelInbound) gomap \<times> (string, bytes) gomap \<times> (string, Member) gomap \<times>
    bytes \<times> bytes \<times> string \<times> ownKey list \<times> (string, i64) gomap \<times> i64" where
  "side n = (n_cfg n, n_clock n, n_inState n, n_peerKeys n, n_members n, n_priv n, n_pub n, n_keyLocalID n, n_ownKeys n,
     n_pushed n, n_currentUD n)"

lemma side_steps [simp]:
  "side (snd (buildSigned L ty b re p n)) = side n" "side (snd (draw_id L n)) = side n"
  "side (snd (persistLocked n)) = side n" "side (set_cell r c n) = side n" "side (set_transfer tid t n) = side n"
  "side (link_contact i h r n) = side n" "side (n\<lparr>n_cells := cs\<rparr>) = side n"
  by (simp_all add: side_def) (simp_all add: set_cell_def set_transfer_def link_contact_def)

lemma side_append_tx [simp]: "side (snd (append_tx L ty ref es n)) = side n"
  by (cases rule: append_tx_cases [of L ty ref es n]) (simp_all add: side_def)

lemma side_release [simp]: "side (releaseIfBusyExpired L r n) = side n" "side (snd (expireIfDueLocked L tid t n)) = side n"
proof -
  have lock: "side (release_lock i tid n) = side n" for i tid n
    by (simp add: release_lock_def split: option.split)
  show exp: "side (snd (expireIfDueLocked L tid t n)) = side n" for L tid t n
    by (cases rule: expire_cases [of L tid t n]) (simp_all add: lock)
  show "side (releaseIfBusyExpired L r n) = side n"
    by (cases rule: release_cases [of L r n]) (simp_all add: exp)
qed

lemma side_error [simp]: "side (snd (errorReply L env c d n)) = side n" "side (snd (rejectTransfer L env tid c d n)) = side n"
  by (simp_all add: errorReply_def rejectTransfer_def)

lemma side_contact_handlers:
  "side (snd (handleContactPropose L env n)) = side n" "side (snd (handleContactAccept L env n)) = side n"
  "side (snd (handleContactUpdate L env n)) = side n" "side (snd (handleContactClose L env n)) = side n"
  "side (snd (handleMemberLookup L env n)) = side n"
  by (simp_all add: handleContactPropose_def handleContactAccept_def handleContactUpdate_def handleContactClose_def
      handleMemberLookup_def seedLedger_def applySeed_eq new_cell_def Let_def case_prod_beta split: option.split sum.split)

lemma side_transfer_handlers:
  "side (snd (handleTransferPropose L env n)) = side n" "side (snd (handleTransferReceipt L env n)) = side n"
  "side (snd (close_transfer ev out L env n)) = side n"
  by (simp_all add: handleTransferPropose_def handleTransferReceipt_def close_transfer_def Let_def case_prod_beta
      split: option.split sum.split)

lemma side_settling:
  "side (snd (handleTransferAccept L env n)) = side n" "side (snd (handleTransferCommit L env n)) = side n"
  "side (snd (handleReserveAdjust L env n)) = side n" "side (snd (handleReserveAccept L env n)) = side n"
  by (simp_all add: handleTransferAccept_def handleTransferCommit_def handleReserveAdjust_def handleReserveAccept_def
      applyTransfer_eq applyAdjust_eq Let_def case_prod_beta split: option.split sum.split bool.split)

lemma side_route: "envStr env ''type'' \<noteq> ''key.announce'' \<Longrightarrow> side (snd (route L env n)) = side n"
  by (simp add: route_def Let_def side_contact_handlers side_transfer_handlers side_settling
      handleTransferReject_def handleTransferAbort_def)

lemma inState_route: "n_inState (snd (route L env n)) = n_inState n"
proof (cases "envStr env ''type'' = ''key.announce''")
  case True
  then show ?thesis
    by (simp add: route_def handleKeyAnnounce_def Let_def case_prod_beta errorReply_def split: sum.split)
next
  case False
  then show ?thesis
    using side_route [of env L n] by (simp add: side_def)
qed

section \<open>Processing an envelope once\<close>

definition channel_of :: "Node \<Rightarrow> string \<Rightarrow> channelInbound" where
  "channel_of n h = (case map_of (n_inState n) h of Some ci \<Rightarrow> ci | None \<Rightarrow> empty_inbound)"

definition inbound_view :: "lib \<Rightarrow> obj \<Rightarrow> Node \<Rightarrow> ValidationState" where
  "inbound_view L env n =
     \<lparr>vs_Keys = n_peerKeys n, vs_SeenIDs = ci_seenIDs (channel_of n (host L (envStr env ''from''))),
      vs_LastSeq = ci_lastSeq (channel_of n (host L (envStr env ''from''))), vs_Now = n_clock n\<rparr>"

lemma fst_inbound [simp]: "fst (inbound h n) = channel_of n h"
  by (simp add: inbound_def channel_of_def split: option.split)

lemma inbound_frame [simp]:
  "n_peerKeys (snd (inbound h n)) = n_peerKeys n" "n_clock (snd (inbound h n)) = n_clock n" "n_cfg (snd (inbound h n)) = n_cfg n"
  "channel_of (snd (inbound h n)) h' = channel_of n h'"
  by (auto simp: inbound_def channel_of_def split: option.split)

definition sig_key :: "obj \<Rightarrow> string" where
  "sig_key env = pStr (obj_or_nil (obj_get env ''sig'')) ''key''"

definition for_us :: "lib \<Rightarrow> obj \<Rightarrow> Node \<Rightarrow> bool" where
  "for_us L env n \<longleftrightarrow> major_of (envStr env ''lp'') = ''0'' \<and>
     (envStr env ''to'' = [] \<or> host L (envStr env ''to'') = host L (cfg_Base (n_cfg n)))"

text \<open>With the key known, the fetch is skipped.\<close>

lemma ProcessInbound_known:
  assumes "for_us L env n" "map_of (n_peerKeys n) (sig_key env) \<noteq> None"
  shows "ProcessInbound L S env n =
    (let h = host L (envStr env ''from''); n0 = snd (inbound h n); v = ValidateEnvelope L env (inbound_view L env n)
     in if v = VerdictDuplicate then (v, map_of (ci_replies (channel_of n h)) (envStr env ''id''), n0)
        else if v \<noteq> VerdictOK then (v, None, n0)
        else let (rep, n1) = route L env n0
          in (v, rep, snd (persistLocked (n1\<lparr>n_inState := mput h (mark_processed env rep (channel_of n h)) (n_inState n1)\<rparr>))))"
  using assms
  by (auto simp: ProcessInbound_def Let_def case_prod_beta inbound_view_def for_us_def sig_key_def)

text \<open>Two nodes that differ in learned keys and opened channels only.\<close>

definition unmoved :: "Node \<Rightarrow> Node \<Rightarrow> bool" where
  "unmoved n n' \<longleftrightarrow> (\<exists>keys chans. n' = n\<lparr>n_peerKeys := keys, n_inState := chans\<rparr>) \<and> (\<forall>h. channel_of n' h = channel_of n h)"

lemma unmoved_inbound: "unmoved n (snd (inbound h n))"
proof -
  have "snd (inbound h n) = n\<lparr>n_peerKeys := n_peerKeys n, n_inState := n_inState (snd (inbound h n))\<rparr>"
    by (simp add: inbound_def split: option.split)
  then show ?thesis
    unfolding unmoved_def by (metis inbound_frame(4))
qed

lemma unmoved_fetch: "unmoved n (snd (fetchPeerKeys S b n))"
proof -
  have "snd (fetchPeerKeys S b n) = n\<lparr>n_peerKeys := n_peerKeys (snd (fetchPeerKeys S b n)), n_inState := n_inState n\<rparr>"
    by (simp add: fetchPeerKeys_def Let_def split: option.split)
  moreover have "channel_of (snd (fetchPeerKeys S b n)) h = channel_of n h" for h
    by (simp add: channel_of_def fetchPeerKeys_def Let_def split: option.split)
  ultimately show ?thesis
    unfolding unmoved_def by blast
qed

lemma unmoved_trans: "unmoved n n1 \<Longrightarrow> unmoved n1 n2 \<Longrightarrow> unmoved n n2"
  by (fastforce simp: unmoved_def)

lemma unmoved_refl: "unmoved n n"
proof -
  have "n = n\<lparr>n_peerKeys := n_peerKeys n, n_inState := n_inState n\<rparr>"
    by simp
  then show ?thesis
    unfolding unmoved_def by blast
qed

lemma ProcessInbound_refused:
  assumes "ProcessInbound L S env n = (v, rep, n')" "v \<noteq> VerdictOK"
  shows "unmoved n n' \<and> (rep \<noteq> None \<longrightarrow> v = VerdictDuplicate)"
proof -
  let ?f = "if map_of (n_peerKeys n) (sig_key env) = None then fetchPeerKeys S (envStr env ''from'') n else (Inr (), n)"
  have f: "unmoved n (snd ?f)"
    by (simp add: unmoved_fetch unmoved_refl)
  then have fi: "unmoved n (snd (inbound h (snd ?f)))" for h
    using unmoved_trans unmoved_inbound by blast
  show ?thesis
    using assms f fi unmoved_refl [of n]
    by (auto simp: ProcessInbound_def Let_def case_prod_beta sig_key_def [symmetric] split: sum.splits if_splits)
qed

lemma validate_seen:
  assumes "ValidateEnvelope L env st = VerdictOK" "vs_Keys st' = vs_Keys st"
    and "map_of (vs_SeenIDs st') (envStr env ''id'') = Some True"
  shows "ValidateEnvelope L env st' = VerdictDuplicate"
  using assms unfolding ValidateEnvelope_ok accepted_def
  by (auto simp: ValidateEnvelope_def Let_def pStr_def envStr_def)

lemma ProcessInbound_OK_E:
  assumes "ProcessInbound L S env n = (VerdictOK, rep, n1)"
  obtains n0 n2 where "for_us L env n0" "unmoved n n0" "n_cfg n0 = n_cfg n"
    "ValidateEnvelope L env (inbound_view L env n0) = VerdictOK"
    "route L env (snd (inbound (host L (envStr env ''from'')) n0)) = (rep, n2)"
    "n1 = snd (persistLocked (n2\<lparr>n_inState := mput (host L (envStr env ''from''))
       (mark_processed env rep (channel_of n0 (host L (envStr env ''from'')))) (n_inState n2)\<rparr>))"
proof -
  let ?f = "if map_of (n_peerKeys n) (sig_key env) = None then fetchPeerKeys S (envStr env ''from'') n else (Inr (), n)"
  let ?n0 = "snd ?f"
  have f: "unmoved n ?n0" "n_cfg ?n0 = n_cfg n"
    by (simp_all add: unmoved_fetch unmoved_refl) (simp add: fetchPeerKeys_def Let_def split: option.split)
  show ?thesis
    using assms f
    by (intro that [of ?n0 "snd (route L env (snd (inbound (host L (envStr env ''from'')) ?n0)))"])
      (auto simp: ProcessInbound_def Let_def case_prod_beta sig_key_def [symmetric] for_us_def inbound_view_def
        split: sum.splits if_splits)
qed

lemma side_inbound: "snd (inbound h n) = n\<lparr>n_inState := n_inState (snd (inbound h n))\<rparr>"
  by (simp add: inbound_def split: option.split)

lemma processed_again:
  assumes first: "ProcessInbound L S env n = (VerdictOK, rep, n1)"
    and ty: "envStr env ''type'' \<noteq> ''key.announce''"
    and new: "map_of (ci_replies (channel_of n (host L (envStr env ''from'')))) (envStr env ''id'') = None"
  shows "ProcessInbound L S' env n1 = (VerdictDuplicate, rep, n1)"
proof -
  let ?h = "host L (envStr env ''from'')" and ?id = "envStr env ''id''"
  obtain n0 n2 where n0: "for_us L env n0" "unmoved n n0" "n_cfg n0 = n_cfg n"
    "ValidateEnvelope L env (inbound_view L env n0) = VerdictOK" "route L env (snd (inbound ?h n0)) = (rep, n2)"
    "n1 = snd (persistLocked (n2\<lparr>n_inState := mput ?h (mark_processed env rep (channel_of n0 ?h)) (n_inState n2)\<rparr>))"
    by (rule ProcessInbound_OK_E [OF first])
  have sd: "side n2 = side (snd (inbound ?h n0))"
    using side_route [OF ty, of L "snd (inbound ?h n0)"] n0(5) by simp
  have same: "n_cfg n1 = n_cfg n0" "n_peerKeys n1 = n_peerKeys n0" "n_clock n1 = n_clock n0"
    using sd n0(6) by (simp_all add: side_def)
  have chan: "map_of (n_inState n1) ?h = Some (mark_processed env rep (channel_of n0 ?h))"
    using n0(6) by simp
  then have chan': "channel_of n1 ?h = mark_processed env rep (channel_of n0 ?h)" "snd (inbound ?h n1) = n1"
    by (simp_all add: channel_of_def inbound_def)
  have seen: "map_of (ci_seenIDs (mark_processed env rep ci)) ?id = Some True" for ci
    by (simp add: mark_processed_def Let_def case_prod_beta split: option.split)
  have cached: "map_of (ci_replies (mark_processed env rep (channel_of n0 ?h))) ?id = rep"
    using new n0(2) by (simp add: mark_processed_def Let_def case_prod_beta unmoved_def split: option.split)
  have "ValidateEnvelope L env (inbound_view L env n1) = VerdictDuplicate"
    by (rule validate_seen [OF n0(4)]) (simp_all add: inbound_view_def same chan' seen)
  moreover have "map_of (n_peerKeys n1) (sig_key env) \<noteq> None"
    using n0(4) unfolding ValidateEnvelope_ok accepted_def
    by (auto simp: inbound_view_def same sig_key_def obj_or_nil_def)
  moreover have "for_us L env n1"
    using n0(1) by (simp add: for_us_def same)
  ultimately show ?thesis
    by (simp add: ProcessInbound_known Let_def chan' cached)
qed

section \<open>Replies are cached for seen envelopes only\<close>

definition replies_seen :: "Node \<Rightarrow> bool" where
  "replies_seen n \<longleftrightarrow> (\<forall>h i. map_of (ci_seenIDs (channel_of n h)) i \<noteq> Some True \<longrightarrow>
     map_of (ci_replies (channel_of n h)) i = None)"

lemma replies_seen_cong: "n_inState n = n_inState n' \<Longrightarrow> replies_seen n \<longleftrightarrow> replies_seen n'"
  by (simp add: replies_seen_def channel_of_def)

lemma replies_seen_persist [simp]: "replies_seen (snd (persistLocked n)) = replies_seen n"
  by (rule replies_seen_cong) simp

lemma channel_of_put [simp]: "channel_of (n\<lparr>n_inState := mput h ci m\<rparr>) h' = (if h' = h then ci else channel_of (n\<lparr>n_inState := m\<rparr>) h')"
  by (simp add: channel_of_def)

lemma replies_seen_mark:
  "replies_seen n0 \<Longrightarrow> map_of (ci_seenIDs (mark_processed env rep (channel_of n0 h))) i \<noteq> Some True \<Longrightarrow>
     map_of (ci_replies (mark_processed env rep (channel_of n0 h))) i = None"
  by (auto simp: replies_seen_def mark_processed_def Let_def case_prod_beta split: option.splits if_splits)

lemma ProcessInbound_replies:
  assumes "replies_seen n"
  shows "replies_seen (snd (snd (ProcessInbound L S env n)))"
proof -
  obtain v rep n1 where run: "ProcessInbound L S env n = (v, rep, n1)"
    by (metis prod.exhaust)
  show ?thesis
  proof (cases "v = VerdictOK")
    case True
    obtain n0 n2 where n0: "unmoved n n0" "route L env (snd (inbound (host L (envStr env ''from'')) n0)) = (rep, n2)"
      "n1 = snd (persistLocked (n2\<lparr>n_inState := mput (host L (envStr env ''from''))
        (mark_processed env rep (channel_of n0 (host L (envStr env ''from'')))) (n_inState n2)\<rparr>))"
      using run True ProcessInbound_OK_E by metis
    have "channel_of n2 h = channel_of n h" for h
      using inState_route [of L env "snd (inbound (host L (envStr env ''from'')) n0)"] n0(1,2)
        inbound_frame(4) [of "host L (envStr env ''from'')" n0] by (simp add: channel_of_def unmoved_def)
    moreover have "replies_seen n0"
      using assms n0(1) by (simp add: replies_seen_def unmoved_def)
    ultimately have "replies_seen (n2\<lparr>n_inState := mput (host L (envStr env ''from''))
        (mark_processed env rep (channel_of n0 (host L (envStr env ''from'')))) (n_inState n2)\<rparr>)"
      using assms replies_seen_mark [of n0] by (simp add: replies_seen_def)
    then show ?thesis
      using run n0(3) by simp
  next
    case False
    then show ?thesis
      using ProcessInbound_refused [OF run] run assms by (simp add: replies_seen_def unmoved_def)
  qed
qed

text \<open>The operations of the node itself touch neither the channels nor the keys, rotation apart.\<close>

definition own :: "Node \<Rightarrow> (string, channelInbound) gomap \<times> ownKey list \<times> string \<times> bytes \<times> bytes \<times> string" where
  "own n = (n_inState n, n_ownKeys n, n_keyLocalID n, n_priv n, n_pub n, cfg_Base (n_cfg n))"

lemma own_side: "side n' = side n \<Longrightarrow> own n' = own n"
  by (simp add: side_def own_def)

lemma own_steps [simp]:
  "own (snd (buildSigned L ty b re p n)) = own n" "own (snd (draw_id L n)) = own n" "own (snd (persistLocked n)) = own n"
  "own (set_cell r c n) = own n" "own (set_transfer tid t n) = own n" "own (link_contact i h r n) = own n"
  "own (n\<lparr>n_cells := cs\<rparr>) = own n" "own (snd (append_tx L ty ref es n)) = own n"
  "own (snd (expireIfDueLocked L tid t' n)) = own n" "own (releaseIfBusyExpired L r n) = own n"
  by (rule own_side, simp)+

lemma own_updates [simp]:
  "own (n\<lparr>n_members := x1\<rparr>) = own n" "own (n\<lparr>n_currentUD := x2\<rparr>) = own n" "own (n\<lparr>n_peerKeys := x3\<rparr>) = own n"
  "own (n\<lparr>n_outbox := x4\<rparr>) = own n" "own (n\<lparr>n_pushed := x5\<rparr>) = own n" "own (n\<lparr>n_store := x6\<rparr>) = own n"
  "own (n\<lparr>n_clock := x7\<rparr>) = own n" "own (n\<lparr>n_rand := x8\<rparr>) = own n"
  by (simp_all add: own_def)

lemma own_members [simp]:
  "own (snd (AddMember L name d g n)) = own n" "own (snd (DeactivateMember name n)) = own n"
  "own (snd (Reactivate name n)) = own n" "own (snd (Pay L x y z n)) = own n" "own (snd (Leave L mem mode to n)) = own n"
  by (simp_all add: AddMember_def DeactivateMember_def Reactivate_def Pay_def Leave_def Let_def case_prod_beta
      split: option.split sum.split)

lemma own_ud [simp]: "own (snd (RunUD L n)) = own n"
proof -
  have each: "own (snd (ud_each L b names n)) = own n" for b names n
    by (induction names arbitrary: n) (simp_all add: Let_def case_prod_beta split: sum.split)
  have batch: "own (snd (ud_batch L b n)) = own n" for b n
    by (simp add: ud_batch_def Let_def case_prod_beta split: sum.split)
  have red: "own (snd (redistributeLocked L n)) = own n" for n
    by (simp add: redistributeLocked_def Let_def case_prod_beta split: sum.split)
  show ?thesis
    by (simp add: RunUD_def Let_def case_prod_beta each batch red split: sum.split)
qed

lemma own_sweep [simp]: "own (snd (sweep L now tids k n)) = own n"
  by (induction tids arbitrary: k n) (simp_all add: case_prod_beta)

lemma own_peers [simp]:
  "own (snd (OpenContact L b s note n)) = own n" "own (snd (CloseContact L b note n)) = own n"
  "own (snd (RetireReserve L b n)) = own n" "own (snd (StartTransfer L b x y z note n)) = own n"
  "own (snd (AbortTransfer L tid n)) = own n" "own (snd (AdjustReserve L b d note n)) = own n"
  "own (snd (SweepExpired L n)) = own n"
  by (simp_all add: OpenContact_def CloseContact_def RetireReserve_def StartTransfer_def AbortTransfer_def AdjustReserve_def
      SweepExpired_def new_cell_def Let_def case_prod_beta split: option.split sum.split)

lemma own_announce [simp]: "own (announce_all L k pub t bs n) = own n"
  by (induction bs arbitrary: n) simp_all

lemma own_reconcile [simp]: "own (snd (reconcile_entry b r m n)) = own n"
  by (simp add: reconcile_entry_def pruneOutboxLocked_def Let_def)

lemma own_rest [simp]:
  "own (snd (RefreshPeerKeys S b n)) = own n" "own (snd (ReconcilePeer L S b n)) = own n"
  "own (snd (pushHost deliver h n)) = own n" "own (snd (SetStore s n)) = own n" "own (SetIdentity x y z n) = own n"
  by (simp_all add: RefreshPeerKeys_def ReconcilePeer_def pushHost_def SetStore_def Let_def case_prod_beta
      split: option.split list.split) (simp add: SetIdentity_def own_def Let_def)

lemma inState_own: "own n' = own n \<Longrightarrow> n_inState n' = n_inState n"
  by (simp add: own_def)

lemma inState_keys [simp]: "n_inState (snd (RotateKey L n)) = n_inState n" "n_inState (snd (RevokeKey L k n)) = n_inState n"
  using inState_own [OF own_announce] by (simp_all add: RotateKey_def RevokeKey_def Let_def split: option.split)

lemma process_all_replies: "replies_seen n \<Longrightarrow> replies_seen (snd (process_all L S envs k n))"
  by (induction envs arbitrary: n k) (simp_all add: case_prod_beta ProcessInbound_replies)

lemma replies_seen_keep: "n_inState n' = n_inState n \<Longrightarrow> replies_seen n \<Longrightarrow> replies_seen n'"
  using replies_seen_cong by blast

lemma replies_seen_own: "own n' = own n \<Longrightarrow> replies_seen n \<Longrightarrow> replies_seen n'"
  using replies_seen_keep inState_own by blast

lemma node_step_replies:
  assumes "node_step L n n'" "replies_seen n"
  shows "replies_seen n'"
proof -
  from assms(1) show ?thesis
  proof cases
    case (receive S env)
    then show ?thesis
      using ProcessInbound_replies [OF assms(2)] by simp
  next
    case (poll S base)
    then show ?thesis
      using assms(2) process_all_replies by (simp add: PollPeer_def case_prod_beta split: option.split)
  qed (hypsubst, (rule replies_seen_own [OF _ assms(2)], simp; fail) | (rule replies_seen_keep [OF _ assms(2)], simp))+
qed

lemma NewNode_replies:
  assumes "NewNode L cfg t i = Inr n"
  shows "replies_seen n"
proof -
  have one: "grant_member L mc m = Inr m' \<Longrightarrow> n_inState m' = n_inState m" for mc m m'
    by (auto simp: grant_member_def Let_def case_prod_beta split: option.splits sum.splits if_splits)
  have "grant_members L mcs m = Inr m' \<Longrightarrow> n_inState m' = n_inState m" for mcs m m'
    by (induction mcs arbitrary: m) (auto simp: one split: sum.splits dest: one)
  then have "n_inState n = []"
    using assms by (fastforce simp: NewNode_def Let_def case_prod_beta empty_node_def split: if_splits sum.splits)
  then show ?thesis
    by (simp add: replies_seen_def channel_of_def empty_inbound_def)
qed

lemma reachable_replies: "node_reachable L n \<Longrightarrow> replies_seen n"
  by (induction rule: node_reachable.induct) (auto intro: NewNode_replies node_step_replies)

end
