(* ===== verification/LP_Keys.thy ===== *)
theory LP_Keys
  imports LP_Inbox
begin

text \<open>
  Keys: every reachable node publishes the key it signs with, a peer that fetches the published document
  accepts what the node sends, and a revoked key stops working once the peer has refreshed.
\<close>

section \<open>The active key\<close>

definition key_name :: "nat \<Rightarrow> string" where
  "key_name i = ''#nk'' @ dec_int (int i)"

lemma key_name_inject: "key_name i = key_name j \<longleftrightarrow> i = j"
  by (auto simp: key_name_def dest: dec_int_inject)

definition keys_ok :: "lib \<Rightarrow> Node \<Rightarrow> bool" where
  "keys_ok L n \<longleftrightarrow>
     map k_LocalID (n_ownKeys n) = map key_name [1..<Suc (length (n_ownKeys n))] \<and> n_ownKeys n \<noteq> [] \<and>
     k_LocalID (last (n_ownKeys n)) = n_keyLocalID n \<and> k_pub (last (n_ownKeys n)) = n_pub n \<and>
     k_Revoked (last (n_ownKeys n)) = [] \<and> signs_with L n \<and> cfg_Base (n_cfg n) \<noteq> [] \<and>
     (\<forall>k \<in> set (n_ownKeys n). length (k_pub k) = 32)"

lemma keys_ok_own:
  assumes "own n' = own n"
  shows "keys_ok L n' = keys_ok L n"
  using assms by (simp add: own_def keys_ok_def signs_with_def)

lemma revoke_first_keeps [simp]:
  "map k_LocalID (revoke_first i t ks) = map k_LocalID ks" "length (revoke_first i t ks) = length ks"
  "k_LocalID (last ks) \<noteq> i \<Longrightarrow> last (revoke_first i t ks) = last ks"
  "revoke_first i t ks = [] \<longleftrightarrow> ks = []" "k_pub ` set (revoke_first i t ks) = k_pub ` set ks"
  by (induction ks) auto

lemma keys_ok_RevokeKey: "keys_ok L n \<Longrightarrow> keys_ok L (snd (RevokeKey L k n))"
proof -
  assume ok: "keys_ok L n"
  have "keys_ok L (n\<lparr>n_ownKeys := revoke_first k t (n_ownKeys n)\<rparr>)" if "k \<noteq> n_keyLocalID n" for t
  proof -
    have "\<forall>x \<in> set (revoke_first k t (n_ownKeys n)). length (k_pub x) = 32"
      using ok revoke_first_keeps(5) [of k t "n_ownKeys n"] unfolding keys_ok_def by (metis image_iff)
    then show ?thesis
      using ok that by (simp add: keys_ok_def signs_with_def)
  qed
  then show ?thesis
    using ok keys_ok_own [OF own_steps(3)] by (simp add: RevokeKey_def split: option.split)
qed

definition rand_lengths :: "lib \<Rightarrow> bool" where
  "rand_lengths L \<longleftrightarrow> (\<forall>i k. length (rand_read L i k) = k)"

lemma signs_with_seed:
  "ed25519_correct L \<Longrightarrow> length seed = 32 \<Longrightarrow>
     signs_with L (n\<lparr>n_priv := NewKeyFromSeed L seed, n_pub := Public (NewKeyFromSeed L seed)\<rparr>) \<and>
     length (Public (NewKeyFromSeed L seed)) = 32"
  by (auto simp: signs_with_def ed25519_correct_def NewKeyFromSeed_def Public_def)

definition ident :: "Node \<Rightarrow> ownKey list \<times> string \<times> bytes \<times> bytes \<times> string" where
  "ident n = (n_ownKeys n, n_keyLocalID n, n_priv n, n_pub n, cfg_Base (n_cfg n))"

lemma ident_own: "own n' = own n \<Longrightarrow> ident n' = ident n"
  by (simp add: own_def ident_def)

lemma keys_ok_ident: "ident n' = ident n \<Longrightarrow> keys_ok L n' = keys_ok L n"
  by (simp add: ident_def keys_ok_def signs_with_def)

definition new_key :: "lib \<Rightarrow> Node \<Rightarrow> ownKey" where
  "new_key L n = (let priv = NewKeyFromSeed L (rand_read L (n_rand n) 32) in
     \<lparr>k_LocalID = key_name (Suc (length (n_ownKeys n))), k_Seed = b64 (Seed priv), k_Created = now_text L n, k_Revoked = [],
      k_priv = priv, k_pub = Public priv\<rparr>)"

lemma RotateKey_ident:
  "ident (snd (RotateKey L n)) =
     (n_ownKeys n @ [new_key L n], k_LocalID (new_key L n), k_priv (new_key L n), k_pub (new_key L n), cfg_Base (n_cfg n))"
proof -
  let ?priv = "NewKeyFromSeed L (rand_read L (n_rand n) 32)" and ?id = "key_name (Suc (length (n_ownKeys n)))"
  let ?m = "announce_all L ?id (Public ?priv) (now_text L n) (map c_PeerBase (open_contacts (n\<lparr>n_rand := Suc (n_rand n)\<rparr>)))
    (n\<lparr>n_rand := Suc (n_rand n)\<rparr>)"
  have m: "own ?m = own n"
    by simp
  then have "n_ownKeys ?m = n_ownKeys n" "cfg_Base (n_cfg ?m) = cfg_Base (n_cfg n)"
    by (simp_all only: own_def prod.inject)
  then have "snd (RotateKey L n) = snd (persistLocked (?m\<lparr>n_ownKeys := n_ownKeys n @ [new_key L n], n_priv := ?priv,
      n_pub := Public ?priv, n_keyLocalID := ?id, n_peerKeys := mput (keyID (cfg_Base (n_cfg n)) ?id) (Public ?priv) (n_peerKeys ?m)\<rparr>))"
    by (simp add: RotateKey_def Let_def key_name_def now_text_def new_key_def add.commute)
  then show ?thesis
    using m ident_own [OF own_steps(3)] by (simp add: ident_def own_def new_key_def Let_def)
qed

lemma keys_ok_RotateKey:
  assumes ok: "keys_ok L n" and lib: "ed25519_correct L" "rand_lengths L"
  shows "keys_ok L (snd (RotateKey L n))"
proof -
  let ?priv = "NewKeyFromSeed L (rand_read L (n_rand n) 32)"
  have "signs_with L (x\<lparr>n_priv := ?priv, n_pub := Public ?priv\<rparr>) \<and> length (Public ?priv) = 32" for x
    using signs_with_seed [OF lib(1)] lib(2) by (simp add: rand_lengths_def)
  then show ?thesis
    using ok RotateKey_ident [of L n] by (simp add: ident_def keys_ok_def signs_with_def new_key_def Let_def)
qed

lemma ident_route: "ident (snd (route L env n)) = ident n"
proof (cases "envStr env ''type'' = ''key.announce''")
  case True
  then show ?thesis
    by (simp add: route_def handleKeyAnnounce_def Let_def case_prod_beta errorReply_def ident_def split: sum.split)
next
  case False
  then show ?thesis
    using side_route [of env L n] by (simp add: side_def ident_def)
qed

lemma ident_unmoved: "unmoved n n' \<Longrightarrow> ident n' = ident n"
  by (auto simp: unmoved_def ident_def)

lemma ident_ProcessInbound: "ident (snd (snd (ProcessInbound L S env n))) = ident n"
proof -
  obtain v rep n1 where run: "ProcessInbound L S env n = (v, rep, n1)"
    by (metis prod.exhaust)
  show ?thesis
  proof (cases "v = VerdictOK")
    case True
    obtain n0 n2 where n0: "unmoved n n0" "route L env (snd (inbound (host L (envStr env ''from'')) n0)) = (rep, n2)"
      "n1 = snd (persistLocked (n2\<lparr>n_inState := mput (host L (envStr env ''from''))
        (mark_processed env rep (channel_of n0 (host L (envStr env ''from'')))) (n_inState n2)\<rparr>))"
      using run True ProcessInbound_OK_E by metis
    have "ident n2 = ident n0"
      using ident_route [of L env "snd (inbound (host L (envStr env ''from'')) n0)"] n0(2)
        ident_unmoved [OF unmoved_inbound] by simp
    moreover have "ident n1 = ident n2"
      unfolding n0(3) using ident_own [OF own_steps(3)] by (simp add: ident_def)
    ultimately show ?thesis
      using run ident_unmoved [OF n0(1)] by simp
  next
    case False
    then show ?thesis
      using ProcessInbound_refused [OF run] run ident_unmoved by simp
  qed
qed

lemma ident_process_all: "ident (snd (process_all L S envs k n)) = ident n"
  by (induction envs arbitrary: n k) (simp_all add: case_prod_beta ident_ProcessInbound)

lemma node_step_keys:
  assumes "node_step L n n'" "keys_ok L n" "ed25519_correct L" "rand_lengths L"
  shows "keys_ok L n'"
proof -
  from assms(1) show ?thesis
  proof cases
    case rotate_key
    then show ?thesis
      using keys_ok_RotateKey [OF assms(2-4)] by simp
  next
    case (revoke_key kid)
    then show ?thesis
      using keys_ok_RevokeKey [OF assms(2)] by simp
  next
    case (receive S env)
    then show ?thesis
      using assms(2) keys_ok_ident [OF ident_ProcessInbound] by simp
  next
    case (poll S base)
    then show ?thesis
      using assms(2) keys_ok_ident [OF ident_process_all] by (simp add: PollPeer_def case_prod_beta split: option.split)
  qed (hypsubst, rule iffD2 [OF keys_ok_own assms(2)], simp)+
qed

text \<open>A configured key is one that \<open>NewKeyFromSeed\<close> made.\<close>

definition key_configured :: "lib \<Rightarrow> Config \<Rightarrow> bool" where
  "key_configured L cfg \<longleftrightarrow>
     (case cfg_PrivKey cfg of None \<Rightarrow> True | Some p \<Rightarrow> \<exists>seed. length seed = 32 \<and> p = NewKeyFromSeed L seed)"

definition configured_key :: "lib \<Rightarrow> Config \<Rightarrow> nat \<Rightarrow> bytes" where
  "configured_key L cfg i = (case cfg_PrivKey cfg of Some p \<Rightarrow> p | None \<Rightarrow> NewKeyFromSeed L (rand_read L i 32))"

lemma own_grant: "grant_member L mc n = Inr m \<Longrightarrow> own m = own n"
  using own_steps(8) [of L "''issuance.grant''" "[]" _ "n\<lparr>n_members := _\<rparr>"]
  by (simp add: grant_member_def Let_def case_prod_beta split: option.splits if_splits sum.splits) auto

lemma ident_grants: "grant_members L mcs n = Inr n' \<Longrightarrow> ident n' = ident n"
proof (induction mcs arbitrary: n)
  case (Cons mc mcs)
  then obtain m where m: "grant_member L mc n = Inr m" "grant_members L mcs m = Inr n'"
    by (auto split: sum.splits)
  then show ?case
    using Cons.IH [OF m(2)] ident_own [OF own_grant [OF m(1)]] by simp
qed simp

lemma NewNode_start:
  assumes "NewNode L cfg t i = Inr n"
  shows "\<exists>m n' created. grant_members L (cfg_Members cfg) m = Inr n' \<and> ident n = ident n' \<and>
    ident m = ([\<lparr>k_LocalID = ''#nk1'', k_Seed = b64 (Seed (configured_key L cfg i)), k_Created = created, k_Revoked = [],
      k_priv = configured_key L cfg i, k_pub = Public (configured_key L cfg i)\<rparr>], ''#nk1'', configured_key L cfg i,
      Public (configured_key L cfg i), cfg_Base cfg)"
proof -
  define cfg' where "cfg' = (if cfg_Transparency cfg = [] then cfg\<lparr>cfg_Transparency := ''pseudonymous''\<rparr> else cfg)"
  define j where "j = (case cfg_PrivKey cfg of Some p \<Rightarrow> i | None \<Rightarrow> Suc i)"
  define m0 where "m0 = empty_node cfg' (configured_key L cfg i) t j"
  define m where "m = m0\<lparr>n_created := now_text L m0,
    n_ownKeys := [\<lparr>k_LocalID = n_keyLocalID m0, k_Seed = b64 (Seed (configured_key L cfg i)), k_Created = now_text L m0,
      k_Revoked = [], k_priv = configured_key L cfg i, k_pub = n_pub m0\<rparr>],
    n_peerKeys := mput (keyID (cfg_Base cfg') (n_keyLocalID m0)) (n_pub m0) (n_peerKeys m0)\<rparr>"
  have same: "cfg_Members cfg' = cfg_Members cfg" "cfg_PrivKey cfg' = cfg_PrivKey cfg"
    "cfg_Base cfg' = cfg_Base cfg"
    by (simp_all add: cfg'_def)
  moreover have "NewNode L cfg t i = (if cfg_Base cfg = [] then Inl BaseRequired else
      case grant_members L (cfg_Members cfg') m of Inl e \<Rightarrow> Inl e | Inr n \<Rightarrow> Inr (n\<lparr>n_currentUD := computeUDBase n\<rparr>))"
    unfolding NewNode_def Let_def cfg'_def [symmetric]
    by (cases "cfg_PrivKey cfg") (simp_all add: m_def m0_def j_def configured_key_def same)
  ultimately obtain n' where "grant_members L (cfg_Members cfg) m = Inr n'" "ident n = ident n'"
    using assms by (auto simp: ident_def split: if_splits sum.splits)
  moreover have "ident m = ([\<lparr>k_LocalID = ''#nk1'', k_Seed = b64 (Seed (configured_key L cfg i)),
      k_Created = now_text L m0, k_Revoked = [], k_priv = configured_key L cfg i,
      k_pub = Public (configured_key L cfg i)\<rparr>], ''#nk1'', configured_key L cfg i, Public (configured_key L cfg i),
      cfg_Base cfg)"
    by (simp add: m_def m0_def ident_def empty_node_def same)
  ultimately show ?thesis
    by metis
qed

lemma NewNode_keys:
  assumes "NewNode L cfg t i = Inr n" "key_configured L cfg" "ed25519_correct L" "rand_lengths L"
  shows "keys_ok L n"
proof -
  define priv where "priv = configured_key L cfg i"
  obtain seed where seed: "length seed = 32" "priv = NewKeyFromSeed L seed"
    using assms(2,4) by (auto simp: priv_def configured_key_def key_configured_def rand_lengths_def split: option.splits)
  obtain created where "ident n = ([\<lparr>k_LocalID = ''#nk1'', k_Seed = b64 (Seed priv), k_Created = created,
      k_Revoked = [], k_priv = priv, k_pub = Public priv\<rparr>], ''#nk1'', priv, Public priv, cfg_Base cfg)"
    using NewNode_start [OF assms(1)] ident_grants unfolding priv_def [symmetric] by metis
  moreover have "length (Public priv) = 32 \<and> Public priv = ed_pub_of L seed"
    using seed assms(3) by (simp add: Public_def NewKeyFromSeed_def ed25519_correct_def)
  moreover have "key_name (Suc 0) = ''#nk1''"
    by code_simp
  moreover have "cfg_Base cfg \<noteq> []"
    using assms(1) by (auto simp: NewNode_def)
  ultimately show ?thesis
    using seed by (auto simp: ident_def keys_ok_def signs_with_def)
qed

lemma started_keys:
  assumes "(node_step L)\<^sup>*\<^sup>* m n" "keys_ok L m" "ed25519_correct L" "rand_lengths L"
  shows "keys_ok L n"
  using assms by (induction rule: rtranclp_induct) (auto intro: node_step_keys)


section \<open>The published keys\<close>

lemma usable_keys_append: "usable_keys base (xs @ ys) = usable_keys base xs @ usable_keys base ys"
  by (induction base xs rule: usable_keys.induct) (auto split: sum.split)

lemma map_of_put_keys: "map_of (put_keys kps m) k = (case map_of (rev kps) k of None \<Rightarrow> map_of m k | Some v \<Rightarrow> Some v)"
  by (induction kps arbitrary: m) (auto simp: put_keys_def map_of_append map_add_def split: option.split)

text \<open>What a list of own keys publishes: the keys that are not revoked.\<close>

definition published :: "string \<Rightarrow> ownKey list \<Rightarrow> (string \<times> bytes) list" where
  "published base ks = map (\<lambda>k. (keyID base (k_LocalID k), k_pub k)) (filter (\<lambda>k. k_Revoked k = []) ks)"

lemma keyDocs_usable:
  assumes "\<forall>k \<in> set (n_ownKeys n). length (k_pub k) = 32"
  shows "usable_keys base (doc_keys (wire (IdentityDoc n))) = published base (n_ownKeys n)"
proof -
  have "usable_keys base (map redecode (map (\<lambda>k. GMap [(''id'', GStr (k_LocalID k)), (''alg'', GStr ''ed25519''),
      (''public_key'', GStr (pubB64 (k_pub k))), (''created'', GStr (k_Created k)),
      (''revoked'', if k_Revoked k \<noteq> [] then GStr (k_Revoked k) else GNil)]) ks)) = published base ks"
    if "\<forall>k \<in> set ks. length (k_pub k) = 32" for ks
    using that by (induction ks) (simp_all add: published_def obj_get_def pStr_def mustParseKey_pubB64)
  moreover have "obj_get (IdentityDoc n) ''keys'' = GArr (keyDocs n)"
    by (simp add: IdentityDoc_def obj_get_def Let_def)
  ultimately show ?thesis
    using assms by (simp add: wire_def doc_keys_def keyDocs_def)
qed

lemma keyDocs_base: "cfg_Base (n_cfg n) \<noteq> [] \<Longrightarrow> doc_base b (wire (IdentityDoc n)) = cfg_Base (n_cfg n)"
proof -
  assume base: "cfg_Base (n_cfg n) \<noteq> []"
  have "obj_get (IdentityDoc n) ''node'' = GMap [(''name'', GStr (cfg_Name (n_cfg n))),
      (''description'', GStr (cfg_Description (n_cfg n))), (''base'', GStr (cfg_Base (n_cfg n)))]"
    by (simp add: IdentityDoc_def Let_def obj_get_def)
  then show ?thesis
    using base unfolding wire_def doc_base_def by (simp add: obj_or_nil_def pStr_def)
qed

lemma keyID_inject [simp]: "keyID base i = keyID base j \<longleftrightarrow> i = j"
  by (simp add: keyID_def)

lemma put_keys_Nil [simp]: "put_keys [] m = m"
  by (simp add: put_keys_def)

lemma published_rev:
  assumes "distinct (map k_LocalID ks)"
  shows "map_of (rev (published base ks)) (keyID base i) =
    (case find (\<lambda>k. k_LocalID k = i) ks of None \<Rightarrow> None | Some k \<Rightarrow> if k_Revoked k = [] then Some (k_pub k) else None)"
  using assms
proof (induction ks)
  case (Cons k ks)
  have "find (\<lambda>k. k_LocalID k = i) ks = None" if "k_LocalID k = i"
  proof -
    have "k_LocalID x \<noteq> i" if "x \<in> set ks" for x
      using Cons.prems \<open>k_LocalID k = i\<close> that by (metis distinct.simps(2) image_eqI list.set_map list.simps(9))
    then show ?thesis
      by (simp add: find_None_iff)
  qed
  then show ?case
    using Cons by (auto simp: published_def map_of_append map_add_def split: option.splits)
qed (simp add: published_def)


lemma keys_ok_distinct:
  assumes "keys_ok L n"
  shows "distinct (map k_LocalID (n_ownKeys n))"
proof -
  have "inj key_name"
    by (auto simp: inj_def key_name_inject)
  then show ?thesis
    using assms inj_on_subset [OF _ subset_UNIV] by (simp add: keys_ok_def distinct_map del: upt_Suc)
qed

lemma find_own:
  assumes "distinct (map k_LocalID ks)" "k \<in> set ks"
  shows "find (\<lambda>x. k_LocalID x = k_LocalID k) ks = Some k"
  using assms by (induction ks) auto

lemma active_key:
  assumes "keys_ok L n"
  shows "last (n_ownKeys n) \<in> set (n_ownKeys n)" "k_Revoked (last (n_ownKeys n)) = []"
    "k_LocalID (last (n_ownKeys n)) = n_keyLocalID n" "k_pub (last (n_ownKeys n)) = n_pub n"
  using assms by (simp_all add: keys_ok_def)

text \<open>What a peer learns from the document, by key.\<close>

lemma learned_key:
  assumes ok: "keys_ok L a" and k: "k \<in> set (n_ownKeys a)" and base: "base = cfg_Base (n_cfg a)"
  shows "map_of (put_keys (usable_keys base (doc_keys (wire (IdentityDoc a)))) m) (keyID base (k_LocalID k)) =
    (if k_Revoked k = [] then Some (k_pub k) else map_of m (keyID base (k_LocalID k)))"
proof -
  have "\<forall>k \<in> set (n_ownKeys a). length (k_pub k) = 32"
    using ok by (simp add: keys_ok_def)
  then show ?thesis
    using published_rev [OF keys_ok_distinct [OF ok], of base "k_LocalID k"] find_own [OF keys_ok_distinct [OF ok] k]
    by (simp add: keyDocs_usable map_of_put_keys)
qed

text \<open>A peer that has not seen an envelope yet and whose clock agrees.\<close>

definition awaits :: "lib \<Rightarrow> Node \<Rightarrow> Node \<Rightarrow> bool" where
  "awaits L b a \<longleftrightarrow>
     (let ci = channel_of b (host L (cfg_Base (n_cfg a))) in
       map_of (ci_seenIDs ci) (newID L (n_rand a)) \<noteq> Some True \<and>
       sint (ci_lastSeq ci) < sint (mget0 (n_outSeq a) (host L (cfg_Base (n_cfg b))) + 1)) \<and>
     n_clock b - n_clock a \<le> MaxAge - 1000000000 \<and> n_clock a - n_clock b \<le> MaxFuture"


lemma wire_get [simp]: "obj_get (wire env) k = redecode (obj_get env k)" "envStr (wire env) k = envStr env k"
  by (simp_all add: wire_def envStr_def)

lemma built_get2:
  assumes "float_free (GMap p)"
  shows "obj_get (fst (buildSigned L ty b re p n)) ''sig'' = signature L (envelope L ty b re p n) n"
    and "envStr (fst (buildSigned L ty b re p n)) ''lp'' = ''0.2''"
  using assms by (simp_all add: buildSigned_eq Let_def envelope_def envStr_def)

lemma built_for_us:
  assumes p: "float_free (GMap p)"
  shows "for_us L (wire (fst (buildSigned L ty (cfg_Base (n_cfg b)) re p a))) b"
    and "sig_key (wire (fst (buildSigned L ty base re p a))) = keyID (cfg_Base (n_cfg a)) (n_keyLocalID a)"
    and "envStr (wire (fst (buildSigned L ty base re p a))) ''from'' = cfg_Base (n_cfg a)"
proof -
  show "for_us L (wire (fst (buildSigned L ty (cfg_Base (n_cfg b)) re p a))) b"
    using p by (simp add: for_us_def built_get built_get2 major_of_def)
  show "sig_key (wire (fst (buildSigned L ty base re p a))) = keyID (cfg_Base (n_cfg a)) (n_keyLocalID a)"
    using p by (simp add: sig_key_def built_get2 signature_def obj_or_nil_def pStr_def)
  show "envStr (wire (fst (buildSigned L ty base re p a))) ''from'' = cfg_Base (n_cfg a)"
    using p by (simp add: built_get)
qed

text \<open>
  The peer that does not know the key fetches the document and goes on as if it had known it.
\<close>

lemma ProcessInbound_fetch:
  assumes "for_us L env n" "map_of (n_peerKeys n) (sig_key env) = None" "fetchPeerKeys S (envStr env ''from'') n = (Inr (), m)"
  shows "ProcessInbound L S env n =
    (let h = host L (envStr env ''from''); n0 = snd (inbound h m); v = ValidateEnvelope L env (inbound_view L env m)
     in if v = VerdictDuplicate then (v, map_of (ci_replies (channel_of m h)) (envStr env ''id''), n0)
        else if v \<noteq> VerdictOK then (v, None, n0)
        else let (rep, n1) = route L env n0
          in (v, rep, snd (persistLocked (n1\<lparr>n_inState := mput h (mark_processed env rep (channel_of m h)) (n_inState n1)\<rparr>))))"
  using assms
  by (auto simp: ProcessInbound_def Let_def case_prod_beta inbound_view_def for_us_def sig_key_def)

lemma ProcessInbound_fetched:
  assumes us: "for_us L env b" and new: "map_of (n_peerKeys b) (sig_key env) = None"
    and base: "envStr env ''from'' = base" "base \<noteq> []"
    and doc: "FetchIdentity s base = Some doc" "doc_base base doc = base" "usable_keys base (doc_keys doc) \<noteq> []"
    and known: "map_of (put_keys (usable_keys base (doc_keys doc)) (n_peerKeys b)) (sig_key env) \<noteq> None"
  shows "ProcessInbound L (Some s) env b =
    ProcessInbound L (Some s) env (b\<lparr>n_peerKeys := put_keys (usable_keys base (doc_keys doc)) (n_peerKeys b)\<rparr>)"
proof -
  let ?b = "b\<lparr>n_peerKeys := put_keys (usable_keys base (doc_keys doc)) (n_peerKeys b)\<rparr>"
  have f: "fetchPeerKeys (Some s) (envStr env ''from'') b = (Inr (), ?b)"
    using base doc by (simp add: fetchPeerKeys_def Let_def)
  have "for_us L env ?b"
    using us by (simp add: for_us_def)
  then show ?thesis
    unfolding ProcessInbound_fetch [OF us new f] by (rule ProcessInbound_known [symmetric]) (use known in simp)
qed

section \<open>Properties\<close>

text \<open>A node that was created with a key of its own and has run since.\<close>

definition running :: "lib \<Rightarrow> Node \<Rightarrow> bool" where
  "running L n \<longleftrightarrow> ed25519_correct L \<and> rfc3339_correct L \<and> rand_lengths L \<and>
     (\<exists>cfg t i m. key_configured L cfg \<and> NewNode L cfg t i = Inr m \<and> (node_step L)\<^sup>*\<^sup>* m n)"

lemma running_keys: "running L n \<Longrightarrow> keys_ok L n"
  unfolding running_def using NewNode_keys started_keys by blast

lemma awaits_expects:
  assumes "awaits L b a" "map_of (n_peerKeys b) (keyID (cfg_Base (n_cfg a)) (n_keyLocalID a)) = Some (n_pub a)"
    "envStr env ''from'' = cfg_Base (n_cfg a)"
  shows "expects L a (cfg_Base (n_cfg b)) (inbound_view L env b)"
  using assms by (simp add: awaits_def expects_def inbound_view_def Let_def)

lemma known_accepted:
  assumes a: "running L a" and b: "awaits L b a" and p: "float_free (GMap p)"
    and key: "map_of (n_peerKeys b) (keyID (cfg_Base (n_cfg a)) (n_keyLocalID a)) = Some (n_pub a)"
  shows "fst (ProcessInbound L S (wire (fst (buildSigned L ty (cfg_Base (n_cfg b)) re p a))) b) = VerdictOK"
proof -
  let ?env = "wire (fst (buildSigned L ty (cfg_Base (n_cfg b)) re p a))"
  have k: "signs_with L a" "cfg_Base (n_cfg a) \<noteq> []"
    using running_keys [OF a] by (simp_all add: keys_ok_def)
  have "accepted L ?env (inbound_view L ?env b)"
    using a awaits_expects [OF b key] built_for_us(3) [OF p] by (intro built_accepted k p) (simp_all add: running_def)
  then have "ValidateEnvelope L ?env (inbound_view L ?env b) = VerdictOK"
    by (simp add: ValidateEnvelope_ok)
  then show ?thesis
    using ProcessInbound_known [OF built_for_us(1) [OF p]] key built_for_us(2) [OF p]
    by (simp add: Let_def case_prod_beta)
qed

lemma learned_accepted:
  assumes a: "running L a" and b: "awaits L b a" and p: "float_free (GMap p)"
    and doc: "FetchIdentity s (cfg_Base (n_cfg a)) = Some (wire (IdentityDoc a))"
    and new: "map_of (n_peerKeys b) (keyID (cfg_Base (n_cfg a)) (n_keyLocalID a)) = None"
  shows "fst (ProcessInbound L (Some s) (wire (fst (buildSigned L ty (cfg_Base (n_cfg b)) re p a))) b) = VerdictOK"
proof -
  let ?base = "cfg_Base (n_cfg a)" and ?env = "wire (fst (buildSigned L ty (cfg_Base (n_cfg b)) re p a))"
  let ?keys = "usable_keys ?base (doc_keys (wire (IdentityDoc a)))"
  have ok: "keys_ok L a"
    using running_keys [OF a] .
  then have base: "?base \<noteq> []"
    by (simp add: keys_ok_def)
  have k: "map_of (put_keys ?keys m) (keyID ?base (n_keyLocalID a)) = Some (n_pub a)" for m
    using learned_key [OF ok active_key(1) [OF ok] refl] active_key [OF ok] by simp
  then have ne: "?keys \<noteq> []"
    by (metis foldl_Nil map_of.simps(1) option.distinct(1) put_keys_def)
  have "ProcessInbound L (Some s) ?env b = ProcessInbound L (Some s) ?env (b\<lparr>n_peerKeys := put_keys ?keys (n_peerKeys b)\<rparr>)"
    by (rule ProcessInbound_fetched [OF built_for_us(1) [OF p]])
      (use p new doc ne base k in \<open>simp_all add: built_for_us keyDocs_base built_get\<close>)
  moreover have "awaits L (b\<lparr>n_peerKeys := put_keys ?keys (n_peerKeys b)\<rparr>) a"
    using b by (simp add: awaits_def channel_of_def)
  ultimately show ?thesis
    using known_accepted [OF a _ p, of "b\<lparr>n_peerKeys := put_keys ?keys (n_peerKeys b)\<rparr>"] k by simp
qed


text \<open>A running pair for the witnesses: one node whose document is served, one that has never heard of it.\<close>

lemma demo_running: "(node_step demo)\<^sup>*\<^sup>* demo_a a \<Longrightarrow> running demo a"
proof -
  assume "(node_step demo)\<^sup>*\<^sup>* demo_a a"
  moreover have "rand_lengths demo"
    by (simp add: rand_lengths_def demo_def)
  moreover have "key_configured demo (demo_cfg ''https://a.example'' ''ann'')"
    by (auto simp: key_configured_def demo_cfg_def intro!: exI [of _ "replicate 32 (CHR ''s'')"])
  ultimately show ?thesis
    unfolding running_def using demo_ed25519 demo_rfc3339 demo_facts(1) by blast
qed

definition serving :: "Node \<Rightarrow> sender" where
  "serving a = \<lparr>FetchIdentity = (\<lambda>base. if base = cfg_Base (n_cfg a) then Some (wire (IdentityDoc a)) else None),
     FetchOutbox = (\<lambda>_ _. None), FetchCheckpoint = (\<lambda>_. None)\<rparr>"

definition stranger :: Node where
  "stranger = demo_b\<lparr>n_peerKeys := []\<rparr>"

lemma stranger_awaits [simp]: "awaits demo stranger demo_a" "n_peerKeys stranger = []"
  by (simp_all add: stranger_def awaits_def channel_of_def empty_inbound_def Let_def mget0_def MaxAge_def MaxFuture_def)

text \<open>
  C4: what a running node sends is accepted by the peer it is meant for. The sender was created from a
  configuration and has done anything since (rotated its key, too); the peer either holds its current key or
  holds no key under that id and can fetch its identity document; it has not seen the envelope, nor a later one of the
  channel, and the clocks agree up to the validity window. Then the verdict on the envelope, decoded from the
  wire, is \<open>ok\<close>, whatever its type and its payload.
\<close>

theorem envelopes_accepted:
  assumes "running L a" "awaits L b a" "float_free (GMap p)"
    and "map_of (n_peerKeys b) (keyID (cfg_Base (n_cfg a)) (n_keyLocalID a)) = Some (n_pub a) \<or>
      map_of (n_peerKeys b) (keyID (cfg_Base (n_cfg a)) (n_keyLocalID a)) = None \<and> S \<noteq> None \<and>
      FetchIdentity (the S) (cfg_Base (n_cfg a)) = Some (wire (IdentityDoc a))"
  shows "fst (ProcessInbound L S (wire (fst (buildSigned L ty (cfg_Base (n_cfg b)) re p a))) b) = VerdictOK"
  using assms(4)
proof
  assume "map_of (n_peerKeys b) (keyID (cfg_Base (n_cfg a)) (n_keyLocalID a)) = Some (n_pub a)"
  then show ?thesis
    by (rule known_accepted [OF assms(1-3)])
next
  assume "map_of (n_peerKeys b) (keyID (cfg_Base (n_cfg a)) (n_keyLocalID a)) = None \<and> S \<noteq> None \<and>
      FetchIdentity (the S) (cfg_Base (n_cfg a)) = Some (wire (IdentityDoc a))"
  then show ?thesis
    using learned_accepted [OF assms(1-3), of "the S"] by auto
qed

theorem envelopes_accepted_witness:
  "fst (ProcessInbound demo (Some (serving demo_a))
     (wire (fst (buildSigned demo ''member.lookup'' (cfg_Base (n_cfg stranger)) [] [(''name'', GStr ''bob'')] demo_a))) stranger) = VerdictOK"
  by (rule envelopes_accepted) (simp_all add: demo_running serving_def)


section \<open>Revocation\<close>

lemma put_keys_distinct: "distinct (mkeys m) \<Longrightarrow> distinct (mkeys (put_keys kps m))"
  by (induction kps arbitrary: m) (simp_all add: put_keys_def)

lemma map_of_put_keys_self:
  assumes "distinct (map fst kps)" "map_of kps k = None \<Longrightarrow> map_of m k = None"
  shows "map_of (put_keys kps m) k = map_of kps k"
proof -
  have "map_of (rev kps) k = map_of kps k"
    using assms(1) by (metis distinct_rev map_of_inject_set rev_map set_rev)
  then show ?thesis
    using assms(2) by (simp add: map_of_put_keys split: option.split)
qed

lemma peerKeys_saved: "n_peerKeys (if c then snd (persistLocked m) else m) = n_peerKeys m"
  by simp

lemma RefreshPeerKeys_learns:
  assumes a: "running L a" and doc: "FetchIdentity s (cfg_Base (n_cfg a)) = Some (wire (IdentityDoc a))"
    and k: "k \<in> set (n_ownKeys a)"
  shows "map_of (n_peerKeys (snd (RefreshPeerKeys (Some s) (cfg_Base (n_cfg a)) b))) (keyID (cfg_Base (n_cfg a)) (k_LocalID k)) =
    (if k_Revoked k = [] then Some (k_pub k) else None)"
proof -
  let ?base = "cfg_Base (n_cfg a)"
  let ?kid = "keyID ?base (k_LocalID k)" and ?ks = "usable_keys ?base (doc_keys (wire (IdentityDoc a)))"
  let ?gone = "filter (\<lambda>kid. HasPrefix kid (?base @ identityPath @ ''#'') \<and> map_of (put_keys ?ks []) kid = None) (mkeys (n_peerKeys b))"
  let ?pruned = "filter (\<lambda>kp. fst kp \<notin> set ?gone) (n_peerKeys b)"
  have ok: "keys_ok L a"
    using running_keys [OF a] .
  then have base: "?base \<noteq> []"
    by (simp add: keys_ok_def)
  have "k_LocalID k \<in> set (map key_name [1..<Suc (length (n_ownKeys a))])"
    using ok k unfolding keys_ok_def by (metis image_eqI list.set_map)
  then have "\<exists>i. k_LocalID k = key_name i"
    by auto
  then have pre: "HasPrefix ?kid (?base @ identityPath @ ''#'')"
    by (auto simp: keyID_def key_name_def HasPrefix_def)
  have "map_of ?pruned ?kid = None" if "map_of (put_keys ?ks []) ?kid = None"
    using that pre by (force simp: map_of_eq_None_iff mkeys_def)
  then have "map_of (put_keys (put_keys ?ks []) ?pruned) ?kid = map_of (put_keys ?ks []) ?kid"
    using map_of_put_keys_self [OF put_keys_distinct [of "[]" ?ks, unfolded mkeys_def]] by simp
  moreover have "map_of (put_keys ?ks []) ?kid = (if k_Revoked k = [] then Some (k_pub k) else None)"
    using learned_key [OF ok k refl, of "[]"] by simp
  moreover have "n_peerKeys (snd (RefreshPeerKeys (Some s) ?base b)) = put_keys (put_keys ?ks []) ?pruned"
    using doc base by (simp add: RefreshPeerKeys_def Let_def keyDocs_base peerKeys_saved split del: if_split)
  ultimately show ?thesis
    by simp
qed


text \<open>Without a known key an envelope is never accepted, whoever is asked for it.\<close>

lemma ProcessInbound_unknown:
  assumes "map_of (n_peerKeys b) (sig_key env) = None"
    and "map_of (n_peerKeys (snd (fetchPeerKeys S (envStr env ''from'') b))) (sig_key env) = None"
  shows "fst (ProcessInbound L S env b) \<noteq> VerdictOK"
proof
  assume "fst (ProcessInbound L S env b) = VerdictOK"
  then obtain rep n1 where run: "ProcessInbound L S env b = (VerdictOK, rep, n1)"
    by (metis prod.collapse)
  let ?m = "snd (fetchPeerKeys S (envStr env ''from'') b)"
  have "ValidateEnvelope L env (inbound_view L env ?m) = VerdictOK"
    using run assms(1)
    by (auto simp: ProcessInbound_def Let_def case_prod_beta sig_key_def [symmetric] inbound_view_def
        split: sum.splits if_splits)
  then have "map_of (n_peerKeys ?m) (sig_key env) \<noteq> None"
    unfolding ValidateEnvelope_ok accepted_def by (auto simp: inbound_view_def sig_key_def obj_or_nil_def)
  then show False
    using assms(2) by simp
qed

lemma fetch_unpublished:
  assumes a: "running L a" and doc: "FetchIdentity s (cfg_Base (n_cfg a)) = Some (wire (IdentityDoc a))"
    and k: "k \<in> set (n_ownKeys a)" "k_Revoked k \<noteq> []" and kid: "kid = keyID (cfg_Base (n_cfg a)) (k_LocalID k)"
    and b: "map_of (n_peerKeys b) kid = None"
  shows "map_of (n_peerKeys (snd (fetchPeerKeys (Some s) (cfg_Base (n_cfg a)) b))) kid = None"
proof -
  have ok: "keys_ok L a"
    using running_keys [OF a] .
  then have base: "doc_base (cfg_Base (n_cfg a)) (wire (IdentityDoc a)) = cfg_Base (n_cfg a)"
    by (simp add: keyDocs_base keys_ok_def)
  show ?thesis
    using learned_key [OF ok k(1) refl, of "n_peerKeys b"] k(2) b doc
    by (simp add: fetchPeerKeys_def Let_def base kid)
qed

text \<open>
  C11: a peer that refreshes its keys from a running node's identity document holds, of that node's own keys,
  exactly those that are not revoked, each under its id and with the node's own public key, whatever it held
  before. From then on no envelope from that node under a revoked key is accepted, whatever it says and however it is
  signed: the key is unknown, and fetching the document once more does not bring it back.
\<close>

theorem refresh_drops_revoked:
  assumes "running L a" "FetchIdentity s (cfg_Base (n_cfg a)) = Some (wire (IdentityDoc a))" "k \<in> set (n_ownKeys a)"
    and "b' = snd (RefreshPeerKeys (Some s) (cfg_Base (n_cfg a)) b)"
  shows "map_of (n_peerKeys b') (keyID (cfg_Base (n_cfg a)) (k_LocalID k)) = (if k_Revoked k = [] then Some (k_pub k) else None) \<and>
    (k_Revoked k \<noteq> [] \<longrightarrow> envStr env ''from'' = cfg_Base (n_cfg a) \<longrightarrow>
      sig_key env = keyID (cfg_Base (n_cfg a)) (k_LocalID k) \<longrightarrow> fst (ProcessInbound L (Some s) env b') \<noteq> VerdictOK)"
proof (intro conjI impI)
  show *: "map_of (n_peerKeys b') (keyID (cfg_Base (n_cfg a)) (k_LocalID k)) = (if k_Revoked k = [] then Some (k_pub k) else None)"
    unfolding assms(4) by (rule RefreshPeerKeys_learns [OF assms(1-3)])
  assume k: "k_Revoked k \<noteq> []" "envStr env ''from'' = cfg_Base (n_cfg a)"
    "sig_key env = keyID (cfg_Base (n_cfg a)) (k_LocalID k)"
  show "fst (ProcessInbound L (Some s) env b') \<noteq> VerdictOK"
    using * k fetch_unpublished [OF assms(1-3) k(1) refl, of b'] by (intro ProcessInbound_unknown) simp_all
qed


text \<open>A node that has rotated its key and revoked the first one.\<close>

definition demo_rotated :: Node where
  "demo_rotated = snd (RevokeKey demo ''#nk1'' (snd (RotateKey demo demo_a)))"

lemma demo_rotated_running: "running demo demo_rotated"
  unfolding demo_rotated_def
  by (rule demo_running) (meson node_step.revoke_key node_step.rotate_key r_into_rtranclp rtranclp.rtrancl_into_rtrancl)

lemma demo_rotated_revoked: "\<exists>k \<in> set (n_ownKeys demo_rotated). k_LocalID k = ''#nk1'' \<and> k_Revoked k \<noteq> []"
proof -
  have ok: "keys_ok demo demo_a"
    by (rule running_keys, rule demo_running) simp
  let ?r = "snd (RotateKey demo demo_a)"
  obtain k ks where ks: "n_ownKeys demo_a = k # ks"
    using ok by (cases "n_ownKeys demo_a") (simp_all add: keys_ok_def)
  then have k: "k_LocalID k = key_name 1"
    using ok by (auto simp: keys_ok_def upt_conv_Cons simp del: upt_Suc)
  have name: "key_name 1 = ''#nk1''"
    by code_simp
  have r: "n_ownKeys ?r = k # ks @ [new_key demo demo_a]" "n_keyLocalID ?r = key_name (Suc (length (n_ownKeys demo_a)))"
    using RotateKey_ident [of demo demo_a] ks by (simp_all add: ident_def new_key_def Let_def)
  have "''#nk1'' \<noteq> n_keyLocalID ?r"
    using ks key_name_inject [of 1 "Suc (length (n_ownKeys demo_a))"] name r(2) by simp
  then have "n_ownKeys demo_rotated = (if k_Revoked k \<noteq> [] then n_ownKeys ?r else revoke_first ''#nk1'' (now_text demo ?r) (n_ownKeys ?r))"
    using k name ident_own [OF own_steps(3)] by (simp add: demo_rotated_def RevokeKey_def r ident_def)
  moreover have "now_text demo n \<noteq> []" for n
    by (simp add: now_text_def demo_def dec_int_def)
  ultimately show ?thesis
    using k name r(1) by (cases "k_Revoked k = []") auto
qed

theorem refresh_drops_revoked_witness:
  "\<exists>kid. kid \<noteq> n_keyLocalID demo_rotated \<and>
     map_of (n_peerKeys (snd (RefreshPeerKeys (Some (serving demo_rotated)) (cfg_Base (n_cfg demo_rotated))
       (stranger\<lparr>n_peerKeys := [(keyID (cfg_Base (n_cfg demo_rotated)) kid, [])]\<rparr>))))
       (keyID (cfg_Base (n_cfg demo_rotated)) kid) = None"
proof -
  obtain k where k: "k \<in> set (n_ownKeys demo_rotated)" "k_LocalID k = ''#nk1''" "k_Revoked k \<noteq> []"
    using demo_rotated_revoked by blast
  have "k_LocalID k \<noteq> n_keyLocalID demo_rotated"
    using active_key [OF running_keys [OF demo_rotated_running]] find_own [OF keys_ok_distinct [OF running_keys [OF demo_rotated_running]]] k
    by (metis option.inject)
  then show ?thesis
    using refresh_drops_revoked [OF demo_rotated_running _ k(1) refl, of "serving demo_rotated"] k(3)
    by (intro exI [of _ "k_LocalID k"]) (simp add: serving_def)
qed

end
