(* ===== verification/LP_Outbox.thy ===== *)
theory LP_Outbox
  imports LP_Inbox
begin

text \<open>
  The outboxes of a node against an abstract mailbox: every operation is a sequence of sends and prunes, so
  in every reachable state each outbox lists its envelopes by increasing sequence number.
\<close>

section \<open>The mailbox\<close>

text \<open>
  The counters of the channels, the queues, and how many random ids were drawn. A send gives the envelope
  the next number of its channel and takes one id; a failed one takes the number only; a prune drops
  entries; anything else may draw ids.
\<close>

type_synonym mailbox = "(string, i64) gomap \<times> (string, obj list) gomap \<times> nat"

inductive mail_step :: "mailbox \<Rightarrow> mailbox \<Rightarrow> bool" where
  idle: "mail_step (s, q, d) (s, q, Suc d)"
| send: "asInt (obj_get e ''seq'') = (mget0 s h + 1, True) \<Longrightarrow>
    mail_step (s, q, d) (mput h (mget0 s h + 1) s, mput h (mgetl q h @ [e]) q, Suc d)"
| failed: "mail_step (s, q, d) (mput h (mget0 s h + 1) s, q, Suc d)"
| prune: "mail_step (s, q, d) (s, mput h (filter P (mgetl q h)) q, d)"

inductive_cases mail_stepE: "mail_step (s, q, d) m"

abbreviation posts :: "mailbox \<Rightarrow> mailbox \<Rightarrow> bool" where
  "posts \<equiv> mail_step\<^sup>*\<^sup>*"

definition mail :: "Node \<Rightarrow> mailbox" where
  "mail n = (n_outSeq n, n_outbox n, n_rand n)"

lemma mail_updates [simp]:
  "mail (n\<lparr>n_cfg := y1\<rparr>) = mail n" "mail (n\<lparr>n_clock := y2\<rparr>) = mail n" "mail (n\<lparr>n_inState := y3\<rparr>) = mail n"
  "mail (n\<lparr>n_peerKeys := y4\<rparr>) = mail n" "mail (n\<lparr>n_members := y5\<rparr>) = mail n" "mail (n\<lparr>n_priv := y6\<rparr>) = mail n"
  "mail (n\<lparr>n_pub := y7\<rparr>) = mail n" "mail (n\<lparr>n_keyLocalID := y8\<rparr>) = mail n" "mail (n\<lparr>n_ownKeys := y9\<rparr>) = mail n"
  "mail (n\<lparr>n_pushed := x1\<rparr>) = mail n" "mail (n\<lparr>n_currentUD := x2\<rparr>) = mail n" "mail (n\<lparr>n_store := x3\<rparr>) = mail n"
  "mail (n\<lparr>n_cells := x4\<rparr>) = mail n" "mail (n\<lparr>n_led := x5\<rparr>) = mail n" "mail (n\<lparr>n_transfers := x6\<rparr>) = mail n"
  "mail (set_cell r c n) = mail n" "mail (set_transfer tid t n) = mail n" "mail (link_contact i h r n) = mail n"
  "mail (snd (persistLocked n)) = mail n" "mail (snd (inbound h n)) = mail n"
  by (simp_all add: mail_def) (simp_all add: set_cell_def set_transfer_def link_contact_def inbound_def split: option.split)

lemma posts_step: "posts m (mail n) \<Longrightarrow> mail_step (mail n) m' \<Longrightarrow> posts m m'"
  by (rule rtranclp.rtrancl_into_rtrancl)

lemma posts_rand [simp]: "posts m (mail n) \<Longrightarrow> posts m (mail (n\<lparr>n_rand := Suc (n_rand n)\<rparr>))"
  by (rule posts_step) (auto simp: mail_def mail_step.simps)

lemma posts_draw [simp]: "posts m (mail n) \<Longrightarrow> posts m (mail (snd (draw_id L n)))"
  by (simp add: draw_id_def)

lemma posts_append [simp]: "posts m (mail n) \<Longrightarrow> posts m (mail (snd (append_tx L ty ref es n)))"
  by (simp add: append_tx_def draw_id_def case_prod_beta split: sum.split)

lemma buildSigned_env:
  "buildSigned L ty b re p n =
    (case SignEnvelope L (envelope L ty b re p n) (n_priv n) of
       Inl e \<Rightarrow> ([], n\<lparr>n_outSeq := mput (host L b) (mget0 (n_outSeq n) (host L b) + 1) (n_outSeq n), n_rand := Suc (n_rand n),
         n_panic := True\<rparr>)
     | Inr sg \<Rightarrow>
         let env = envelope L ty b re p n @ [(''sig'', GMap [(''key'', GStr (keyID (cfg_Base (n_cfg n)) (n_keyLocalID n))),
           (''alg'', GStr ''ed25519''), (''value'', GStr (b64_encode sg))])] in
         (env, n\<lparr>n_outSeq := mput (host L b) (mget0 (n_outSeq n) (host L b) + 1) (n_outSeq n), n_rand := Suc (n_rand n),
           n_outbox := mput (host L b) (mgetl (n_outbox n) (host L b) @ [env]) (n_outbox n)\<rparr>))"
  by (simp add: buildSigned_def draw_id_def Let_def envelope_def now_text_def cong: sum.case_cong)

lemma envelope_seq: "obj_get (envelope L ty b re p n @ xs) ''seq'' = GInt (mget0 (n_outSeq n) (host L b) + 1)"
  by (simp add: envelope_def)

lemma posts_build [simp]:
  assumes "posts m (mail n)"
  shows "posts m (mail (snd (buildSigned L ty b re p n)))"
proof -
  let ?h = "host L b"
  let ?s = "mput ?h (mget0 (n_outSeq n) ?h + 1) (n_outSeq n)"
  let ?e = "fst (buildSigned L ty b re p n)"
  have "mail (snd (buildSigned L ty b re p n)) = (?s, n_outbox n, Suc (n_rand n)) \<or>
    asInt (obj_get ?e ''seq'') = (mget0 (n_outSeq n) ?h + 1, True) \<and>
      mail (snd (buildSigned L ty b re p n)) = (?s, mput ?h (mgetl (n_outbox n) ?h @ [?e]) (n_outbox n), Suc (n_rand n))"
  proof (cases "SignEnvelope L (envelope L ty b re p n) (n_priv n)")
    case (Inl err)
    then show ?thesis
      by (simp add: buildSigned_env mail_def)
  next
    case (Inr sig)
    then show ?thesis
      by (simp add: buildSigned_env mail_def Let_def envelope_seq)
  qed
  then have "mail_step (mail n) (mail (snd (buildSigned L ty b re p n)))"
    unfolding mail_def [of n] by (elim disjE conjE) (simp_all only: failed send)
  then show ?thesis
    by (rule posts_step [OF assms])
qed

lemma posts_prune [simp]:
  assumes "posts m (mail n)"
  shows "posts m (mail (snd (pruneOutboxLocked h u n)))"
proof -
  have "mail (snd (pruneOutboxLocked h u n)) = mail n \<or>
    (\<exists>P. mail (snd (pruneOutboxLocked h u n)) = (n_outSeq n, mput h (filter P (mgetl (n_outbox n) h)) (n_outbox n), n_rand n))"
    by (auto simp: mail_def pruneOutboxLocked_def Let_def)
  then show ?thesis
    using assms unfolding mail_def [of n] by (metis prune rtranclp.rtrancl_into_rtrancl)
qed

text \<open>The operations, from these pieces.\<close>

lemma posts_release [simp]:
  assumes "posts m (mail n)"
  shows "posts m (mail (snd (expireIfDueLocked L tid t n)))" "posts m (mail (releaseIfBusyExpired L r n))"
proof -
  have lock: "mail (release_lock i tid n) = mail n" for i tid n
    by (simp add: release_lock_def split: option.split)
  show exp: "posts m (mail (snd (expireIfDueLocked L tid t n)))" for L tid t
    using assms by (cases rule: expire_cases [of L tid t n]) (simp_all add: lock)
  show "posts m (mail (releaseIfBusyExpired L r n))"
    using assms by (cases rule: release_cases [of L r n]) (simp_all add: exp)
qed

lemma posts_error [simp]:
  "posts m (mail n) \<Longrightarrow> posts m (mail (snd (errorReply L env c d n)))"
  "posts m (mail n) \<Longrightarrow> posts m (mail (snd (rejectTransfer L env tid c d n)))"
  by (simp_all add: errorReply_def rejectTransfer_def)

lemma posts_contact_handlers [simp]:
  assumes "posts m (mail n)"
  shows "posts m (mail (snd (handleContactPropose L env n)))" "posts m (mail (snd (handleContactAccept L env n)))"
    "posts m (mail (snd (handleContactUpdate L env n)))" "posts m (mail (snd (handleContactClose L env n)))"
    "posts m (mail (snd (handleMemberLookup L env n)))"
  using assms
  by (simp_all add: handleContactPropose_def handleContactAccept_def handleContactUpdate_def handleContactClose_def
      handleMemberLookup_def seedLedger_def applySeed_eq new_cell_def Let_def case_prod_beta split: option.split sum.split)

lemma posts_transfer_handlers [simp]:
  assumes "posts m (mail n)"
  shows "posts m (mail (snd (handleTransferPropose L env n)))" "posts m (mail (snd (handleTransferReceipt L env n)))"
    "posts m (mail (snd (close_transfer ev out L env n)))"
  using assms
  by (simp_all add: handleTransferPropose_def handleTransferReceipt_def close_transfer_def Let_def case_prod_beta
      split: option.split sum.split)

lemma posts_settling [simp]:
  assumes "posts m (mail n)"
  shows "posts m (mail (snd (handleTransferAccept L env n)))" "posts m (mail (snd (handleTransferCommit L env n)))"
    "posts m (mail (snd (handleReserveAdjust L env n)))" "posts m (mail (snd (handleReserveAccept L env n)))"
  using assms
  by (simp_all add: handleTransferAccept_def handleTransferCommit_def handleReserveAdjust_def handleReserveAccept_def
      applyTransfer_eq applyAdjust_eq Let_def case_prod_beta split: option.split sum.split bool.split)

lemma posts_route [simp]: "posts m (mail n) \<Longrightarrow> posts m (mail (snd (route L env n)))"
  by (simp add: route_def Let_def handleTransferReject_def handleTransferAbort_def handleKeyAnnounce_def case_prod_beta
      split: sum.split)

lemma posts_members [simp]:
  assumes "posts m (mail n)"
  shows "posts m (mail (snd (AddMember L name d g n)))" "posts m (mail (snd (DeactivateMember name n)))"
    "posts m (mail (snd (Reactivate name n)))" "posts m (mail (snd (Pay L x y z n)))" "posts m (mail (snd (Leave L mem mode to n)))"
  using assms
  by (simp_all add: AddMember_def DeactivateMember_def Reactivate_def Pay_def Leave_def Let_def case_prod_beta
      split: option.split sum.split)

lemma posts_ud [simp]: "posts m (mail n) \<Longrightarrow> posts m (mail (snd (RunUD L n)))"
proof -
  assume n: "posts m (mail n)"
  have each: "posts m (mail n) \<Longrightarrow> posts m (mail (snd (ud_each L b names n)))" for b names n
    by (induction names arbitrary: n) (simp_all add: Let_def case_prod_beta split: sum.split)
  have batch: "posts m (mail n) \<Longrightarrow> posts m (mail (snd (ud_batch L b n)))" for b n
    by (simp add: ud_batch_def Let_def case_prod_beta split: sum.split)
  have red: "posts m (mail n) \<Longrightarrow> posts m (mail (snd (redistributeLocked L n)))" for n
    by (simp add: redistributeLocked_def Let_def case_prod_beta split: sum.split)
  show ?thesis
    using n by (simp add: RunUD_def Let_def case_prod_beta each batch red split: sum.split)
qed

lemma posts_sweep [simp]: "posts m (mail n) \<Longrightarrow> posts m (mail (snd (sweep L now tids k n)))"
  by (induction tids arbitrary: k n) (simp_all add: case_prod_beta)

lemma posts_peers [simp]:
  assumes "posts m (mail n)"
  shows "posts m (mail (snd (OpenContact L b s note n)))" "posts m (mail (snd (CloseContact L b note n)))"
    "posts m (mail (snd (RetireReserve L b n)))" "posts m (mail (snd (StartTransfer L b x y z note n)))"
    "posts m (mail (snd (AbortTransfer L tid n)))" "posts m (mail (snd (AdjustReserve L b d note n)))"
    "posts m (mail (snd (SweepExpired L n)))"
  using assms
  by (simp_all add: OpenContact_def CloseContact_def RetireReserve_def StartTransfer_def AbortTransfer_def AdjustReserve_def
      SweepExpired_def new_cell_def Let_def case_prod_beta split: option.split sum.split)

lemma posts_announce [simp]: "posts m (mail n) \<Longrightarrow> posts m (mail (announce_all L k pub t bs n))"
  by (induction bs arbitrary: n) simp_all

lemma posts_keys [simp]:
  assumes "posts m (mail n)"
  shows "posts m (mail (snd (RotateKey L n)))" "posts m (mail (snd (RevokeKey L k n)))"
    "posts m (mail (snd (RefreshPeerKeys S b n)))" "posts m (mail (snd (fetchPeerKeys S b n)))"
  using assms
  by (simp_all add: RotateKey_def RevokeKey_def RefreshPeerKeys_def fetchPeerKeys_def Let_def split: option.split)

lemma posts_reconcile [simp]:
  assumes "posts m (mail n)"
  shows "posts m (mail (snd (ReconcilePeer L S b n)))"
  using assms
  by (simp add: ReconcilePeer_def reconcile_entry_def Let_def case_prod_beta split: option.split)

lemma posts_rest [simp]:
  assumes "posts m (mail n)"
  shows "posts m (mail (snd (pushHost deliver h n)))" "posts m (mail (snd (SetStore s n)))" "posts m (mail (SetIdentity x y z n))"
  using assms
  by (simp_all add: pushHost_def SetStore_def SetIdentity_def Let_def case_prod_beta split: option.split list.split)

lemma posts_ProcessInbound [simp]:
  assumes "posts m (mail n)"
  shows "posts m (mail (snd (snd (ProcessInbound L S env n))))"
  using assms by (simp add: ProcessInbound_def Let_def case_prod_beta split: sum.split)

lemma posts_poll [simp]:
  assumes "posts m (mail n)"
  shows "posts m (mail (snd (process_all L S envs k n)))" "posts m (mail (snd (PollPeer L S b n)))"
proof -
  show all: "posts m (mail (snd (process_all L S envs k n)))" for S envs k
    using assms by (induction envs arbitrary: k n) (simp_all add: case_prod_beta)
  show "posts m (mail (snd (PollPeer L S b n)))"
    using assms by (simp add: PollPeer_def case_prod_beta all split: option.split)
qed

text \<open>Every step of a node refines a run of the mailbox.\<close>

lemma node_step_posts:
  assumes "node_step L n n'"
  shows "posts (mail n) (mail n')"
proof -
  have n: "posts (mail n) (mail n)"
    by simp
  from assms show ?thesis
    by cases (hypsubst, insert n, simp)+
qed

lemma NewNode_mail:
  assumes "NewNode L cfg t i = Inr n"
  shows "n_outSeq n = [] \<and> n_outbox n = []"
proof -
  have one: "n_outSeq m' = n_outSeq m \<and> n_outbox m' = n_outbox m" if "grant_member L mc m = Inr m'" for mc m m'
    using that by (auto simp: grant_member_def Let_def case_prod_beta split: option.splits sum.splits if_splits)
  have "grant_members L mcs m = Inr m' \<Longrightarrow> n_outSeq m' = n_outSeq m \<and> n_outbox m' = n_outbox m" for mcs m m'
    by (induction mcs arbitrary: m) (auto split: sum.splits dest: one)
  then show ?thesis
    using assms by (fastforce simp: NewNode_def Let_def case_prod_beta empty_node_def split: if_splits sum.splits)
qed

section \<open>Order\<close>

definition seq_of :: "obj \<Rightarrow> int" where
  "seq_of e = sint (fst (asInt (obj_get e ''seq'')))"

text \<open>The envelopes of an outbox carry increasing sequence numbers, none above the last one given out.\<close>

definition in_order :: "i64 \<Rightarrow> obj list \<Rightarrow> bool" where
  "in_order hi es \<longleftrightarrow> (\<forall>e \<in> set es. snd (asInt (obj_get e ''seq'')) \<and> seq_of e \<le> sint hi) \<and> sorted_wrt (<) (map seq_of es)"

lemma above_seq: "snd (asInt (obj_get e ''seq'')) \<Longrightarrow> above cur e \<longleftrightarrow> sint cur < seq_of e"
  by (simp add: above_def seq_of_def case_prod_beta)

lemma in_order_filter: "in_order hi es \<Longrightarrow> in_order hi (filter P es)"
  by (auto simp: in_order_def sorted_wrt_map sorted_wrt_filter)


definition mail_ok :: "mailbox \<Rightarrow> bool" where
  "mail_ok m \<longleftrightarrow> (case m of (s, q, d) \<Rightarrow> d < 2 ^ 63 \<longrightarrow>
     (\<forall>h. 0 \<le> sint (mget0 s h) \<and> sint (mget0 s h) \<le> int d \<and> in_order (mget0 s h) (mgetl q h)))"

lemma in_order_append:
  assumes "in_order hi es" "snd (asInt (obj_get e ''seq''))" "seq_of e = sint hi + 1" "sint hi' = sint hi + 1"
  shows "in_order hi' (es @ [e])"
  using assms by (fastforce simp: in_order_def sorted_wrt_append)

lemma in_order_mono: "in_order hi es \<Longrightarrow> sint hi \<le> sint hi' \<Longrightarrow> in_order hi' es"
  by (auto simp: in_order_def)

lemma sint_next: "sint (x :: i64) < 2 ^ 63 - 1 \<Longrightarrow> sint (x + 1) = sint x + 1"
  using sint_add_exact [of x 1] sint_i64_lower [of x] by simp

lemma mgetl_mput [simp]: "mgetl (mput k v m) k' = (if k' = k then v else mgetl m k')"
  by (simp add: mgetl_def)

lemma mail_ok_put:
  assumes "\<forall>h. 0 \<le> sint (mget0 s h) \<and> sint (mget0 s h) \<le> int d \<and> in_order (mget0 s h) (mgetl q h)"
    and "0 \<le> sint v" "sint v \<le> int d + 1" "in_order v (mgetl q' h)" "\<And>k. k \<noteq> h \<Longrightarrow> mgetl q' k = mgetl q k"
  shows "mail_ok (mput h v s, q', Suc d)"
proof -
  have "0 \<le> sint (mget0 s k) \<and> sint (mget0 s k) \<le> 1 + int d \<and> in_order (mget0 s k) (mgetl q k)" for k
    using spec [OF assms(1), of k] by simp
  then show ?thesis
    using assms(2-5) by (simp add: mail_ok_def add.commute)
qed

lemma mail_step_ok:
  assumes "mail_step m m'" "mail_ok m"
  shows "mail_ok m'"
  using assms
proof cases
  case (idle s q d)
  then show ?thesis
    using assms(2) by (auto simp: mail_ok_def intro: order_trans [of _ "int d"])
next
  case (send e s h q d)
  show ?thesis
  proof (cases "Suc d < 2 ^ 63")
    case True
    have all: "\<forall>h. 0 \<le> sint (mget0 s h) \<and> sint (mget0 s h) \<le> int d \<and> in_order (mget0 s h) (mgetl q h)"
      using assms(2) send(1) True by (simp add: mail_ok_def)
    have nxt: "sint (mget0 s h + 1) = sint (mget0 s h) + 1"
      using True spec [OF all, of h] by (intro sint_next) auto
    have "in_order (mget0 s h + 1) (mgetl q h @ [e])"
      using spec [OF all, of h] nxt send(3) by (intro in_order_append) (simp_all add: seq_of_def)
    then show ?thesis
      unfolding send(2) using spec [OF all, of h] nxt by (intro mail_ok_put [OF all]) simp_all
  qed (simp add: send(2) mail_ok_def)
next
  case (failed s q d h)
  show ?thesis
  proof (cases "Suc d < 2 ^ 63")
    case True
    have all: "\<forall>h. 0 \<le> sint (mget0 s h) \<and> sint (mget0 s h) \<le> int d \<and> in_order (mget0 s h) (mgetl q h)"
      using assms(2) failed(1) True by (simp add: mail_ok_def)
    have old: "in_order (mget0 s h) (mgetl q h)"
      using all by blast
    have nxt: "sint (mget0 s h + 1) = sint (mget0 s h) + 1"
      using True spec [OF all, of h] by (intro sint_next) auto
    have "in_order (mget0 s h + 1) (mgetl q h)"
      by (rule in_order_mono [OF old]) (simp add: nxt)
    then show ?thesis
      unfolding failed(2) using spec [OF all, of h] nxt by (intro mail_ok_put [OF all]) simp_all
  qed (simp add: failed(2) mail_ok_def)
next
  case (prune s q d h P)
  then show ?thesis
    using assms(2) by (auto simp: mail_ok_def in_order_filter)
qed

lemma posts_ok: "posts m m' \<Longrightarrow> mail_ok m \<Longrightarrow> mail_ok m'"
  by (induction rule: rtranclp_induct) (auto intro: mail_step_ok)

lemma reachable_mail: "node_reachable L n \<Longrightarrow> mail_ok (mail n)"
proof (induction rule: node_reachable.induct)
  case (created cfg t i n)
  then show ?case
    using NewNode_mail by (simp add: mail_ok_def mail_def in_order_def mgetl_def mget0_def)
next
  case (stepped n n')
  then show ?case
    using posts_ok node_step_posts by blast
qed

section \<open>Properties\<close>

text \<open>
  C13: every operation of a node, and every processing of what a peer sends, is as far as its channels and outboxes are
  concerned a run of the abstract mailbox: envelopes are only ever appended to the outbox of the host they go
  to, each under the next number of that channel, and entries are only ever dropped by pruning. No operation reorders an outbox,
  alters an envelope in it or uses a number twice.
\<close>

theorem step_refines_mailbox:
  assumes "node_step L n n'"
  shows "posts (mail n) (mail n')"
  by (rule node_step_posts [OF assms])

theorem step_refines_mailbox_witness:
  "posts (mail demo_a) (mail (snd (OpenContact demo ''https://b.example'' 2000000 [] demo_a)))"
  by (rule step_refines_mailbox, rule node_step.open_contact) simp

text \<open>
  C12: in every state a node can reach, each of its outboxes lists envelopes with strictly increasing sequence
  numbers, every one readable as an integer and none above the last number given out on that channel, which is
  what pull (all in order), push (from a cursor) and pruning (up to a number) rely on. The bound on the ids drawn
  says that the 64-bit counters have not wrapped around.
\<close>

theorem outbox_in_order:
  assumes "node_reachable L n" "n_rand n < 2 ^ 63"
  shows "(\<forall>e \<in> set (mgetl (n_outbox n) h). snd (asInt (obj_get e ''seq'')) \<and> seq_of e \<le> sint (mget0 (n_outSeq n) h)) \<and>
    sorted_wrt (<) (map seq_of (mgetl (n_outbox n) h)) \<and> 0 \<le> sint (mget0 (n_outSeq n) h)"
  using reachable_mail [OF assms(1)] assms(2) by (auto simp: mail_ok_def mail_def in_order_def)

lemma append_rand: "n_rand (snd (append_tx L ty ref es n)) = Suc (n_rand n)"
  by (simp add: append_tx_def draw_id_def case_prod_beta split: sum.split)

lemma grant_rand: "grant_member L mc n = Inr n' \<Longrightarrow> n_rand n' \<le> Suc (n_rand n)"
  using append_rand [of L "''issuance.grant''" "[]" _ "n\<lparr>n_members := _\<rparr>"]
  by (simp add: grant_member_def Let_def case_prod_beta split: option.splits if_splits sum.splits) auto

lemma demo_rand: "n_rand demo_a \<le> 1"
proof -
  have "case NewNode demo (demo_cfg base mem) t i of Inl e \<Rightarrow> True | Inr n \<Rightarrow> n_rand n \<le> Suc i" for base mem t i
    by (auto simp: NewNode_def Let_def demo_cfg_def empty_node_def split: sum.split dest: grant_rand)
  then show ?thesis
    using demo_facts(1) by (metis One_nat_def sum.case(2))
qed

theorem outbox_in_order_witness:
  "sorted_wrt (<) (map seq_of (mgetl (n_outbox (demo_a\<lparr>n_clock := 1\<rparr>)) ''b.example''))"
proof -
  have "node_reachable demo (demo_a\<lparr>n_clock := 1\<rparr>)"
    by (rule node_reachable.stepped [OF demo_reachable node_step.tick]) simp
  moreover have "n_rand (demo_a\<lparr>n_clock := 1\<rparr>) < 2 ^ 63"
    using demo_rand by simp
  ultimately show ?thesis
    using outbox_in_order by blast
qed

end
