(* ===== verification/LP_Delivery.thy ===== *)
theory LP_Delivery
  imports LP_Keys LP_Outbox
begin

text \<open>
  Delivery: what is refused has no effect, what was processed is not processed again, and what is queued is
  pushed in order, without gaps and without repetition.
\<close>

section \<open>Inbound\<close>

text \<open>
  C10: an envelope that is not accepted has no effect. Whatever it contains and whatever the sender's
  identity document says, the node afterwards differs from the node before in the keys it has learned and in empty
  channel entries only: its books, contacts, transfers, outboxes, its store and what it has seen are the same. The only
  answer it gets is the one it got the first time, when it is a duplicate.
\<close>

theorem refused_without_effect:
  assumes "ProcessInbound L S env n = (v, rep, n')" "v \<noteq> VerdictOK"
  shows "n' = n\<lparr>n_peerKeys := n_peerKeys n', n_inState := n_inState n'\<rparr> \<and>
    (\<forall>h. channel_of n' h = channel_of n h) \<and> (rep \<noteq> None \<longrightarrow> v = VerdictDuplicate)"
  using ProcessInbound_refused [OF assms] by (auto simp: unmoved_def)

theorem refused_without_effect_witness:
  "snd (snd (ProcessInbound demo None [(''lp'', GStr ''1.0'')] demo_a)) = demo_a"
proof -
  have "ProcessInbound demo None [(''lp'', GStr ''1.0'')] demo_a = (VerdictMalformed, None, demo_a)"
    by (simp add: ProcessInbound_def envStr_def major_of_def)
  then show ?thesis
    using refused_without_effect [of demo None "[(''lp'', GStr ''1.0'')]" demo_a VerdictMalformed None demo_a] by auto
qed


lemma refresh_rest: "n_clock (snd (RefreshPeerKeys S base n)) = n_clock n" "n_inState (snd (RefreshPeerKeys S base n)) = n_inState n"
  by (simp_all add: RefreshPeerKeys_def Let_def split: option.split)

definition demo_friend :: Node where
  "demo_friend = snd (RefreshPeerKeys (Some (serving demo_a)) (cfg_Base (n_cfg demo_a)) demo_b)"

abbreviation demo_letter :: obj where
  "demo_letter \<equiv> wire (fst (buildSigned demo ''member.lookup'' (cfg_Base (n_cfg demo_friend)) [] [(''name'', GStr ''bob'')] demo_a))"

lemma demo_friend_accepts:
  "node_reachable demo demo_friend" "fst (ProcessInbound demo S demo_letter demo_friend) = VerdictOK"
proof -
  show "node_reachable demo demo_friend"
    unfolding demo_friend_def
    by (rule node_reachable.stepped [OF node_reachable.created [OF demo_facts(16)] node_step.refresh_keys])
  have a: "running demo demo_a"
    by (rule demo_running) simp
  have "n_inState demo_friend = []" "n_clock demo_friend = 0"
    by (simp_all add: demo_friend_def refresh_rest)
  then have "awaits demo demo_friend demo_a"
    by (simp add: awaits_def channel_of_def empty_inbound_def Let_def mget0_def MaxAge_def MaxFuture_def)
  moreover have "map_of (n_peerKeys demo_friend) (keyID (cfg_Base (n_cfg demo_a)) (n_keyLocalID demo_a)) = Some (n_pub demo_a)"
    using RefreshPeerKeys_learns [OF a _ active_key(1) [OF running_keys [OF a]], of "serving demo_a" demo_b]
      active_key [OF running_keys [OF a]] unfolding demo_friend_def by (simp add: serving_def)
  ultimately show "fst (ProcessInbound demo S demo_letter demo_friend) = VerdictOK"
    by (intro known_accepted a) simp_all
qed


section \<open>Outbound\<close>

text \<open>With the entries in order, what is above the cursor is a suffix and the loop walks down it.\<close>

lemma filter_above_Cons:
  assumes "in_order hi es" "filter (above cur) es = e # rest"
  shows "find (above cur) es = Some e" "filter (above (fst (asInt (obj_get e ''seq'')))) es = rest"
proof -
  have "find (above cur) es = Some e \<and> filter (above (fst (asInt (obj_get e ''seq'')))) es = rest"
    using assms
  proof (induction es)
    case (Cons x es)
    have tl: "in_order hi es" "snd (asInt (obj_get x ''seq''))" "\<And>y. y \<in> set es \<Longrightarrow> seq_of x < seq_of y"
      "\<And>y. y \<in> set es \<Longrightarrow> snd (asInt (obj_get y ''seq''))"
      using Cons.prems(1) by (auto simp: in_order_def)
    show ?case
    proof (cases "above cur x")
      case True
      then have "e = x" "filter (above cur) es = rest"
        using Cons.prems(2) by auto
      moreover have "above (fst (asInt (obj_get x ''seq''))) y \<and> above cur y" if "y \<in> set es" for y
        using tl that True by (fastforce simp: above_seq seq_of_def)
      moreover have "\<not> above (fst (asInt (obj_get x ''seq''))) x"
        using tl(2) by (simp add: above_seq seq_of_def)
      ultimately show ?thesis
        using True by (auto cong: filter_cong)
    next
      case False
      then have e: "e \<in> set es" "filter (above cur) es = e # rest"
        using Cons.prems(2) by (simp_all split: if_splits) (metis filter_is_subset list.set_intros(1) subsetD)
      then have "\<not> above (fst (asInt (obj_get e ''seq''))) x"
        using tl by (fastforce simp: above_seq seq_of_def)
      then show ?thesis
        using False Cons.IH [OF tl(1) e(2)] by simp
    qed
  qed simp
  then show "find (above cur) es = Some e" "filter (above (fst (asInt (obj_get e ''seq'')))) es = rest"
    by simp_all
qed

lemma push_loop_takes:
  assumes "in_order hi es"
  shows "push_loop deliver es cur =
    (let sent = takeWhile deliver (filter (above cur) es)
     in (sent, if sent = [] then cur else fst (asInt (obj_get (last sent) ''seq''))))"
proof (induction "filter (above cur) es" arbitrary: cur)
  case Nil
  then have "find (above cur) es = None"
    by (metis find_None_iff filter_empty_conv)
  then show ?case
    using Nil by (simp add: push_loop.simps [of deliver es cur])
next
  case (Cons e rest)
  note step = filter_above_Cons [OF assms Cons.hyps(2) [symmetric]]
  show ?case
    using Cons.hyps(1) [OF step(2) [symmetric]] Cons.hyps(2) [symmetric] step
    by (auto simp: push_loop.simps [of deliver es cur] Let_def split: prod.split)
qed

lemma push_clears:
  assumes "in_order hi es" "sent = takeWhile deliver (filter (above cur) es)" "sent \<noteq> []"
  shows "filter (above (fst (asInt (obj_get (last sent) ''seq'')))) es = drop (length sent) (filter (above cur) es)"
  using assms(2,3)
proof (induction "filter (above cur) es" arbitrary: cur sent)
  case (Cons e rest)
  have step: "filter (above (fst (asInt (obj_get e ''seq'')))) es = rest"
    using filter_above_Cons(2) [OF assms(1) Cons.hyps(2) [symmetric]] .
  have e: "deliver e" "sent = e # takeWhile deliver rest"
    using Cons.prems Cons.hyps(2) [symmetric] by (auto split: if_splits)
  show ?case
  proof (cases "takeWhile deliver rest = []")
    case True
    then show ?thesis
      using e step Cons.hyps(2) [symmetric] by simp
  next
    case False
    then show ?thesis
      using e step Cons.hyps(1) [OF step [symmetric], of "takeWhile deliver rest"] Cons.hyps(2) [symmetric] by simp
  qed
qed simp

text \<open>
  C14: a push delivers, for an outbox in order, exactly the entries above the cursor, in order, up to the first
  delivery that fails; afterwards the entries above the new cursor are exactly the others. Nothing is
  skipped, nothing is sent twice, a failed delivery is tried again by the next push, the outbox itself and the cursors of the other
  hosts stay as they are, and when all deliveries succeed nothing is left to push.
\<close>

theorem push_in_order:
  assumes "in_order hi (mgetl (n_outbox n) h)" "pushHost deliver h n = (sent, n')"
    and "pending = filter (above (mget0 (n_pushed n) h)) (mgetl (n_outbox n) h)"
  shows "sent = takeWhile deliver pending \<and>
    filter (above (mget0 (n_pushed n') h)) (mgetl (n_outbox n') h) = drop (length sent) pending \<and>
    n' = n\<lparr>n_pushed := n_pushed n'\<rparr> \<and> (\<forall>k. k \<noteq> h \<longrightarrow> mget0 (n_pushed n') k = mget0 (n_pushed n) k) \<and>
    ((\<forall>e \<in> set pending. deliver e) \<longrightarrow> sent = pending)"
proof -
  let ?es = "mgetl (n_outbox n) h"
  define tk where "tk = takeWhile deliver pending"
  have "push_loop deliver ?es (mget0 (n_pushed n) h) =
      (tk, if tk = [] then mget0 (n_pushed n) h else fst (asInt (obj_get (last tk) ''seq'')))"
    using push_loop_takes [OF assms(1)] by (simp add: assms(3) Let_def tk_def)
  then have "pushHost deliver h n =
      (if tk = [] then ([], n) else (tk, n\<lparr>n_pushed := mput h (fst (asInt (obj_get (last tk) ''seq''))) (n_pushed n)\<rparr>))"
    by (cases tk) (simp_all add: pushHost_def)
  then have "sent = tk" "sent = [] \<Longrightarrow> n' = n"
      "sent \<noteq> [] \<Longrightarrow> n' = n\<lparr>n_pushed := mput h (fst (asInt (obj_get (last sent) ''seq''))) (n_pushed n)\<rparr>"
    using assms(2) by (simp_all split: if_splits)
  note sent = this [unfolded tk_def]
  have "filter (above (mget0 (n_pushed n') h)) (mgetl (n_outbox n') h) = drop (length sent) pending"
  proof (cases "sent = []")
    case True
    then show ?thesis
      using sent(2) assms(3) by simp
  next
    case False
    then show ?thesis
      using sent(3) push_clears [OF assms(1) sent(1) [unfolded assms(3)] False] assms(3) by simp
  qed
  moreover have "n' = n\<lparr>n_pushed := n_pushed n'\<rparr>" "k \<noteq> h \<Longrightarrow> mget0 (n_pushed n') k = mget0 (n_pushed n) k" for k
  proof -
    obtain m where "n' = n\<lparr>n_pushed := m\<rparr>" "k \<noteq> h \<Longrightarrow> mget0 m k = mget0 (n_pushed n) k" for k
    proof (cases "sent = []")
      case True
      then show ?thesis
        using sent(2) that [of "n_pushed n"] by simp
    next
      case False
      then show ?thesis
        using sent(3) that [of "mput h (fst (asInt (obj_get (last sent) ''seq''))) (n_pushed n)"] by simp
    qed
    then show "n' = n\<lparr>n_pushed := n_pushed n'\<rparr>" "k \<noteq> h \<Longrightarrow> mget0 (n_pushed n') k = mget0 (n_pushed n) k" for k
      by simp_all
  qed
  moreover have "(\<forall>e \<in> set pending. deliver e) \<longrightarrow> sent = pending"
    using sent(1) by (simp add: takeWhile_eq_all_conv)
  ultimately show ?thesis
    using sent(1) by blast
qed

theorem push_in_order_witness:
  "fst (pushHost (\<lambda>e. seq_of e < 3) ''b.example''
     (demo_a\<lparr>n_outbox := [(''b.example'', map (\<lambda>i. [(''seq'', GInt i)]) [1, 2, 3])], n_pushed := [(''b.example'', 1)]\<rparr>)) =
   [[(''seq'', GInt 2)]]"
proof -
  let ?es = "map (\<lambda>i. [(''seq'', GInt i)]) [1, 2, 3] :: obj list"
  let ?n = "demo_a\<lparr>n_outbox := [(''b.example'', ?es)], n_pushed := [(''b.example'', 1)]\<rparr>"
  obtain sent n' where run: "pushHost (\<lambda>e. seq_of e < 3) ''b.example'' ?n = (sent, n')"
    by (metis prod.exhaust)
  have "in_order 3 (mgetl (n_outbox ?n) ''b.example'')"
    by (simp add: in_order_def mgetl_def seq_of_def)
  then have "sent = takeWhile (\<lambda>e. seq_of e < 3) (filter (above (mget0 (n_pushed ?n) ''b.example'')) (mgetl (n_outbox ?n) ''b.example''))"
    using push_in_order [OF _ run refl] by blast
  then show ?thesis
    using run by (simp add: mgetl_def mget0_def above_def seq_of_def)
qed

end
