(* ===== verification/LP_Json.thy ===== *)
theory LP_Json
  imports LP_Canonical
begin

text \<open>
  Reading JSON (conformance/reference.go, \<open>DecodeJSON\<close>): the decoder of encoding/json with \<open>UseNumber\<close>, and
  what \<open>json.Marshal\<close> and the encoders of the program write. Reading what was written gives the same value, with
  integers as numbers and members in key order.
\<close>

section \<open>Strings\<close>

definition is_space :: "char \<Rightarrow> bool" where
  "is_space c \<longleftrightarrow> c = CHR '' '' \<or> c = CHR 0x09 \<or> c = CHR 0x0A \<or> c = CHR 0x0D"

definition skip_ws :: "string \<Rightarrow> string" where
  "skip_ws s = dropWhile is_space s"

definition hex_val :: "char \<Rightarrow> int option" where
  "hex_val c =
     (if byte_in c 48 57 then Some (of_char c - 48)
      else if byte_in c 97 102 then Some (of_char c - 87)
      else if byte_in c 65 70 then Some (of_char c - 55)
      else None)"

text \<open>Four hexadecimal digits and the rest.\<close>

definition read_u4 :: "string \<Rightarrow> (int \<times> string) option" where
  "read_u4 s =
     (case s of a # b # c # d # rest \<Rightarrow>
        (case (hex_val a, hex_val b, hex_val c, hex_val d) of
           (Some x, Some y, Some z, Some w) \<Rightarrow> Some (4096 * x + 256 * y + 16 * z + w, rest)
         | _ \<Rightarrow> None)
      | _ \<Rightarrow> None)"

definition encode_rune :: "int \<Rightarrow> string" where
  "encode_rune r =
     (if r < 0x80 then [char_of r]
      else if r < 0x800 then [char_of (0xC0 + r div 64), char_of (0x80 + r mod 64)]
      else if r < 0x10000 then [char_of (0xE0 + r div 4096), char_of (0x80 + r div 64 mod 64), char_of (0x80 + r mod 64)]
      else [char_of (0xF0 + r div 262144), char_of (0x80 + r div 4096 mod 64), char_of (0x80 + r div 64 mod 64),
            char_of (0x80 + r mod 64)])"

definition rune_error :: string where
  "rune_error = [CHR 0xEF, CHR 0xBF, CHR 0xBD]"

text \<open>
  An escaped UTF-16 unit: a surrogate is joined with an escaped low half that follows it; alone it is the
  replacement rune.
\<close>

definition read_unit :: "int \<Rightarrow> string \<Rightarrow> string \<times> string" where
  "read_unit r rest =
     (if 0xD800 \<le> r \<and> r < 0xE000
      then case rest of
          b # u # more \<Rightarrow>
            (if b = bslash \<and> u = CHR ''u'' then
               case read_u4 more of
                 Some (r2, after) \<Rightarrow>
                   (if r < 0xDC00 \<and> 0xDC00 \<le> r2 \<and> r2 < 0xE000
                    then (encode_rune (0x10000 + (r - 0xD800) * 1024 + (r2 - 0xDC00)), after)
                    else (rune_error, rest))
               | None \<Rightarrow> (rune_error, rest)
             else (rune_error, rest))
        | _ \<Rightarrow> (rune_error, rest)
      else (encode_rune r, rest))"

lemma read_u4_length: "read_u4 s = Some (r, rest) \<Longrightarrow> length rest < length s"
  by (auto simp: read_u4_def split: list.splits option.splits)

lemma read_unit_length: "length (snd (read_unit r rest)) \<le> length rest"
  by (auto simp: read_unit_def split: list.split option.split dest!: read_u4_length)

definition simple_escape :: "char \<Rightarrow> char option" where
  "simple_escape c =
     (if c = quot \<or> c = bslash \<or> c = CHR ''/'' then Some c
      else if c = CHR ''b'' then Some (CHR 0x08)
      else if c = CHR ''f'' then Some (CHR 0x0C)
      else if c = CHR ''n'' then Some (CHR 0x0A)
      else if c = CHR ''r'' then Some (CHR 0x0D)
      else if c = CHR ''t'' then Some (CHR 0x09)
      else None)"

text \<open>The rest of a string after its opening quote: its text and what follows the closing one.\<close>

function read_string :: "string \<Rightarrow> (string \<times> string) option" where
  "read_string [] = None"
| "read_string (c # cs) =
     (if c = quot then Some ([], cs)
      else if c = bslash then
        (case cs of
           [] \<Rightarrow> None
         | e # more \<Rightarrow>
             (if e = CHR ''u'' then
                case read_u4 more of
                  None \<Rightarrow> None
                | Some (r, after) \<Rightarrow>
                    map_option (\<lambda>(s, rest). (fst (read_unit r after) @ s, rest)) (read_string (snd (read_unit r after)))
              else case simple_escape e of
                  None \<Rightarrow> None
                | Some d \<Rightarrow> map_option (\<lambda>(s, rest). (d # s, rest)) (read_string more)))
      else if byte_in c 0 31 then None
      else if byte_in c 0 127 then map_option (\<lambda>(s, rest). (c # s, rest)) (read_string cs)
      else case rune_size (c # cs) of
          0 \<Rightarrow> map_option (\<lambda>(s, rest). (rune_error @ s, rest)) (read_string cs)
        | Suc k \<Rightarrow> map_option (\<lambda>(s, rest). (c # take k cs @ s, rest)) (read_string (drop k cs)))"
  by pat_completeness auto
termination
proof (relation "measure length", goal_cases)
  case (2 c cs e more r_after r after)
  then show ?case
    using read_u4_length [of more r after] read_unit_length [of r after] by auto
qed auto

declare read_string.simps [simp del]

section \<open>Numbers\<close>

definition digits :: "string \<Rightarrow> string" where
  "digits s = takeWhile is_digit s"

text \<open>The number at the head of a text, by the grammar of JSON, and the rest.\<close>

definition int_part :: "string \<Rightarrow> string option" where
  "int_part s =
     (case s of [] \<Rightarrow> None
      | c # cs \<Rightarrow> if c = CHR ''0'' then Some ''0'' else if is_digit c then Some (digits s) else None)"

definition frac_part :: "string \<Rightarrow> string option" where
  "frac_part s =
     (case s of c # cs \<Rightarrow> if c = CHR ''.'' then (if digits cs = [] then None else Some (c # digits cs)) else Some []
      | [] \<Rightarrow> Some [])"

definition exp_part :: "string \<Rightarrow> string option" where
  "exp_part s =
     (case s of c # cs \<Rightarrow>
        (if c = CHR ''e'' \<or> c = CHR ''E'' then
           let (sign, ds) = (case cs of p # ps \<Rightarrow> if p = CHR ''+'' \<or> p = CHR ''-'' then ([p], ps) else ([], cs) | [] \<Rightarrow> ([], cs))
           in if digits ds = [] then None else Some (c # sign @ digits ds)
         else Some [])
      | [] \<Rightarrow> Some [])"

definition read_unsigned :: "string \<Rightarrow> (string \<times> string) option" where
  "read_unsigned s =
     (case int_part s of None \<Rightarrow> None
      | Some i \<Rightarrow>
        (case frac_part (drop (length i) s) of None \<Rightarrow> None
         | Some f \<Rightarrow>
           (case exp_part (drop (length (i @ f)) s) of None \<Rightarrow> None
            | Some e \<Rightarrow> Some (i @ f @ e, drop (length (i @ f @ e)) s))))"

definition read_number :: "string \<Rightarrow> (string \<times> string) option" where
  "read_number s =
     (case s of [] \<Rightarrow> None
      | c # cs \<Rightarrow> if c = CHR ''-'' then map_option (\<lambda>(t, rest). (c # t, rest)) (read_unsigned cs) else read_unsigned s)"

section \<open>Values\<close>

text \<open>
  The fuel bounds the number of calls, the depth the nesting (encoding/json allows 10000 levels). A member
  that comes twice has its last value.
\<close>

fun read_value :: "nat \<Rightarrow> nat \<Rightarrow> string \<Rightarrow> (gval \<times> string) option"
  and read_items :: "nat \<Rightarrow> nat \<Rightarrow> gval list \<Rightarrow> string \<Rightarrow> (gval \<times> string) option"
  and read_members :: "nat \<Rightarrow> nat \<Rightarrow> obj \<Rightarrow> string \<Rightarrow> (gval \<times> string) option" where
  "read_value 0 depth s = None"
| "read_value (Suc fuel) depth s =
     (case skip_ws s of
        [] \<Rightarrow> None
      | c # cs \<Rightarrow>
          if c = quot then map_option (\<lambda>(t, rest). (GStr t, rest)) (read_string cs)
          else if c = CHR 0x7B then
            (if depth = 0 then None
             else case skip_ws cs of
                 [] \<Rightarrow> None
               | d # rest \<Rightarrow> if d = CHR 0x7D then Some (GMap [], rest) else read_members fuel (depth - 1) [] (d # rest))
          else if c = CHR ''['' then
            (if depth = 0 then None
             else case skip_ws cs of
                 [] \<Rightarrow> None
               | d # rest \<Rightarrow> if d = CHR '']'' then Some (GArr [], rest) else read_items fuel (depth - 1) [] (d # rest))
          else if HasPrefix (c # cs) ''null'' then Some (GNil, drop 4 (c # cs))
          else if HasPrefix (c # cs) ''true'' then Some (GBool True, drop 4 (c # cs))
          else if HasPrefix (c # cs) ''false'' then Some (GBool False, drop 5 (c # cs))
          else map_option (\<lambda>(t, rest). (GNumber t, rest)) (read_number (c # cs)))"
| "read_items 0 depth vs s = None"
| "read_items (Suc fuel) depth vs s =
     (case read_value fuel depth s of
        None \<Rightarrow> None
      | Some (v, r) \<Rightarrow>
          (case skip_ws r of
             [] \<Rightarrow> None
           | c # rest \<Rightarrow>
               if c = CHR '','' then read_items fuel depth (vs @ [v]) rest
               else if c = CHR '']'' then Some (GArr (vs @ [v]), rest)
               else None))"
| "read_members 0 depth kvs s = None"
| "read_members (Suc fuel) depth kvs s =
     (case skip_ws s of
        [] \<Rightarrow> None
      | q # qs \<Rightarrow>
          if q \<noteq> quot then None
          else case read_string qs of
              None \<Rightarrow> None
            | Some (k, r) \<Rightarrow>
                (case skip_ws r of
                   [] \<Rightarrow> None
                 | c # r1 \<Rightarrow>
                     if c \<noteq> CHR '':'' then None
                     else case read_value fuel depth r1 of
                         None \<Rightarrow> None
                       | Some (v, r2) \<Rightarrow>
                           (case skip_ws r2 of
                              [] \<Rightarrow> None
                            | e # rest \<Rightarrow>
                                if e = CHR '','' then read_members fuel depth (mput k v kvs) rest
                                else if e = CHR 0x7D then Some (GMap (mput k v kvs), rest)
                                else None)))"

definition max_depth :: nat where
  "max_depth = 10000"

text \<open>\<open>DecodeJSON\<close> reads the first value of the text; what follows it is not looked at.\<close>

definition DecodeJSON :: "bytes \<Rightarrow> gval option" where
  "DecodeJSON b = map_option fst (read_value (2 * length b + 2) max_depth b)"


section \<open>The reader consumes text, and its fuel is enough\<close>

lemma skip_ws_length: "length (skip_ws s) \<le> length s"
  by (simp add: skip_ws_def length_dropWhile_le)

lemma skip_ws_Cons: "skip_ws s = c # cs \<Longrightarrow> length cs < length s"
  using skip_ws_length [of s] by simp

lemma read_u4_suffix: "read_u4 s = Some (r, rest) \<Longrightarrow> \<exists>p. s = p @ rest"
  by (auto simp: read_u4_def split: list.splits option.splits)

lemma read_unit_suffix: "\<exists>p. rest = p @ snd (read_unit r rest)"
proof (cases "snd (read_unit r rest) = rest")
  case False
  then obtain b u more r2 after where "rest = b # u # more" "read_u4 more = Some (r2, after)" "snd (read_unit r rest) = after"
    by (auto simp: read_unit_def split: if_splits list.splits option.splits)
  then show ?thesis
    using read_u4_suffix [of more r2 after] by (metis append_Cons)
qed simp

lemma read_string_suffix: "read_string s = Some (t, rest) \<Longrightarrow> \<exists>p. s = p @ quot # rest"
proof (induction s arbitrary: t rest rule: read_string.induct)
  case (2 c cs)
  note ih = "2.IH"
  consider "c = quot" | "c = bslash" "c \<noteq> quot" | "c \<noteq> quot" "c \<noteq> bslash"
    by blast
  then show ?case
  proof cases
    case 1
    then show ?thesis
      using "2.prems" by (simp add: read_string.simps)
  next
    case 2
    obtain e more where cs: "cs = e # more"
      using 2 "2.prems" by (cases cs) (simp_all add: read_string.simps)
    have "\<exists>p. more = p @ quot # rest"
    proof (cases "e = CHR ''u''")
      case True
      obtain r after where u: "read_u4 more = Some (r, after)"
        using 2 cs True "2.prems" by (cases "read_u4 more") (auto simp: read_string.simps)
      obtain t' where t': "read_string (snd (read_unit r after)) = Some (t', rest)"
        using 2 cs True u "2.prems" by (auto simp: read_string.simps)
      have "\<exists>p. snd (read_unit r after) = p @ quot # rest"
        using ih(1) [OF 2(2) 2(1) cs True u refl t'] .
      then show ?thesis
        using read_u4_suffix [OF u] read_unit_suffix [of after r] by (metis append_assoc)
    next
      case False
      then obtain d t' where "simple_escape e = Some d" "read_string more = Some (t', rest)"
        using 2 cs "2.prems" by (auto simp: read_string.simps split: option.splits)
      then show ?thesis
        using ih(2) [OF 2(2) 2(1) cs False] by blast
    qed
    then show ?thesis
      using cs by (metis append_Cons)
  next
    case 3
    have "\<exists>p. cs = p @ quot # rest"
    proof (cases "byte_in c 0 127")
      case True
      then have "\<exists>t'. read_string cs = Some (t', rest)" "\<not> byte_in c 0 31"
        using 3 "2.prems" by (auto simp: read_string.simps split: if_splits)
      then show ?thesis
        using ih(3) [OF 3 _ True] by blast
    next
      case False
      then have ctl: "\<not> byte_in c 0 31"
        by simp
      show ?thesis
      proof (cases "rune_size (c # cs)")
        case 0
        then have "\<exists>t'. read_string cs = Some (t', rest)"
          using 3 False "2.prems" by (auto simp: read_string.simps split: if_splits)
        then show ?thesis
          using ih(4) [OF 3 ctl False 0] by blast
      next
        case (Suc k)
        then have "\<exists>t'. read_string (drop k cs) = Some (t', rest)"
          using 3 False "2.prems" by (auto simp: read_string.simps split: if_splits)
        then obtain p where "drop k cs = p @ quot # rest"
          using ih(5) [OF 3 ctl False Suc] by blast
        then show ?thesis
          by (metis append_assoc append_take_drop_id)
      qed
    qed
    then show ?thesis
      by (metis append_Cons)
  qed
qed (simp add: read_string.simps)

lemma read_string_length: "read_string s = Some (t, rest) \<Longrightarrow> length rest < length s"
  using read_string_suffix by fastforce

lemma int_part_nonempty: "int_part s = Some i \<Longrightarrow> 0 < length i \<and> s \<noteq> []"
  by (auto simp: int_part_def digits_def split: list.splits if_splits)

lemma read_unsigned_length: "read_unsigned s = Some (t, rest) \<Longrightarrow> length rest < length s"
  by (auto simp: read_unsigned_def split: option.splits dest!: int_part_nonempty)

lemma read_number_length: "read_number s = Some (t, rest) \<Longrightarrow> length rest < length s"
  using read_unsigned_length by (fastforce simp: read_number_def split: list.splits if_splits)

lemma read_value_length:
  "read_value fuel d s = Some (v, r) \<Longrightarrow> length r < length s"
  "read_items fuel d vs s = Some (v, r) \<Longrightarrow> length r < length s"
  "read_members fuel d kvs s = Some (v, r) \<Longrightarrow> length r < length s"
proof (induction fuel arbitrary: d s v r vs kvs)
  case (Suc fuel)
  note val = Suc.IH(1) and items = Suc.IH(2) and members = Suc.IH(3)
  {
    case 1
    then obtain c cs where s: "skip_ws s = c # cs"
      by (cases "skip_ws s") auto
    have in_cs: "length r < length s" if "length r \<le> length cs"
      using that skip_ws_Cons [OF s] by simp
    consider "c = quot" | "c = CHR 0x7B" | "c = CHR ''[''" | "c \<noteq> quot" "c \<noteq> CHR 0x7B" "c \<noteq> CHR ''[''"
      by blast
    then show ?case
    proof cases
      case 1
      then show ?thesis
        using s \<open>read_value (Suc fuel) d s = Some (v, r)\<close> read_string_length [of cs] by (intro in_cs) auto
    next
      case 2
      obtain e rest where cs: "skip_ws cs = e # rest"
        using 2 s \<open>read_value (Suc fuel) d s = Some (v, r)\<close> by (cases "skip_ws cs") (auto simp: quot_def split: if_splits)
      have "length r < length (e # rest)"
        using 2 s cs \<open>read_value (Suc fuel) d s = Some (v, r)\<close> members [of "d - 1" "[]" "e # rest" v r]
        by (auto simp: quot_def split: if_splits)
      then show ?thesis
        using skip_ws_length [of cs] cs by (intro in_cs) simp
    next
      case 3
      obtain e rest where cs: "skip_ws cs = e # rest"
        using 3 s \<open>read_value (Suc fuel) d s = Some (v, r)\<close> by (cases "skip_ws cs") (auto simp: quot_def split: if_splits)
      have "length r < length (e # rest)"
        using 3 s cs \<open>read_value (Suc fuel) d s = Some (v, r)\<close> items [of "d - 1" "[]" "e # rest" v r]
        by (auto simp: quot_def split: if_splits)
      then show ?thesis
        using skip_ws_length [of cs] cs by (intro in_cs) simp
    next
      case 4
      then show ?thesis
        using s \<open>read_value (Suc fuel) d s = Some (v, r)\<close> read_number_length [of "c # cs"]
        by (intro in_cs) (auto split: if_splits)
    qed
  next
    case 2
    then obtain w r1 c rest where v: "read_value fuel d s = Some (w, r1)" "skip_ws r1 = c # rest"
      by (auto split: option.splits list.splits)
    have "length rest < length s"
      using val [OF v(1)] skip_ws_Cons [OF v(2)] by simp
    then show ?case
      using 2 v items [of d "vs @ [w]" rest v r] by (auto split: if_splits)
  next
    case 3
    then obtain q qs k r1 c r2 w r3 e rest where st:
      "skip_ws s = q # qs" "read_string qs = Some (k, r1)" "skip_ws r1 = c # r2" "read_value fuel d r2 = Some (w, r3)"
      "skip_ws r3 = e # rest"
      by (auto split: option.splits list.splits if_splits)
    have "length rest < length s"
      using skip_ws_Cons [OF st(1)] read_string_length [OF st(2)] skip_ws_Cons [OF st(3)] val [OF st(4)] skip_ws_Cons [OF st(5)]
      by simp
    then show ?case
      using 3 st members [of d "mput k w kvs" rest v r] by (auto split: if_splits)
  }
qed simp_all

text \<open>More fuel than twice the length changes nothing.\<close>

lemma read_value_fuel:
  "2 * length s < fuel \<Longrightarrow> fuel \<le> fuel' \<Longrightarrow> read_value fuel' d s = read_value fuel d s"
  "2 * length s + 1 < fuel \<Longrightarrow> fuel \<le> fuel' \<Longrightarrow> read_items fuel' d vs s = read_items fuel d vs s"
  "2 * length s < fuel \<Longrightarrow> fuel \<le> fuel' \<Longrightarrow> read_members fuel' d kvs s = read_members fuel d kvs s"
proof (induction fuel arbitrary: fuel' d s vs kvs)
  case (Suc fuel)
  note val = Suc.IH(1) and items = Suc.IH(2) and members = Suc.IH(3)
  {
    case 1
    then obtain g where g: "fuel' = Suc g" "fuel \<le> g"
      by (cases fuel') auto
    show ?case
    proof (cases "skip_ws s")
      case (Cons c cs)
      show ?thesis
      proof (cases "skip_ws cs")
        case Nil
        then show ?thesis
          using Cons g by simp
      next
        case (Cons e rest)
        have "2 * length (e # rest) + 1 < fuel"
          using \<open>2 * length s < Suc fuel\<close> skip_ws_length [of cs] Cons skip_ws_Cons [OF \<open>skip_ws s = c # cs\<close>] by simp
        then have "read_items g (d - 1) [] (e # rest) = read_items fuel (d - 1) [] (e # rest)"
          "read_members g (d - 1) [] (e # rest) = read_members fuel (d - 1) [] (e # rest)"
          using g by (intro items members; simp)+
        then show ?thesis
          using Cons \<open>skip_ws s = c # cs\<close> g by (cases "e = CHR '']''"; cases "e = CHR 0x7D"; simp)
      qed
    qed (simp add: g)
  next
    case 2
    then obtain g where g: "fuel' = Suc g" "fuel \<le> g"
      by (cases fuel') auto
    have eq: "read_value g d s = read_value fuel d s"
      using 2 g by (intro val) simp_all
    show ?case
    proof (cases "read_value fuel d s")
      case (Some vr)
      obtain v r where vr: "vr = (v, r)"
        by (cases vr)
      show ?thesis
      proof (cases "skip_ws r")
        case (Cons c rest)
        have "length rest < length s"
          using read_value_length(1) [of fuel d s v r] Some vr skip_ws_Cons [OF Cons] by simp
        then have "read_items g d (vs @ [v]) rest = read_items fuel d (vs @ [v]) rest"
          using 2 g by (intro items) simp_all
        then show ?thesis
          using g eq Some vr Cons by simp
      qed (use g eq Some vr in simp)
    qed (use g eq in simp)
  next
    case 3
    then obtain g where g: "fuel' = Suc g" "fuel \<le> g"
      by (cases fuel') auto
    show ?case
    proof (cases "skip_ws s")
      case s: (Cons q qs)
      show ?thesis
      proof (cases "read_string qs")
        case (Some kr)
        obtain k r where kr: "kr = (k, r)"
          by (cases kr)
        show ?thesis
        proof (cases "skip_ws r")
          case r: (Cons c r1)
          have r1: "length r1 + 2 \<le> length s"
            using skip_ws_Cons [OF s] read_string_length [of qs k r] Some kr skip_ws_Cons [OF r] by simp
          then have eq: "read_value g d r1 = read_value fuel d r1"
            using 3 g by (intro val) simp_all
          show ?thesis
          proof (cases "read_value fuel d r1")
            case v: (Some vr)
            obtain v r2 where vr: "vr = (v, r2)"
              by (cases vr)
            show ?thesis
            proof (cases "skip_ws r2")
              case e: (Cons e rest)
              have "length rest + 2 \<le> length s"
                using r1 read_value_length(1) [of fuel d r1 v r2] v vr skip_ws_Cons [OF e] by simp
              then have "read_members g d (mput k v kvs) rest = read_members fuel d (mput k v kvs) rest"
                using 3 g by (intro members) simp_all
              then show ?thesis
                using g s Some kr r eq v vr e by simp
            qed (use g s Some kr r eq v vr in simp)
          qed (use g s Some kr r eq in simp)
        qed (use g s Some kr in simp)
      qed (use g s in simp)
    qed (use g in simp)
  }
qed simp_all

section \<open>Text that goes on\<close>

text \<open>A value is read in the same way whatever follows it, as long as a number could not go on.\<close>

definition num_ends :: "string \<Rightarrow> bool" where
  "num_ends x \<longleftrightarrow> (case x of [] \<Rightarrow> True | c # _ \<Rightarrow> \<not> is_digit c \<and> c \<noteq> CHR ''.'' \<and> c \<noteq> CHR ''e'' \<and> c \<noteq> CHR ''E'')"

lemma digits_append: "num_ends x \<Longrightarrow> digits (s @ x) = digits s"
  by (induction s) (auto simp: digits_def num_ends_def split: list.splits)

lemma int_part_append: "num_ends x \<Longrightarrow> s \<noteq> [] \<Longrightarrow> int_part (s @ x) = int_part s"
  using digits_append [of x s] by (cases s) (auto simp: int_part_def)

lemma frac_part_append: "num_ends x \<Longrightarrow> frac_part (s @ x) = frac_part s"
  by (cases s; cases x) (simp_all add: frac_part_def digits_append, simp add: num_ends_def)

lemma exp_part_append:
  assumes x: "num_ends x" and e: "exp_part s = Some e"
  shows "exp_part (s @ x) = Some e"
proof (cases s)
  case Nil
  then show ?thesis
    using assms by (cases x) (auto simp: exp_part_def num_ends_def)
next
  case (Cons c cs)
  show ?thesis
  proof (cases "c = CHR ''e'' \<or> c = CHR ''E''")
    case True
    then have "cs \<noteq> []"
      using e Cons by (auto simp: exp_part_def digits_def)
    then obtain p ps where "cs = p # ps"
      by (cases cs) auto
    then show ?thesis
      using True e Cons digits_append [OF x, of ps] digits_append [OF x, of cs]
      by (cases "p = CHR ''+''"; cases "p = CHR ''-''") (auto simp: exp_part_def Let_def split: if_splits)
  qed (use e Cons in \<open>simp add: exp_part_def\<close>)
qed

lemma part_lengths:
  "int_part s = Some i \<Longrightarrow> length i \<le> length s" "frac_part s = Some f \<Longrightarrow> length f \<le> length s"
  "exp_part s = Some e \<Longrightarrow> length e \<le> length s"
proof -
  have d: "length (digits t) \<le> length t" for t
    by (simp add: digits_def length_takeWhile_le)
  show "int_part s = Some i \<Longrightarrow> length i \<le> length s"
    using d [of s] by (auto simp: int_part_def split: list.splits if_splits)
  show "frac_part s = Some f \<Longrightarrow> length f \<le> length s"
    using d [of "tl s"] by (auto simp: frac_part_def split: list.splits if_splits)
  show "exp_part s = Some e \<Longrightarrow> length e \<le> length s"
    using d [of "tl s"] d [of "tl (tl s)"] by (auto simp: exp_part_def Let_def split: list.splits if_splits)
qed

lemma read_unsigned_append:
  assumes "num_ends x" "read_unsigned s = Some (t, r)"
  shows "read_unsigned (s @ x) = Some (t, r @ x)"
proof -
  obtain i f e where st: "int_part s = Some i" "frac_part (drop (length i) s) = Some f"
    "exp_part (drop (length (i @ f)) s) = Some e" "t = i @ f @ e" "r = drop (length (i @ f @ e)) s"
    using assms(2) by (auto simp: read_unsigned_def split: option.splits)
  have i: "length i \<le> length s" and f: "length f \<le> length (drop (length i) s)"
    and e: "length e \<le> length (drop (length (i @ f)) s)"
    using part_lengths st(1-3) by blast+
  have le: "length i + length f \<le> length s" "length i + length f + length e \<le> length s"
    using i f e by simp_all
  have "s \<noteq> []"
    using st(1) by (auto simp: int_part_def)
  then show ?thesis
    using st i le int_part_append [OF assms(1)] frac_part_append [OF assms(1), of "drop (length i) s"]
      exp_part_append [OF assms(1) st(3)]
    by (simp add: read_unsigned_def)
qed

lemma read_number_append:
  assumes "num_ends x" "read_number s = Some (t, r)"
  shows "read_number (s @ x) = Some (t, r @ x)"
  using assms(2) read_unsigned_append [OF assms(1), of s] read_unsigned_append [OF assms(1), of "tl s"]
  by (cases s) (auto simp: read_number_def split: if_splits)

lemma read_u4_append: "read_u4 s = Some (r, rest) \<Longrightarrow> read_u4 (s @ x) = Some (r, rest @ x)"
  by (auto simp: read_u4_def split: list.splits option.splits)

lemma read_unit_append:
  assumes "read_string (snd (read_unit r s)) = Some (t, rest)"
  shows "read_unit r (s @ x) = (fst (read_unit r s), snd (read_unit r s) @ x)"
proof (cases "0xD800 \<le> r \<and> r < 0xE000")
  case True
  show ?thesis
  proof (cases "\<exists>b u more. s = b # u # more")
    case False
    then consider "s = []" | b where "s = [b]"
      by (metis neq_Nil_conv)
    then show ?thesis
    proof cases
      case 1
      then show ?thesis
        using assms True by (simp add: read_unit_def read_string.simps)
    next
      case (2 b)
      then have "b = quot"
        using assms True by (auto simp: read_unit_def read_string.simps rune_size_def split: if_splits)
      then show ?thesis
        using 2 True by (simp add: read_unit_def quot_def bslash_def split: list.split)
    qed
  next
    case more: True
    then obtain b u more where s: "s = b # u # more"
      by blast
    show ?thesis
    proof (cases "b = bslash \<and> u = CHR ''u''")
      case True
      show ?thesis
      proof (cases "read_u4 more")
        case None
        then show ?thesis
          using \<open>0xD800 \<le> r \<and> r < 0xE000\<close> s True assms
          by (simp add: read_unit_def read_string.simps quot_def bslash_def)
      next
        case (Some p)
        then show ?thesis
          using read_u4_append [of more "fst p" "snd p" x] \<open>0xD800 \<le> r \<and> r < 0xE000\<close> s True
          by (cases p) (simp add: read_unit_def)
      qed
    next
      case False
      then show ?thesis
        using \<open>0xD800 \<le> r \<and> r < 0xE000\<close> s by (auto simp: read_unit_def)
    qed
  qed
next
  case False
  then show ?thesis
    unfolding read_unit_def by (simp only: if_False fst_conv snd_conv)
qed

lemma rune_size_append:
  assumes "read_string cs = Some (t, r)" "\<not> byte_in c 0 127" "rune_size (c # cs) = 0"
  shows "rune_size (c # cs @ x) = 0"
proof -
  have "quot \<in> set cs"
    using read_string_suffix [OF assms(1)] by auto
  then consider y where "cs = [quot]" | y where "cs = [quot, y]" | y where "cs = [y, quot]" | a b d y where "cs = a # b # d # y"
    by (cases cs; cases "tl cs"; cases "tl (tl cs)") auto
  then show ?thesis
  proof cases
    case (4 a b d y)
    have "rune_size (c # a # b # d # (y @ x)) = rune_size (c # a # b # d # y)"
      by (simp only: rune_size_def list.case)
    then show ?thesis
      using 4 assms(3) by simp
  next
    case (3 y)
    then show ?thesis
      using assms(2,3) by (cases "byte_in c 194 223"; cases x) (simp_all add: rune_size_def quot_def split: if_splits)
  qed (use assms(2) in \<open>simp_all add: rune_size_def quot_def split: list.split\<close>)
qed

lemma rune_size_append_Suc: "rune_size (c # cs) = Suc k \<Longrightarrow> rune_size (c # cs @ x) = Suc k \<and> k \<le> length cs"
proof -
  assume k: "rune_size (c # cs) = Suc k"
  have le: "rune_size s \<le> 4" for s
    by (simp add: rune_size_def split: list.split)
  consider "cs = []" | a where "cs = [a]" | a b where "cs = [a, b]" | a b d y where "cs = a # b # d # y"
    by (cases cs; cases "tl cs"; cases "tl (tl cs)") auto
  then show ?thesis
  proof cases
    case (4 a b d y)
    have "rune_size (c # a # b # d # (y @ x)) = rune_size (c # a # b # d # y)"
      by (simp only: rune_size_def list.case)
    then show ?thesis
      using 4 k le [of "c # cs"] by simp
  next
    case 1
    then show ?thesis
      using k by (simp add: rune_size_def split: if_splits)
  next
    case (2 a)
    then show ?thesis
      using k by (simp add: rune_size_def split: if_splits)
  next
    case (3 a b)
    then show ?thesis
      using k by (simp add: rune_size_def split: if_splits)
  qed
qed

lemma read_string_append: "read_string s = Some (t, rest) \<Longrightarrow> read_string (s @ x) = Some (t, rest @ x)"
proof (induction s arbitrary: t rest rule: read_string.induct)
  case (2 c cs)
  note ih = "2.IH"
  consider "c = quot" | "c = bslash" "c \<noteq> quot" | "c \<noteq> quot" "c \<noteq> bslash"
    by blast
  then show ?case
  proof cases
    case 1
    then show ?thesis
      using "2.prems" by (simp add: read_string.simps)
  next
    case 2
    obtain e more where cs: "cs = e # more"
      using 2 "2.prems" by (cases cs) (simp_all add: read_string.simps)
    show ?thesis
    proof (cases "e = CHR ''u''")
      case True
      obtain r after where u: "read_u4 more = Some (r, after)"
        using 2 cs True "2.prems" by (cases "read_u4 more") (auto simp: read_string.simps)
      obtain t' where t': "read_string (snd (read_unit r after)) = Some (t', rest)" "t = fst (read_unit r after) @ t'"
        using 2 cs True u "2.prems" by (auto simp: read_string.simps)
      have "read_string (snd (read_unit r after) @ x) = Some (t', rest @ x)"
        using ih(1) [OF 2(2) 2(1) cs True u refl t'(1)] .
      then show ?thesis
        using 2 cs True read_u4_append [OF u, of x] read_unit_append [OF t'(1), of x] t'(2)
        by (simp add: read_string.simps(2))
    next
      case False
      then obtain d t' where "simple_escape e = Some d" "read_string more = Some (t', rest)" "t = d # t'"
        using 2 cs "2.prems" by (auto simp: read_string.simps split: option.splits)
      then show ?thesis
        using 2 cs False ih(2) [OF 2(2) 2(1) cs False] by (simp add: read_string.simps(2))
    qed
  next
    case 3
    show ?thesis
    proof (cases "byte_in c 0 127")
      case True
      then obtain t' where "read_string cs = Some (t', rest)" "\<not> byte_in c 0 31" "t = c # t'"
        using 3 "2.prems" by (auto simp: read_string.simps split: if_splits)
      then show ?thesis
        using 3 True ih(3) [OF 3 _ True] by (simp add: read_string.simps(2))
    next
      case False
      then have ctl: "\<not> byte_in c 0 31"
        by simp
      show ?thesis
      proof (cases "rune_size (c # cs)")
        case 0
        then obtain t' where t': "read_string cs = Some (t', rest)" "t = rune_error @ t'"
          using 3 False "2.prems" by (auto simp: read_string.simps split: if_splits)
        then show ?thesis
          using 3 False ctl ih(4) [OF 3 ctl False 0 t'(1)] rune_size_append [OF t'(1) False 0, of x]
          by (simp add: read_string.simps(2))
      next
        case (Suc k)
        then obtain t' where "read_string (drop k cs) = Some (t', rest)" "t = c # take k cs @ t'"
          using 3 False "2.prems" by (auto simp: read_string.simps split: if_splits)
        then show ?thesis
          using 3 False ctl ih(5) [OF 3 ctl False Suc] rune_size_append_Suc [OF Suc, of x]
          by (simp add: read_string.simps(2))
      qed
    qed
  qed
qed (simp add: read_string.simps)

lemma skip_ws_append: "skip_ws s = c # cs \<Longrightarrow> skip_ws (s @ x) = c # cs @ x"
  by (induction s) (auto simp: skip_ws_def split: if_splits)

lemma num_ends_skip:
  assumes "skip_ws r = c # cs" "c = CHR '','' \<or> c = CHR '']'' \<or> c = CHR 0x7D \<or> c = CHR '':''"
  shows "r \<noteq> []"
  using assms by (auto simp: skip_ws_def)

lemma read_number_head: "read_number (c # cs) = Some p \<Longrightarrow> is_digit c \<or> c = CHR ''-''"
  by (auto simp: read_number_def read_unsigned_def int_part_def is_digit_def split: if_splits)

lemma literal_head:
  "is_digit c \<or> c = CHR ''-'' \<Longrightarrow> \<not> HasPrefix (c # cs) ''null'' \<and> \<not> HasPrefix (c # cs) ''true'' \<and> \<not> HasPrefix (c # cs) ''false''"
  by (auto simp: HasPrefix_def is_digit_def)

lemma HasPrefix_more: "HasPrefix s p \<Longrightarrow> HasPrefix (s @ x) p \<and> drop (length p) (s @ x) = drop (length p) s @ x"
  by (auto simp: HasPrefix_iff)

lemma literal_distinct:
  "HasPrefix s ''true'' \<Longrightarrow> \<not> HasPrefix s ''null''" "HasPrefix s ''false'' \<Longrightarrow> \<not> HasPrefix s ''null''"
  "HasPrefix s ''false'' \<Longrightarrow> \<not> HasPrefix s ''true''"
  by (cases s; auto simp: HasPrefix_def)+

lemma read_value_append:
  assumes x: "num_ends x"
  shows "read_value fuel d s = Some (v, r) \<Longrightarrow> read_value fuel d (s @ x) = Some (v, r @ x)"
    and "read_items fuel d vs s = Some (v, r) \<Longrightarrow> read_items fuel d vs (s @ x) = Some (v, r @ x)"
    and "read_members fuel d kvs s = Some (v, r) \<Longrightarrow> read_members fuel d kvs (s @ x) = Some (v, r @ x)"
proof (induction fuel arbitrary: d s v r vs kvs)
  case (Suc fuel)
  note val = Suc.IH(1) and items = Suc.IH(2) and members = Suc.IH(3)
  {
    case 1
    note run = 1
    then obtain c cs where s: "skip_ws s = c # cs"
      by (cases "skip_ws s") auto
    note sx = skip_ws_append [OF s, of x]
    consider "c = quot" | "c = CHR 0x7B" | "c = CHR ''[''" | "c \<noteq> quot" "c \<noteq> CHR 0x7B" "c \<noteq> CHR ''[''"
      by blast
    then show ?case
    proof cases
      case 1
      then show ?thesis
        using s sx run read_string_append [of cs _ r x] by auto
    next
      case 2
      obtain e rest where cs: "skip_ws cs = e # rest"
        using 2 s run by (cases "skip_ws cs") (auto simp: quot_def split: if_splits)
      show ?thesis
        using 2 s sx cs skip_ws_append [OF cs, of x] run members [of "d - 1" "[]" "e # rest" v r]
        by (auto simp: quot_def split: if_splits)
    next
      case 3
      obtain e rest where cs: "skip_ws cs = e # rest"
        using 3 s run by (cases "skip_ws cs") (auto simp: quot_def split: if_splits)
      show ?thesis
        using 3 s sx cs skip_ws_append [OF cs, of x] run items [of "d - 1" "[]" "e # rest" v r]
        by (auto simp: quot_def split: if_splits)
    next
      case 4
      consider p where "p \<in> {''null'', ''true'', ''false''}" "HasPrefix (c # cs) p"
        | "\<not> HasPrefix (c # cs) ''null''" "\<not> HasPrefix (c # cs) ''true''" "\<not> HasPrefix (c # cs) ''false''"
        by blast
      then show ?thesis
      proof cases
        case (1 p)
        then show ?thesis
          using 4 s sx run HasPrefix_more [of "c # cs" p x] literal_distinct [of "c # cs @ x"] literal_distinct [of "c # cs"]
          by (auto simp: eval_nat_numeral)
      next
        case 2
        then obtain t where t: "read_number (c # cs) = Some (t, r)" "v = GNumber t"
          using 4 s run by auto
        then show ?thesis
          using 4 sx read_number_append [OF x t(1)] literal_head [OF read_number_head [OF t(1)], of "cs @ x"] by simp
      qed
    qed
  next
    case 2
    then obtain w r1 c rest where v: "read_value fuel d s = Some (w, r1)" "skip_ws r1 = c # rest"
      by (auto split: option.splits list.splits)
    show ?case
      using 2 v val [OF v(1)] skip_ws_append [OF v(2), of x] items [of d "vs @ [w]" rest v r] by (auto split: if_splits)
  next
    case 3
    then obtain q qs k r1 c r2 w r3 e rest where st:
      "skip_ws s = q # qs" "read_string qs = Some (k, r1)" "skip_ws r1 = c # r2" "read_value fuel d r2 = Some (w, r3)"
      "skip_ws r3 = e # rest"
      by (auto split: option.splits list.splits if_splits)
    show ?case
      using 3 st skip_ws_append [OF st(1), of x] read_string_append [OF st(2), of x] skip_ws_append [OF st(3), of x]
        val [OF st(4)] skip_ws_append [OF st(5), of x] members [of d "mput k w kvs" rest v r]
      by (auto split: if_splits)
  }
qed simp_all

section \<open>What encoders write\<close>

text \<open>
  \<open>json.Marshal\<close> writes as the canonical writer does (members in key order, no spaces) and escapes the three
  HTML characters, which occur inside strings only.
\<close>

definition html_escape :: "string \<Rightarrow> string" where
  "html_escape t = concat (map (\<lambda>c.
     if c = CHR ''<'' then bslash # ''u003c'' else if c = CHR ''>'' then bslash # ''u003e''
     else if c = CHR ''&'' then bslash # ''u0026'' else [c]) t)"

definition Marshal :: "gval \<Rightarrow> canon_error + bytes" where
  "Marshal v = (case writeCanonical v of Inl e \<Rightarrow> Inl e | Inr t \<Rightarrow> Inr (html_escape t))"

lemma html_escape_simps [simp]:
  "html_escape [] = []" "html_escape (s @ t) = html_escape s @ html_escape t"
  by (simp_all add: html_escape_def)

lemma html_escape_Cons: "html_escape (c # s) = html_escape [c] @ html_escape s"
  by (simp add: html_escape_def)

lemma html_escape_char: "c \<noteq> CHR ''<'' \<Longrightarrow> c \<noteq> CHR ''>'' \<Longrightarrow> c \<noteq> CHR ''&'' \<Longrightarrow> html_escape (c # s) = c # html_escape s"
  by (simp add: html_escape_def)

lemma html_escape_high: "\<forall>c \<in> set s. \<not> byte_in c 0 127 \<Longrightarrow> html_escape s = s"
  by (induction s) (auto simp: html_escape_def)

definition esc :: "bool \<Rightarrow> string \<Rightarrow> string" where
  "esc h t = (if h then html_escape t else t)"

lemma esc_simps [simp]: "esc h [] = []" "esc h (s @ t) = esc h s @ esc h t"
  by (simp_all add: esc_def)

lemma esc_char: "c \<noteq> CHR ''<'' \<Longrightarrow> c \<noteq> CHR ''>'' \<Longrightarrow> c \<noteq> CHR ''&'' \<Longrightarrow> esc h (c # s) = c # esc h s"
  by (simp add: esc_def html_escape_char)

text \<open>Reading one written character back.\<close>

lemma hex_val_digit: "0 \<le> n \<Longrightarrow> n < 16 \<Longrightarrow> hex_val (hex_digit n) = Some n"
  by (auto simp: hex_val_def hex_digit_def)

lemma read_u4_byte:
  "read_u4 (''00'' @ hex_byte c @ x) = Some (of_char c, x)"
proof -
  have "0 \<le> (of_char c :: int) div 16" "(of_char c :: int) div 16 < 16" "hex_val (CHR ''0'') = Some 0"
    using of_char_int_bounds [of c] by (linarith | simp add: hex_val_def)+
  then show ?thesis
    using hex_val_digit [of "of_char c div 16"] hex_val_digit [of "of_char c mod 16"]
    by (simp add: read_u4_def hex_byte_def)
qed

lemma read_escaped_byte:
  assumes "byte_in c 0 127"
  shows "read_string (bslash # ''u00'' @ hex_byte c @ x) = map_option (\<lambda>(s, r). (c # s, r)) (read_string x)"
proof -
  have "read_unit (of_char c) x = ([c], x)"
    using assms by (simp add: read_unit_def encode_rune_def)
  then show ?thesis
    using read_u4_byte [of c x] by (simp add: read_string.simps(2) quot_def bslash_def)
qed

lemma escape_readable:
  "(\<exists>d. escape_ascii c = [bslash, d] \<and> d \<noteq> CHR ''u'' \<and> simple_escape d = Some c) \<or>
   escape_ascii c = bslash # ''u00'' @ hex_byte c \<or>
   (escape_ascii c = [c] \<and> c \<noteq> quot \<and> c \<noteq> bslash \<and> \<not> byte_in c 0 31)"
  by (cases "c = quot"; cases "c = bslash"; cases "c = CHR 0x08"; cases "c = CHR 0x0C"; cases "c = CHR 0x0A";
      cases "c = CHR 0x0D"; cases "c = CHR 0x09"; simp add: escape_ascii_def simple_escape_def quot_def bslash_def)

lemma read_escape_ascii:
  assumes "byte_in c 0 127"
  shows "read_string (escape_ascii c @ x) = map_option (\<lambda>(s, r). (c # s, r)) (read_string x)"
proof -
  consider d where "escape_ascii c = [bslash, d]" "d \<noteq> CHR ''u''" "simple_escape d = Some c"
    | "escape_ascii c = bslash # ''u00'' @ hex_byte c" | "escape_ascii c = [c]" "c \<noteq> quot" "c \<noteq> bslash" "\<not> byte_in c 0 31"
    using escape_readable [of c] by blast
  then show ?thesis
  proof cases
    case (1 d)
    then show ?thesis
      by (simp add: read_string.simps(2) quot_def bslash_def)
  next
    case 2
    then show ?thesis
      using read_escaped_byte [OF assms] by simp
  next
    case 3
    then show ?thesis
      using assms by (simp add: read_string.simps(2))
  qed
qed

lemma html_escape_none: "\<forall>c \<in> set s. c \<noteq> CHR ''<'' \<and> c \<noteq> CHR ''>'' \<and> c \<noteq> CHR ''&'' \<Longrightarrow> html_escape s = s"
  by (induction s) (simp_all add: html_escape_char)

lemma hex_digit_no_html:
  assumes "0 \<le> n" "n < 16"
  shows "hex_digit n \<noteq> CHR ''<'' \<and> hex_digit n \<noteq> CHR ''>'' \<and> hex_digit n \<noteq> CHR ''&''"
  using assms by (auto simp: hex_digit_def dest!: arg_cong [where f = "of_char :: char \<Rightarrow> int"])

lemma html_escape_ascii:
  assumes "c \<noteq> CHR ''<''" "c \<noteq> CHR ''>''" "c \<noteq> CHR ''&''"
  shows "html_escape (escape_ascii c) = escape_ascii c"
proof (rule html_escape_none)
  have "0 \<le> (of_char c :: int) div 16" "(of_char c :: int) div 16 < 16" "0 \<le> (of_char c :: int) mod 16" "(of_char c :: int) mod 16 < 16"
    using of_char_int_bounds [of c] by linarith+
  then show "\<forall>d \<in> set (escape_ascii c). d \<noteq> CHR ''<'' \<and> d \<noteq> CHR ''>'' \<and> d \<noteq> CHR ''&''"
    using assms hex_digit_no_html [of "of_char c div 16"] hex_digit_no_html [of "of_char c mod 16"]
    by (auto simp: escape_ascii_def quot_def bslash_def hex_byte_def)
qed

lemma html_escaped_three:
  "html_escape (escape_ascii (CHR ''<'')) = bslash # ''u00'' @ hex_byte (CHR ''<'')"
  "html_escape (escape_ascii (CHR ''>'')) = bslash # ''u00'' @ hex_byte (CHR ''>'')"
  "html_escape (escape_ascii (CHR ''&'')) = bslash # ''u00'' @ hex_byte (CHR ''&'')"
  by code_simp+

lemma read_written_byte:
  assumes "byte_in c 0 127"
  shows "read_string (esc h (escape_ascii c) @ x) = map_option (\<lambda>(s, r). (c # s, r)) (read_string x)"
proof (cases "h \<and> (c = CHR ''<'' \<or> c = CHR ''>'' \<or> c = CHR ''&'')")
  case True
  then have "esc h (escape_ascii c) = bslash # ''u00'' @ hex_byte c"
    using html_escaped_three by (auto simp: esc_def)
  then show ?thesis
    using read_escaped_byte [OF assms] by simp
next
  case False
  then have "esc h (escape_ascii c) = escape_ascii c"
    using html_escape_ascii by (auto simp: esc_def)
  then show ?thesis
    using read_escape_ascii [OF assms] by simp
qed

text \<open>Text that is UTF-8, as every string of the protocol is.\<close>

function valid_utf8 :: "string \<Rightarrow> bool" where
  "valid_utf8 [] = True"
| "valid_utf8 (c # cs) = (case rune_size (c # cs) of 0 \<Rightarrow> False | Suc k \<Rightarrow> valid_utf8 (drop k cs))"
  by pat_completeness auto
termination
  by (relation "measure length") auto

lemma rune_size_take:
  assumes "rune_size (c # cs) = Suc k" "\<not> byte_in c 0 127"
  shows "rune_size (c # take k cs @ y) = Suc k" "\<forall>b \<in> set (c # take k cs). \<not> byte_in b 0 127"
proof -
  have k: "k \<le> length cs"
    using rune_size_append_Suc [OF assms(1)] by simp
  have "k = 1 \<and> byte_in c 0xC2 0xDF \<or> k = 2 \<and> byte_in c 0xE0 0xEF \<or> k = 3 \<and> byte_in c 0xF0 0xF4"
    using assms by (auto simp: rune_size_def split: list.splits if_splits)
  then have "rune_size (c # take k cs @ y) = Suc k \<and> (\<forall>b \<in> set (c # take k cs). \<not> byte_in b 0 127)"
  proof (elim disjE)
    assume "k = 1 \<and> byte_in c 0xC2 0xDF"
    moreover from this k obtain a as where "cs = a # as"
      by (cases cs) auto
    ultimately show ?thesis
      using assms by (auto simp: rune_size_def split: if_splits)
  next
    assume "k = 2 \<and> byte_in c 0xE0 0xEF"
    moreover from this k obtain a b as where "cs = a # b # as"
      by (cases cs; cases "tl cs") auto
    ultimately show ?thesis
      using assms by (auto simp: rune_size_def split: if_splits)
  next
    assume "k = 3 \<and> byte_in c 0xF0 0xF4"
    moreover from this k obtain a b d as where "cs = a # b # d # as"
      by (cases cs; cases "tl cs"; cases "tl (tl cs)") auto
    ultimately show ?thesis
      using assms by (auto simp: rune_size_def split: if_splits)
  qed
  then show "rune_size (c # take k cs @ y) = Suc k" "\<forall>b \<in> set (c # take k cs). \<not> byte_in b 0 127"
    by simp_all
qed

lemma take3_size:
  assumes "rune_size (c # cs) = Suc k" "take 3 (c # cs) = [CHR 0xE2, CHR 0x80, b]"
  shows "c # take k cs = [CHR 0xE2, CHR 0x80, b]"
proof -
  obtain as where cs: "c = CHR 0xE2" "cs = CHR 0x80 # b # as"
    using assms(2) by (cases cs; cases "tl cs") auto
  then have "k = 2"
    using assms(1) by (simp split: if_splits add: rune_size_def)
  then show ?thesis
    using cs by simp
qed

lemma read_separators:
  "read_string (bslash # ''u2028'' @ x) = map_option (\<lambda>(s, r). ([CHR 0xE2, CHR 0x80, CHR 0xA8] @ s, r)) (read_string x)"
  "read_string (bslash # ''u2029'' @ x) = map_option (\<lambda>(s, r). ([CHR 0xE2, CHR 0x80, CHR 0xA9] @ s, r)) (read_string x)"
proof -
  have u: "read_u4 (''2028'' @ x) = Some (0x2028, x)" "read_u4 (''2029'' @ x) = Some (0x2029, x)"
    by (simp_all add: read_u4_def hex_val_def)
  have "encode_rune 0x2028 = [CHR 0xE2, CHR 0x80, CHR 0xA8]" "encode_rune 0x2029 = [CHR 0xE2, CHR 0x80, CHR 0xA9]"
    by code_simp+
  then have "read_unit 0x2028 x = ([CHR 0xE2, CHR 0x80, CHR 0xA8], x)" "read_unit 0x2029 x = ([CHR 0xE2, CHR 0x80, CHR 0xA9], x)"
    by (simp_all add: read_unit_def)
  then show "read_string (bslash # ''u2028'' @ x) = map_option (\<lambda>(s, r). ([CHR 0xE2, CHR 0x80, CHR 0xA8] @ s, r)) (read_string x)"
    "read_string (bslash # ''u2029'' @ x) = map_option (\<lambda>(s, r). ([CHR 0xE2, CHR 0x80, CHR 0xA9] @ s, r)) (read_string x)"
    using u by (simp_all add: read_string.simps(2) quot_def bslash_def)
qed

lemma esc_plain: "\<forall>c \<in> set s. c \<noteq> CHR ''<'' \<and> c \<noteq> CHR ''>'' \<and> c \<noteq> CHR ''&'' \<Longrightarrow> esc h s = s"
  by (simp add: esc_def html_escape_none)

lemma read_quoted: "valid_utf8 s \<Longrightarrow> read_string (esc h (quote_body s) @ quot # x) = Some (s, x)"
proof (induction s rule: quote_body.induct)
  case (2 c cs)
  show ?case
  proof (cases "byte_in c 0 127")
    case True
    then have "valid_utf8 cs"
      using "2.prems" by (simp add: rune_size_def)
    then show ?thesis
      using True "2.IH"(1) read_written_byte [OF True, of h "esc h (quote_body cs) @ quot # x"] by simp
  next
    case False
    obtain k where k: "rune_size (c # cs) = Suc k" "valid_utf8 (drop k cs)"
      using "2.prems" by (cases "rune_size (c # cs)") auto
    have split: "c # cs = (c # take k cs) @ drop k cs"
      by simp
    have rest: "read_string (esc h (quote_body (drop k cs)) @ quot # x) = Some (drop k cs, x)"
      using "2.IH"(3) [OF False k(1)] k(2) by blast
    consider "take 3 (c # cs) = [CHR 0xE2, CHR 0x80, CHR 0xA8]" | "take 3 (c # cs) = [CHR 0xE2, CHR 0x80, CHR 0xA9]"
      | "take 3 (c # cs) \<noteq> [CHR 0xE2, CHR 0x80, CHR 0xA8]" "take 3 (c # cs) \<noteq> [CHR 0xE2, CHR 0x80, CHR 0xA9]"
      by blast
    then show ?thesis
    proof cases
      case 1
      have "esc h (quote_body (c # cs)) = bslash # ''u2028'' @ esc h (quote_body (drop k cs))"
        using False k 1 by (simp add: esc_plain bslash_def del: take_Suc_Cons) (simp add: esc_char)
      then show ?thesis
        using read_separators(1) [of "esc h (quote_body (drop k cs)) @ quot # x"] rest split take3_size [OF k(1) 1]
        by (simp del: quote_body.simps)
    next
      case 2
      have "esc h (quote_body (c # cs)) = bslash # ''u2029'' @ esc h (quote_body (drop k cs))"
        using False k 2 by (simp add: esc_plain bslash_def del: take_Suc_Cons) (simp add: esc_char)
      then show ?thesis
        using read_separators(2) [of "esc h (quote_body (drop k cs)) @ quot # x"] rest split take3_size [OF k(1) 2]
        by (simp del: quote_body.simps)
    next
      case 3
      note high = rune_size_take [OF k(1) False]
      have "\<forall>b \<in> set (c # take k cs). b \<noteq> CHR ''<'' \<and> b \<noteq> CHR ''>'' \<and> b \<noteq> CHR ''&''"
        using high(2) by (auto simp: image_iff)
      then have "esc h (quote_body (c # cs)) = (c # take k cs) @ esc h (quote_body (drop k cs))"
        using False k 3 esc_plain [of "c # take k cs" h] esc_simps(2) [of h "c # take k cs" "quote_body (drop k cs)"]
        by auto
      moreover have "k \<le> length cs"
        using rune_size_append_Suc [OF k(1)] by simp
      moreover have "\<not> byte_in c 0 31" "c \<noteq> quot" "c \<noteq> bslash"
        using False by (auto simp: quot_def bslash_def)
      ultimately show ?thesis
        using False high(1) [of "esc h (quote_body (drop k cs)) @ quot # x"] rest by (simp add: read_string.simps(2) del: quote_body.simps)
    qed
  qed
qed (simp add: read_string.simps(2))

section \<open>Reading back what was written\<close>

fun readable :: "nat \<Rightarrow> gval \<Rightarrow> bool" where
  "readable d (GStr s) = valid_utf8 s"
| "readable d (GNumber s) = (\<not> has_float_char s \<and> read_number s = Some (s, []))"
| "readable d GFloat = False"
| "readable d GOther = False"
| "readable d (GArr xs) = (0 < d \<and> (\<forall>x \<in> set xs. readable (d - 1) x))"
| "readable d (GMap kvs) = (0 < d \<and> (\<forall>kv \<in> set kvs. valid_utf8 (fst kv) \<and> readable (d - 1) (snd kv)))"
| "readable d _ = True"

definition reads :: "nat \<Rightarrow> string \<Rightarrow> gval \<Rightarrow> bool" where
  "reads d t v \<longleftrightarrow> (\<forall>x. num_ends x \<longrightarrow> (\<exists>f0. \<forall>f \<ge> f0. read_value f d (t @ x) = Some (v, x)))"

lemma readsE:
  assumes "reads d t v" "num_ends x"
  obtains f0 where "\<And>f. f0 \<le> f \<Longrightarrow> read_value f d (t @ x) = Some (v, x)"
  using assms unfolding reads_def by blast

lemma from_Suc:
  fixes P :: "nat \<Rightarrow> bool"
  assumes "\<And>f. f0 \<le> f \<Longrightarrow> P (Suc f)"
  shows "\<exists>f0. \<forall>f \<ge> f0. P f"
proof (intro exI allI impI)
  fix f
  assume "Suc f0 \<le> f"
  then show "P f"
    using assms [of "f - 1"] by (cases f) auto
qed

lemma read_value_start:
  assumes "read_value f d s = Some p"
  obtains c cs where "skip_ws s = c # cs" "c \<noteq> CHR '']''" "c \<noteq> CHR 0x7D"
proof (cases f)
  case (Suc g)
  then obtain c cs where c: "skip_ws s = c # cs"
    using assms by (cases "skip_ws s") auto
  have "read_number (CHR '']'' # cs) = None" "read_number (CHR 0x7D # cs) = None"
    by (simp_all add: read_number_def read_unsigned_def int_part_def is_digit_def)
  then have "c \<noteq> CHR '']'' \<and> c \<noteq> CHR 0x7D"
    using assms Suc c by (auto simp: quot_def HasPrefix_def)
  then show ?thesis
    using that c by blast
qed (use assms in simp)

lemma skip_ws_idem [simp]: "skip_ws (skip_ws s) = skip_ws s"
  by (simp add: skip_ws_def dropWhile_idem)

lemma read_value_skip: "read_value f d (skip_ws s) = read_value f d s"
  by (cases f) simp_all

lemma read_items_skip: "read_items f d vs (skip_ws s) = read_items f d vs s"
  by (cases f) (simp_all add: read_value_skip)

lemma read_members_skip: "read_members f d kvs (skip_ws s) = read_members f d kvs s"
  by (cases f) simp_all

lemma mark_facts [simp]:
  "num_ends (CHR '','' # s)" "num_ends (CHR '']'' # s)" "num_ends (CHR 0x7D # s)"
  "skip_ws (CHR '','' # s) = CHR '','' # s" "skip_ws (CHR '']'' # s) = CHR '']'' # s"
  "skip_ws (CHR 0x7D # s) = CHR 0x7D # s" "skip_ws (CHR '':'' # s) = CHR '':'' # s" "skip_ws (quot # s) = quot # s"
  by (simp_all add: num_ends_def is_digit_def skip_ws_def is_space_def quot_def)

lemma reads_items:
  "list_all2 (reads d) ts vs \<Longrightarrow> ts \<noteq> [] \<Longrightarrow>
     \<exists>f0. \<forall>f \<ge> f0. read_items f d ws (join '','' ts @ CHR '']'' # x) = Some (GArr (ws @ vs), x)"
proof (induction ts arbitrary: vs ws)
  case (Cons t ts)
  then obtain v us where vs: "vs = v # us" "reads d t v" "list_all2 (reads d) ts us"
    by (auto simp: list_all2_Cons1)
  show ?case
  proof (cases "ts = []")
    case True
    obtain f0 where "\<And>f. f0 \<le> f \<Longrightarrow> read_value f d (t @ CHR '']'' # x) = Some (v, CHR '']'' # x)"
      using readsE [OF vs(2), of "CHR '']'' # x"] by auto
    then have "read_items (Suc f) d ws (t @ CHR '']'' # x) = Some (GArr (ws @ vs), x)" if "f0 \<le> f" for f
      using that True vs by simp
    then have "\<exists>f0. \<forall>f \<ge> f0. read_items f d ws (t @ CHR '']'' # x) = Some (GArr (ws @ vs), x)"
      by (rule from_Suc)
    then show ?thesis
      using True by simp
  next
    case False
    let ?more = "CHR '','' # join '','' ts @ CHR '']'' # x"
    obtain f0 where f0: "\<And>f. f0 \<le> f \<Longrightarrow> read_value f d (t @ ?more) = Some (v, ?more)"
      using readsE [OF vs(2), of ?more] by auto
    obtain f1 where f1: "\<And>f. f1 \<le> f \<Longrightarrow> read_items f d (ws @ [v]) (join '','' ts @ CHR '']'' # x) = Some (GArr ((ws @ [v]) @ us), x)"
      using Cons.IH [OF vs(3) False, of "ws @ [v]"] by blast
    have "read_items (Suc f) d ws (t @ ?more) = Some (GArr (ws @ vs), x)" if "max f0 f1 \<le> f" for f
      using that f0 [of f] f1 [of f] vs(1) by simp
    then have "\<exists>f0. \<forall>f \<ge> f0. read_items f d ws (t @ ?more) = Some (GArr (ws @ vs), x)"
      by (rule from_Suc)
    then show ?thesis
      using False by (simp add: join_Cons)
  qed
qed simp

definition member_text :: "bool \<Rightarrow> string \<Rightarrow> string \<Rightarrow> string" where
  "member_text h k t = esc h (json_quote k) @ CHR '':'' # t"

lemma esc_quote: "esc h (json_quote k) = quot # esc h (quote_body k) @ [quot]"
  by (simp add: json_quote_def esc_char quot_def)

lemma mput_new: "k \<notin> fst ` set m \<Longrightarrow> mput k v m = m @ [(k, v)]"
  by (induction m) (auto simp: mput_def)

lemma reads_members:
  "list_all2 (\<lambda>t kv. \<exists>u. t = member_text h (fst kv) u \<and> valid_utf8 (fst kv) \<and> reads d u (snd kv)) ts kvs \<Longrightarrow> ts \<noteq> [] \<Longrightarrow>
     distinct (map fst (ws @ kvs)) \<Longrightarrow>
     \<exists>f0. \<forall>f \<ge> f0. read_members f d ws (join '','' ts @ CHR 0x7D # x) = Some (GMap (ws @ kvs), x)"
proof (induction ts arbitrary: kvs ws)
  case (Cons t ts)
  then obtain k v us u where kvs: "kvs = (k, v) # us" "t = member_text h k u" "valid_utf8 k" "reads d u v"
    "list_all2 (\<lambda>t kv. \<exists>u. t = member_text h (fst kv) u \<and> valid_utf8 (fst kv) \<and> reads d u (snd kv)) ts us"
    by (auto simp: list_all2_Cons1)
  have new: "mput k v ws = ws @ [(k, v)]"
    using Cons.prems(3) kvs(1) by (intro mput_new) auto
  have key: "read_string (esc h (quote_body k) @ quot # y) = Some (k, y)" for y
    using read_quoted [OF kvs(3)] .
  show ?case
  proof (cases "ts = []")
    case True
    obtain f0 where "\<And>f. f0 \<le> f \<Longrightarrow> read_value f d (u @ CHR 0x7D # x) = Some (v, CHR 0x7D # x)"
      using readsE [OF kvs(4), of "CHR 0x7D # x"] by auto
    then have "read_members (Suc f) d ws (t @ CHR 0x7D # x) = Some (GMap (ws @ kvs), x)" if "f0 \<le> f" for f
      using that True kvs new key by (simp add: member_text_def esc_quote)
    then have "\<exists>f0. \<forall>f \<ge> f0. read_members f d ws (t @ CHR 0x7D # x) = Some (GMap (ws @ kvs), x)"
      by (rule from_Suc)
    then show ?thesis
      using True by simp
  next
    case False
    let ?more = "CHR '','' # join '','' ts @ CHR 0x7D # x"
    obtain f0 where f0: "\<And>f. f0 \<le> f \<Longrightarrow> read_value f d (u @ ?more) = Some (v, ?more)"
      using readsE [OF kvs(4), of ?more] by auto
    obtain f1 where f1: "\<And>f. f1 \<le> f \<Longrightarrow>
        read_members f d (ws @ [(k, v)]) (join '','' ts @ CHR 0x7D # x) = Some (GMap ((ws @ [(k, v)]) @ us), x)"
      using Cons.IH [OF kvs(5) False, of "ws @ [(k, v)]"] Cons.prems(3) kvs(1) by auto
    have "read_members (Suc f) d ws (t @ ?more) = Some (GMap (ws @ kvs), x)" if "max f0 f1 \<le> f" for f
      using that f0 [of f] f1 [of f] kvs(1,2) new key by (simp add: member_text_def esc_quote)
    then have "\<exists>f0. \<forall>f \<ge> f0. read_members f d ws (t @ ?more) = Some (GMap (ws @ kvs), x)"
      by (rule from_Suc)
    then show ?thesis
      using False by (simp add: join_Cons)
  qed
qed simp

lemma html_join: "esc h (join '','' ss) = join '','' (map (esc h) ss)"
  by (induction ss rule: induct_list012) (simp_all add: esc_char)

lemma reads_array:
  assumes "list_all2 (reads d) ts vs"
  shows "reads (Suc d) (CHR ''['' # join '','' ts @ '']'') (GArr vs)"
  unfolding reads_def
proof (intro allI impI)
  fix x
  assume x: "num_ends x"
  let ?s = "join '','' ts @ CHR '']'' # x"
  have start: "skip_ws (CHR ''['' # s) = CHR ''['' # s" for s
    by (simp add: skip_ws_def is_space_def)
  show "\<exists>f0. \<forall>f \<ge> f0. read_value f (Suc d) ((CHR ''['' # join '','' ts @ '']'') @ x) = Some (GArr vs, x)"
  proof (cases "ts = []")
    case True
    then show ?thesis
      using assms start by (intro from_Suc [of 0]) (simp add: quot_def)
  next
    case False
    obtain f0 where f0: "\<And>f. f0 \<le> f \<Longrightarrow> read_items f d [] ?s = Some (GArr vs, x)"
      using reads_items [OF assms False, of "[]" x] by auto
    obtain f p where "read_value f d ?s = Some p"
      using f0 [of "Suc f0"] by (auto split: option.splits)
    then obtain c cs where c: "skip_ws ?s = c # cs" "c \<noteq> CHR '']''"
      by (rule read_value_start)
    have "read_items f d [] (c # cs) = Some (GArr vs, x)" if "f0 \<le> f" for f
      using f0 [OF that] read_items_skip [of f d "[]" ?s] c(1) by simp
    then show ?thesis
      using start c by (intro from_Suc [of f0]) (simp add: quot_def)
  qed
qed

lemma reads_object:
  assumes "list_all2 (\<lambda>t kv. \<exists>u. t = member_text h (fst kv) u \<and> valid_utf8 (fst kv) \<and> reads d u (snd kv)) ts kvs"
    and "distinct (map fst kvs)"
  shows "reads (Suc d) (CHR 0x7B # join '','' ts @ [CHR 0x7D]) (GMap kvs)"
  unfolding reads_def
proof (intro allI impI)
  fix x
  assume x: "num_ends x"
  let ?s = "join '','' ts @ CHR 0x7D # x"
  have start: "skip_ws (CHR 0x7B # s) = CHR 0x7B # s" for s
    by (simp add: skip_ws_def is_space_def)
  show "\<exists>f0. \<forall>f \<ge> f0. read_value f (Suc d) ((CHR 0x7B # join '','' ts @ [CHR 0x7D]) @ x) = Some (GMap kvs, x)"
  proof (cases "ts = []")
    case True
    then show ?thesis
      using assms(1) start by (intro from_Suc [of 0]) (simp add: quot_def)
  next
    case False
    obtain f0 where f0: "\<And>f. f0 \<le> f \<Longrightarrow> read_members f d [] ?s = Some (GMap kvs, x)"
      using reads_members [OF assms(1) False, of "[]" x] assms(2) by auto
    obtain c cs where c: "skip_ws ?s = c # cs" "c = quot"
      using f0 [of "Suc f0"] by (auto split: list.splits if_splits)
    have "read_members f d [] (c # cs) = Some (GMap kvs, x)" if "f0 \<le> f" for f
      using f0 [OF that] read_members_skip [of f d "[]" ?s] c(1) by simp
    then show ?thesis
      using start c by (intro from_Suc [of f0]) (simp add: quot_def)
  qed
qed

lemma reads_literal:
  "reads d ''null'' GNil" "reads d ''true'' (GBool True)" "reads d ''false'' (GBool False)"
  unfolding reads_def
  by (intro allI impI from_Suc [of 0]; simp add: skip_ws_def is_space_def quot_def HasPrefix_def)+

lemma reads_number:
  assumes "read_number s = Some (s, [])"
  shows "reads d s (GNumber s)"
  unfolding reads_def
proof (intro allI impI)
  fix x
  assume x: "num_ends x"
  obtain c cs where c: "s = c # cs"
    using assms by (cases s) (auto simp: read_number_def)
  then have hd: "is_digit c \<or> c = CHR ''-''"
    using assms read_number_head by metis
  then have "skip_ws (s @ x) = s @ x" "c \<noteq> quot" "c \<noteq> CHR 0x7B" "c \<noteq> CHR ''[''"
    using c by (auto simp: skip_ws_def is_space_def quot_def is_digit_def)
  then show "\<exists>f0. \<forall>f \<ge> f0. read_value f d (s @ x) = Some (GNumber s, x)"
    using c read_number_append [OF x assms] literal_head [OF hd, of "cs @ x"] by (intro from_Suc [of 0]) simp
qed

lemma reads_string: "valid_utf8 s \<Longrightarrow> reads d (esc h (json_quote s)) (GStr s)"
  unfolding reads_def using read_quoted [of s h]
  by (intro allI impI from_Suc [of 0]) (simp add: esc_quote)

lemma dec_pos_head: "0 < n \<Longrightarrow> hd (dec_pos n) \<noteq> CHR ''0''"
proof (induction n rule: dec_pos.induct)
  case (1 n)
  show ?case
  proof (cases "n < 10")
    case True
    have "of_char (digit n) \<noteq> (48 :: int)"
      using "1.prems" True by (simp add: digit_def)
    then show ?thesis
      using True by (subst dec_pos.simps) (auto dest!: arg_cong [where f = "of_char :: char \<Rightarrow> int"])
  next
    case False
    then show ?thesis
      using "1.IH" by (subst dec_pos.simps) (simp add: hd_append)
  qed
qed

lemma int_part_dec_pos: "0 \<le> n \<Longrightarrow> int_part (dec_pos n) = Some (dec_pos n)"
proof -
  assume n: "0 \<le> n"
  have ds: "digits (dec_pos n) = dec_pos n"
    using dec_pos_digits [OF n] by (simp add: digits_def)
  show ?thesis
  proof (cases "n = 0")
    case True
    moreover have "int_part (dec_pos 0) = Some (dec_pos 0)"
      by code_simp
    ultimately show ?thesis
      by simp
  next
    case False
    obtain c cs where c: "dec_pos n = c # cs"
      by (cases "dec_pos n") auto
    then have "c \<noteq> CHR ''0''" "is_digit c"
      using dec_pos_head [of n] dec_pos_digits [OF n, of c] n False by auto
    then show ?thesis
      using c ds by (simp add: int_part_def)
  qed
qed

lemma read_number_dec64: "read_number (dec64 i) = Some (dec64 i, [])"
proof -
  have u: "read_unsigned (dec_pos n) = Some (dec_pos n, [])" if "0 \<le> n" for n
    using int_part_dec_pos [OF that] by (simp add: read_unsigned_def frac_part_def exp_part_def)
  show ?thesis
  proof (cases "sint i < 0")
    case True
    then show ?thesis
      using u [of "- sint i"] by (simp add: dec64_def dec_int_def read_number_def)
  next
    case False
    obtain c cs where c: "dec_pos (sint i) = c # cs"
      by (cases "dec_pos (sint i)") auto
    then have "is_digit c"
      using dec_pos_digits [of "sint i" c] False by simp
    then have "c \<noteq> CHR ''-''"
      by (auto simp: is_digit_def)
    then show ?thesis
      using u [of "sint i"] c False by (simp add: dec64_def dec_int_def read_number_def)
  qed
qed

definition number_char :: "char \<Rightarrow> bool" where
  "number_char c \<longleftrightarrow> is_digit c \<or> c = CHR ''-'' \<or> c = CHR ''+'' \<or> c = CHR ''.'' \<or> c = CHR ''e'' \<or> c = CHR ''E''"

lemma digits_chars: "\<forall>c \<in> set (digits s). number_char c"
  by (auto simp: digits_def number_char_def dest: set_takeWhileD)

lemma unsigned_chars: "read_unsigned s = Some (t, r) \<Longrightarrow> \<forall>c \<in> set t. number_char c"
proof -
  have "int_part a = Some i \<Longrightarrow> \<forall>c \<in> set i. number_char c" for a i
    using digits_chars [of a] by (auto simp: int_part_def number_char_def is_digit_def split: list.splits if_splits)
  moreover have "frac_part a = Some i \<Longrightarrow> \<forall>c \<in> set i. number_char c" for a i
    using digits_chars [of "tl a"] by (auto simp: frac_part_def number_char_def split: list.splits if_splits)
  moreover have "exp_part a = Some i \<Longrightarrow> \<forall>c \<in> set i. number_char c" for a i
    using digits_chars [of "tl a"] digits_chars [of "tl (tl a)"]
    by (auto simp: exp_part_def Let_def number_char_def split: list.splits if_splits)
  moreover assume "read_unsigned s = Some (t, r)"
  ultimately show ?thesis
    by (fastforce simp: read_unsigned_def split: option.splits)
qed

lemma number_no_html:
  assumes "read_number s = Some (s, [])"
  shows "esc h s = s"
proof (rule esc_plain)
  have "\<forall>c \<in> set s. number_char c"
  proof (cases s)
    case (Cons c cs)
    then show ?thesis
      using assms unsigned_chars [of s] unsigned_chars [of cs]
      by (auto simp: read_number_def number_char_def split: if_splits)
  qed simp
  then show "\<forall>c \<in> set s. c \<noteq> CHR ''<'' \<and> c \<noteq> CHR ''>'' \<and> c \<noteq> CHR ''&''"
    by (auto simp: number_char_def is_digit_def)
qed

lemma reads_written: "writeCanonical v = Inr t \<Longrightarrow> readable d v \<Longrightarrow> reads d (esc h t) (norm v)"
proof (induction v arbitrary: t d)
  case GNil
  then show ?case
    using reads_literal(1) esc_plain [of "''null''" h] by auto
next
  case (GBool b)
  then show ?case
    using reads_literal(2,3) esc_plain [of "''true''" h] esc_plain [of "''false''" h] by (cases b) auto
next
  case (GStr s)
  then show ?case
    using reads_string by auto
next
  case (GInt i)
  then show ?case
    using reads_number [OF read_number_dec64] number_no_html [OF read_number_dec64] by auto
next
  case (GNumber s)
  then show ?case
    using reads_number number_no_html [of s] by auto
next
  case (GArr xs)
  obtain e where d: "d = Suc e"
    using GArr.prems(2) by (cases d) auto
  obtain ss where ss: "map writeCanonical xs = map Inr ss" "t = CHR ''['' # join '','' ss @ '']''"
    using writeCanonical_GArr_D [OF GArr.prems(1)] by blast
  have len: "length ss = length xs"
    using arg_cong [OF ss(1), of length] by simp
  have "writeCanonical (xs ! i) = Inr (ss ! i)" if "i < length xs" for i
    using ss(1) that len by (metis nth_map)
  then have "list_all2 (reads e) (map (esc h) ss) (map norm xs)"
    using GArr.prems(2) d len by (auto simp: list_all2_conv_all_nth intro!: GArr.IH)
  then show ?case
    using reads_array [of e "map (esc h) ss" "map norm xs"] d ss(2) by (simp add: esc_char html_join)
next
  case (GMap kvs)
  obtain e where d: "d = Suc e"
    using GMap.prems(2) by (cases d) auto
  obtain ss where ss: "map (write_member (members kvs)) (sorted_keys kvs) = map Inr ss" "t = CHR 0x7B # join '','' ss @ [CHR 0x7D]"
    using writeCanonical_GMap_D [OF GMap.prems(1)] by blast
  have len: "length ss = length (sorted_keys kvs)"
    using arg_cong [OF ss(1), of length] by simp
  define kv where "kv k = (k, case map_option norm (map_of kvs k) of Some v \<Rightarrow> v | None \<Rightarrow> GNil)" for k
  have item: "\<exists>u. esc h (ss ! i) = member_text h (fst (kv (sorted_keys kvs ! i))) u \<and> valid_utf8 (fst (kv (sorted_keys kvs ! i))) \<and>
      reads e u (snd (kv (sorted_keys kvs ! i)))" if "i < length ss" for i
  proof -
    let ?k = "sorted_keys kvs ! i"
    have "write_member (members kvs) ?k = Inr (ss ! i)"
      using ss(1) that len by (metis nth_map)
    then obtain v s where v: "map_of kvs ?k = Some v" "(?k, v) \<in> set kvs" "writeCanonical v = Inr s" "ss ! i = json_quote ?k @ CHR '':'' # s"
      by (rule write_member_D)
    have "reads e (esc h s) (norm v)"
      using GMap.IH [of "(?k, v)" v s e] v GMap.prems(2) d by auto
    then show ?thesis
      using v GMap.prems(2) d by (intro exI [of _ "esc h s"]) (auto simp: member_text_def esc_char kv_def)
  qed
  have "list_all2 (\<lambda>t kv. \<exists>u. t = member_text h (fst kv) u \<and> valid_utf8 (fst kv) \<and> reads e u (snd kv))
      (map (esc h) ss) (map kv (sorted_keys kvs))"
    using item len by (simp add: list_all2_conv_all_nth)
  moreover have "distinct (map fst (map kv (sorted_keys kvs)))"
    by (simp add: kv_def comp_def)
  ultimately have "reads (Suc e) (CHR 0x7B # join '','' (map (esc h) ss) @ [CHR 0x7D]) (GMap (map kv (sorted_keys kvs)))"
    by (rule reads_object)
  moreover have "norm (GMap kvs) = GMap (map kv (sorted_keys kvs))"
    unfolding norm_GMap by (simp only: kv_def [abs_def])
  ultimately show ?case
    using d ss(2) by (simp add: esc_char html_join del: norm.simps)
qed simp_all


section \<open>Properties\<close>

lemma read_value_enough:
  assumes "2 * length s < f" "read_value f d s = Some p"
  shows "2 * length s < g \<Longrightarrow> read_value g d s = Some p"
proof (cases "f \<le> g")
  case True
  then show ?thesis
    using read_value_fuel(1) [OF assms(1) True] assms(2) by simp
next
  case False
  moreover assume "2 * length s < g"
  ultimately show ?thesis
    using read_value_fuel(1) [of s g f d] assms(2) by simp
qed

lemma Decode_written:
  assumes "writeCanonical v = Inr t" "readable max_depth v" "num_ends x"
  shows "DecodeJSON (esc h t @ x) = Some (norm v)"
proof -
  obtain f0 where f0: "\<And>f. f0 \<le> f \<Longrightarrow> read_value f max_depth (esc h t @ x) = Some (norm v, x)"
    using readsE [OF reads_written [OF assms(1,2)] assms(3)] by blast
  let ?g = "max f0 (2 * length (esc h t @ x) + 1)"
  have "read_value (2 * length (esc h t @ x) + 2) max_depth (esc h t @ x) = Some (norm v, x)"
    by (rule read_value_enough [of _ ?g]) (simp_all add: f0 max_def)
  then show ?thesis
    by (simp add: DecodeJSON_def)
qed

text \<open>
  C33: what a node writes, a node reads. The text of a value that the canonical writer or \<open>json.Marshal\<close> produces, with
  its strings valid UTF-8 and its nesting within what the decoder allows, followed by nothing, a line feed or any text that
  does not continue a number, decodes to the value itself, with integers as numbers and the members of
  each object in key order: escapes, separators and number boundaries are all undone.
\<close>

theorem Decode_of_Marshal:
  assumes "readable max_depth v" "num_ends x"
  shows "(\<forall>t. Canonical v = Inr t \<longrightarrow> DecodeJSON (t @ x) = Some (norm v)) \<and>
    (\<forall>t. Marshal v = Inr t \<longrightarrow> DecodeJSON (t @ x) = Some (norm v))"
proof (intro conjI allI impI)
  show "DecodeJSON (t @ x) = Some (norm v)" if "Canonical v = Inr t" for t
    using Decode_written [OF _ assms, of t False] that by (simp add: Canonical_def esc_def)
  show "DecodeJSON (t @ x) = Some (norm v)" if "Marshal v = Inr t" for t
    using Decode_written [OF _ assms, of _ True] that by (auto simp: Marshal_def esc_def split: sum.splits)
qed

definition demo_value :: gval where
  "demo_value = GMap [(''seq'', GInt (- 7)), (''id'', GStr ''<a>''), (''xs'', GArr [GNil, GBool True, GMap []])]"

theorem Decode_of_Marshal_witness:
  "\<exists>t. Marshal demo_value = Inr t \<and> DecodeJSON (t @ [CHR 0x0A]) =
     Some (GMap [(''id'', GStr ''<a>''), (''seq'', GNumber ''-7''), (''xs'', GArr [GNil, GBool True, GMap []])])"
proof -
  have "readable max_depth demo_value"
    by (simp add: demo_value_def max_depth_def rune_size_def)
  moreover have "num_ends [CHR 0x0A]"
    by (simp add: num_ends_def is_digit_def)
  moreover obtain t where "Marshal demo_value = Inr t"
    using float_free_canon_ok [of demo_value] by (auto simp: demo_value_def Marshal_def canon_ok_def is_ok_iff)
  moreover have "norm demo_value = GMap [(''id'', GStr ''<a>''), (''seq'', GNumber ''-7''), (''xs'', GArr [GNil, GBool True, GMap []])]"
    by code_simp
  ultimately show ?thesis
    using Decode_of_Marshal by metis
qed



end
