(* ===== verification/LP_DSStore.thy ===== *)
theory LP_DSStore
  imports LP_Json LP_Node
begin

text \<open>
  The snapshot store of the App Engine host (gae/dsstore.go). A snapshot is taken apart into one entity per
  ledger record, chunks for the rest and a state entity with their counts and a version, which a transaction compares
  and advances.

  Datastore itself is a parameter: the record \<open>datastore\<close> has the calls that the code makes, over an unknown state,
  and \<open>datastore_ok\<close> what its documentation says of them.
\<close>

section \<open>Raw JSON\<close>

text \<open>
  \<open>json.Unmarshal\<close> into \<open>map[string]json.RawMessage\<close> and \<open>[]json.RawMessage\<close>: one level is taken apart, the
  values keep their text. \<open>null\<close> gives the nil map (\<open>None\<close>) and the nil slice.
\<close>

definition raw_value :: "string \<Rightarrow> (bytes \<times> string) option" where
  "raw_value s =
     (case read_value (2 * length s + 2) (max_depth - 1) s of
        None \<Rightarrow> None
      | Some (_, rest) \<Rightarrow> let t = skip_ws s in Some (take (length t - length rest) t, rest))"

fun raw_items :: "nat \<Rightarrow> bytes list \<Rightarrow> string \<Rightarrow> (bytes list \<times> string) option" where
  "raw_items 0 rs s = None"
| "raw_items (Suc fuel) rs s =
     (case raw_value s of
        None \<Rightarrow> None
      | Some (r, s1) \<Rightarrow>
          (case skip_ws s1 of
             [] \<Rightarrow> None
           | c # rest \<Rightarrow>
               if c = CHR '','' then raw_items fuel (rs @ [r]) rest
               else if c = CHR '']'' then Some (rs @ [r], rest)
               else None))"

fun raw_members :: "nat \<Rightarrow> (string, bytes) gomap \<Rightarrow> string \<Rightarrow> ((string, bytes) gomap \<times> string) option" where
  "raw_members 0 m s = None"
| "raw_members (Suc fuel) m s =
     (case skip_ws s of
        [] \<Rightarrow> None
      | q # qs \<Rightarrow>
          if q \<noteq> quot then None
          else case read_string qs of
              None \<Rightarrow> None
            | Some (k, s1) \<Rightarrow>
                (case skip_ws s1 of
                   [] \<Rightarrow> None
                 | c # s2 \<Rightarrow>
                     if c \<noteq> CHR '':'' then None
                     else case raw_value s2 of
                         None \<Rightarrow> None
                       | Some (r, s3) \<Rightarrow>
                           (case skip_ws s3 of
                              [] \<Rightarrow> None
                            | e # rest \<Rightarrow>
                                if e = CHR '','' then raw_members fuel (mput k r m) rest
                                else if e = CHR 0x7D then Some (mput k r m, rest)
                                else None)))"

text \<open>Nothing but space may follow the value.\<close>

definition complete :: "('a \<times> string) option \<Rightarrow> 'a option" where
  "complete r = (case r of None \<Rightarrow> None | Some (x, rest) \<Rightarrow> if skip_ws rest = [] then Some x else None)"

definition unmarshal_map :: "bytes \<Rightarrow> (string, bytes) gomap option option" where
  "unmarshal_map s =
     (case skip_ws s of
        [] \<Rightarrow> None
      | c # cs \<Rightarrow>
          if c = CHR 0x7B then
            (case skip_ws cs of
               [] \<Rightarrow> None
             | d # rest \<Rightarrow>
                 map_option Some (complete (if d = CHR 0x7D then Some ([], rest) else raw_members (length s) [] (d # rest))))
          else if HasPrefix (c # cs) ''null'' then complete (Some (None, drop 4 (c # cs)))
          else None)"

definition unmarshal_list :: "bytes \<Rightarrow> bytes list option" where
  "unmarshal_list s =
     (case skip_ws s of
        [] \<Rightarrow> None
      | c # cs \<Rightarrow>
          if c = CHR ''['' then
            (case skip_ws cs of
               [] \<Rightarrow> None
             | d # rest \<Rightarrow> complete (if d = CHR '']'' then Some ([], rest) else raw_items (length s) [] (d # rest)))
          else if HasPrefix (c # cs) ''null'' then complete (Some ([], drop 4 (c # cs)))
          else None)"

text \<open>
  \<open>json.Marshal\<close> compacts a raw value: space between tokens goes, the HTML characters and the line separators are
  escaped. \<open>inside\<close> says whether a string is open, \<open>esc\<close> whether its last character was a backslash.
\<close>

fun compact :: "bool \<Rightarrow> bool \<Rightarrow> string \<Rightarrow> string" where
  "compact inside es [] = []"
| "compact inside es (c # cs) =
     (if c = CHR ''<'' \<or> c = CHR ''>'' \<or> c = CHR ''&'' then html_escape [c] @ compact inside False cs
      else if c = CHR 0xE2 \<and> (take 2 cs = [CHR 0x80, CHR 0xA8] \<or> take 2 cs = [CHR 0x80, CHR 0xA9])
      then (bslash # (if take 2 cs = [CHR 0x80, CHR 0xA8] then ''u2028'' else ''u2029'')) @ compact inside False (drop 2 cs)
      else if \<not> inside \<and> is_space c then compact inside False cs
      else c # compact (if c = quot \<and> \<not> es then \<not> inside else inside) (inside \<and> c = bslash \<and> \<not> es) cs)"

definition raw_text :: "bytes \<Rightarrow> string" where
  "raw_text r = (if r = [] then ''null'' else compact False False r)"

definition marshal_list :: "bytes list \<Rightarrow> bytes" where
  "marshal_list rs = CHR ''['' # join '','' (map raw_text rs) @ '']''"

definition marshal_map :: "(string, bytes) gomap option \<Rightarrow> bytes" where
  "marshal_map m =
     (case m of
        None \<Rightarrow> ''null''
      | Some m \<Rightarrow>
          CHR 0x7B # join '','' (map (\<lambda>k. member_text True k (raw_text (case map_of m k of Some r \<Rightarrow> r | None \<Rightarrow> [])))
            (sorted_keys m)) @ [CHR 0x7D])"

section \<open>Datastore\<close>

text \<open>Keys are a kind and a name, in the one namespace the code uses.\<close>

type_synonym ds_key = "string \<times> string"

record lpState =
  st_Version :: i64
  st_Records :: nat
  st_Chunks :: nat
  st_UpdatedAt :: int

record lpGroup =
  lg_Name :: string
  lg_CreatedAt :: int
  lg_Currency :: string
  lg_Symbol :: string
  lg_EmptySince :: "int option"

datatype entity = EState lpState | EBlob bytes | EToken string | EGroup lpGroup

datatype ds_write = Put ds_key entity | Del ds_key

datatype store_error =
    ErrConflict
  | LedgerShrank nat nat
  | BadJSON
  | Datastore string
  | Context string store_error
  | NilMap

text \<open>The body of a transaction: from what it reads, an error, or what it writes and a result.\<close>

type_synonym tx_body = "(ds_key \<Rightarrow> store_error + entity option) \<Rightarrow> store_error + ds_write list \<times> entity"

record 'd datastore =
  ds_get :: "ds_key \<Rightarrow> 'd \<Rightarrow> store_error + entity option"
  ds_get_multi :: "ds_key list \<Rightarrow> 'd \<Rightarrow> store_error + entity list"
  ds_put_multi :: "(ds_key \<times> entity) list \<Rightarrow> 'd \<Rightarrow> store_error option \<times> 'd"
  ds_delete_multi :: "ds_key list \<Rightarrow> 'd \<Rightarrow> store_error option \<times> 'd"
  ds_transact :: "tx_body \<Rightarrow> 'd \<Rightarrow> (store_error + entity) \<times> 'd"

fun apply_writes :: "ds_write list \<Rightarrow> (ds_key \<Rightarrow> entity option) \<Rightarrow> ds_key \<Rightarrow> entity option" where
  "apply_writes [] m = m"
| "apply_writes (Put k e # ws) m = apply_writes ws (m(k \<mapsto> e))"
| "apply_writes (Del k # ws) m = apply_writes ws (m(k := None))"

text \<open>
  What is documented: a read that succeeds is of the current entities, and a batch read only succeeds when all
  are there; a batch write or delete that succeeds is complete, one that fails may have touched any of its keys; a
  transaction sees and changes the entities at one moment or not at all, fails when its body fails, and when
  the commit fails it may still have been applied.
\<close>

definition datastore_ok :: "'d datastore \<Rightarrow> ('d \<Rightarrow> ds_key \<Rightarrow> entity option) \<Rightarrow> bool" where
  "datastore_ok D view \<longleftrightarrow>
     (\<forall>k d e. ds_get D k d = Inr e \<longrightarrow> e = view d k) \<and>
     (\<forall>ks d es. ds_get_multi D ks d = Inr es \<longrightarrow> map (view d) ks = map Some es) \<and>
     (\<forall>kvs d d'. ds_put_multi D kvs d = (None, d') \<longrightarrow> view d' = view d ++ map_of (rev kvs)) \<and>
     (\<forall>kvs d d' e k. ds_put_multi D kvs d = (Some e, d') \<longrightarrow> view d' k = view d k \<or> (\<exists>v. (k, v) \<in> set kvs \<and> view d' k = Some v)) \<and>
     (\<forall>ks d d'. ds_delete_multi D ks d = (None, d') \<longrightarrow> view d' = (\<lambda>k. if k \<in> set ks then None else view d k)) \<and>
     (\<forall>ks d d' e k. ds_delete_multi D ks d = (Some e, d') \<longrightarrow> view d' k = view d k \<or> k \<in> set ks \<and> view d' k = None) \<and>
     (\<forall>body d r d'. ds_transact D body d = (r, d') \<longrightarrow>
        (case body (\<lambda>k. Inr (view d k)) of
           Inl e \<Rightarrow> (\<exists>e'. r = Inl e') \<and> view d' = view d
         | Inr (ws, x) \<Rightarrow>
             r = Inr x \<and> view d' = apply_writes ws (view d) \<or>
             (\<exists>e'. r = Inl e') \<and> (view d' = view d \<or> view d' = apply_writes ws (view d))))"

section \<open>The store\<close>

record DSStore =
  s_node :: string
  s_version :: i64
  s_records :: nat

definition NewDSStore :: "string \<Rightarrow> DSStore" where
  "NewDSStore node = \<lparr>s_node = node, s_version = 0, s_records = 0\<rparr>"

definition chunkSize :: nat where
  "chunkSize = 900000"

definition putBatch :: nat where
  "putBatch = 500"

text \<open>\<open>%012d\<close> and \<open>%04d\<close>.\<close>

definition pad :: "nat \<Rightarrow> nat \<Rightarrow> string" where
  "pad w i = (let d = dec_int (int i) in replicate (w - length d) (CHR ''0'') @ d)"

definition stateKey :: "string \<Rightarrow> ds_key" where
  "stateKey node = (''LPState'', node)"

definition recordKey :: "string \<Rightarrow> nat \<Rightarrow> ds_key" where
  "recordKey node i = (''LPRecord'', node @ ''/'' @ pad 12 i)"

definition chunkKey :: "string \<Rightarrow> nat \<Rightarrow> ds_key" where
  "chunkKey node i = (''LPStateChunk'', node @ ''/'' @ pad 4 i)"

definition blob_data :: "entity \<Rightarrow> bytes" where
  "blob_data e = (case e of EBlob b \<Rightarrow> b | _ \<Rightarrow> [])"

text \<open>\<open>getBlobs\<close>: the entities \<open>i\<close> to \<open>n - 1\<close>, a thousand at a time.\<close>

function getBlobs_from :: "'d datastore \<Rightarrow> (nat \<Rightarrow> ds_key) \<Rightarrow> nat \<Rightarrow> nat \<Rightarrow> bytes list \<Rightarrow> 'd \<Rightarrow> store_error + bytes list" where
  "getBlobs_from D key n i out d =
     (if n \<le> i then Inr out
      else case ds_get_multi D (map key [i..<min (i + 1000) n]) d of
          Inl e \<Rightarrow> Inl e
        | Inr vals \<Rightarrow> getBlobs_from D key n (i + 1000) (out @ map blob_data vals) d)"
  by pat_completeness auto
termination
  by (relation "measure (\<lambda>(D, key, n, i, out, d). n - i)") auto

declare getBlobs_from.simps [simp del]

definition getBlobs :: "'d datastore \<Rightarrow> nat \<Rightarrow> (nat \<Rightarrow> ds_key) \<Rightarrow> 'd \<Rightarrow> store_error + bytes list" where
  "getBlobs D n key d = getBlobs_from D key n 0 [] d"

definition DSStore_Load :: "'d datastore \<Rightarrow> DSStore \<Rightarrow> 'd \<Rightarrow> (store_error + bytes option) \<times> DSStore" where
  "DSStore_Load D s d =
     (case ds_get D (stateKey (s_node s)) d of
        Inl e \<Rightarrow> (Inl e, s)
      | Inr None \<Rightarrow> (Inr None, s\<lparr>s_version := 0, s_records := 0\<rparr>)
      | Inr (Some ent) \<Rightarrow>
          (case ent of EState st \<Rightarrow>
             (case getBlobs D (st_Chunks st) (chunkKey (s_node s)) d of
                Inl e \<Rightarrow> (Inl (Context ''lp store: state chunks'' e), s)
              | Inr rest \<Rightarrow>
                  (case unmarshal_map (concat rest) of
                     None \<Rightarrow> (Inl (Context ''lp store: state'' BadJSON), s)
                   | Some m \<Rightarrow>
                       (case getBlobs D (st_Records st) (recordKey (s_node s)) d of
                          Inl e \<Rightarrow> (Inl (Context ''lp store: ledger'' e), s)
                        | Inr recs \<Rightarrow>
                            (case m of
                               None \<Rightarrow> (Inl NilMap, s)
                             | Some m \<Rightarrow>
                                 (Inr (Some (marshal_map (Some (mput ''ledger'' (marshal_list recs) m)))),
                                  s\<lparr>s_version := st_Version st, s_records := st_Records st\<rparr>)))))
           | _ \<Rightarrow> (Inl (Datastore ''type mismatch''), s)))"

text \<open>The new records, in batches.\<close>

function put_records :: "'d datastore \<Rightarrow> string \<Rightarrow> bytes list \<Rightarrow> nat \<Rightarrow> 'd \<Rightarrow> store_error option \<times> 'd" where
  "put_records D node recs i d =
     (if length recs \<le> i then (None, d)
      else case ds_put_multi D (map (\<lambda>j. (recordKey node j, EBlob (recs ! j))) [i..<min (i + putBatch) (length recs)]) d of
          (Some e, d) \<Rightarrow> (Some (Context ''lp store: ledger records'' e), d)
        | (None, d) \<Rightarrow> put_records D node recs (i + putBatch) d)"
  by pat_completeness auto
termination
  by (relation "measure (\<lambda>(D, node, recs, i, d). length recs - i)") (auto simp: putBatch_def)

declare put_records.simps [simp del]

function chunks :: "bytes \<Rightarrow> bytes list" where
  "chunks s = (if s = [] then [] else take chunkSize s # chunks (drop chunkSize s))"
  by pat_completeness auto
termination
  by (relation "measure length") (auto simp: chunkSize_def)

declare chunks.simps [simp del]

definition no_state :: lpState where
  "no_state = \<lparr>st_Version = 0, st_Records = 0, st_Chunks = 0, st_UpdatedAt = 0\<rparr>"

definition save_body :: "DSStore \<Rightarrow> bytes list \<Rightarrow> nat \<Rightarrow> int \<Rightarrow> tx_body" where
  "save_body s cs nrecs now get =
     (case get (stateKey (s_node s)) of
        Inl e \<Rightarrow> Inl e
      | Inr ent \<Rightarrow>
          (case (case ent of None \<Rightarrow> Some no_state | Some (EState st) \<Rightarrow> Some st | _ \<Rightarrow> None) of
             None \<Rightarrow> Inl (Datastore ''type mismatch'')
           | Some st \<Rightarrow>
               if st_Version st \<noteq> s_version s then Inl ErrConflict
               else
                 let new = EState \<lparr>st_Version = st_Version st + 1, st_Records = nrecs, st_Chunks = length cs, st_UpdatedAt = now\<rparr>
                 in Inr (map (\<lambda>i. Put (chunkKey (s_node s) i) (EBlob (cs ! i))) [0..<length cs] @
                         map (\<lambda>i. Del (chunkKey (s_node s) i)) [length cs..<st_Chunks st] @
                         [Put (stateKey (s_node s)) new], new)))"

definition raw_ledger :: "(string, bytes) gomap option \<Rightarrow> bytes list option" where
  "raw_ledger m =
     (case m of
        None \<Rightarrow> Some []
      | Some m \<Rightarrow> (case map_of m ''ledger'' of None \<Rightarrow> Some [] | Some [] \<Rightarrow> Some [] | Some l \<Rightarrow> unmarshal_list l))"

definition Save :: "'d datastore \<Rightarrow> bytes \<Rightarrow> int \<Rightarrow> DSStore \<Rightarrow> 'd \<Rightarrow> (store_error + unit) \<times> DSStore \<times> 'd" where
  "Save D data now s d =
     (case unmarshal_map data of
        None \<Rightarrow> (Inl BadJSON, s, d)
      | Some m \<Rightarrow>
          (case raw_ledger m of
             None \<Rightarrow> (Inl BadJSON, s, d)
           | Some recs \<Rightarrow>
               if length recs < s_records s then (Inl (LedgerShrank (s_records s) (length recs)), s, d)
               else
                 let rest = marshal_map (map_option (mdel ''ledger'') m)
                 in case put_records D (s_node s) recs (s_records s) d of
                     (Some e, d) \<Rightarrow> (Inl e, s, d)
                   | (None, d) \<Rightarrow>
                       (case ds_transact D (save_body s (chunks rest) (length recs) now) d of
                          (Inl e, d) \<Rightarrow> (Inl e, s, d)
                        | (Inr new, d) \<Rightarrow>
                            (Inr (),
                             (case new of EState st \<Rightarrow> s\<lparr>s_version := st_Version st, s_records := length recs\<rparr> | _ \<Rightarrow> s), d))))"

function delete_batches :: "'d datastore \<Rightarrow> ds_key list \<Rightarrow> 'd \<Rightarrow> store_error option \<times> 'd" where
  "delete_batches D ks d =
     (if ks = [] then (None, d)
      else case ds_delete_multi D (take putBatch ks) d of
          (Some e, d) \<Rightarrow> (Some e, d)
        | (None, d) \<Rightarrow> delete_batches D (drop putBatch ks) d)"
  by pat_completeness auto
termination
  by (relation "measure (\<lambda>(D, ks, d). length ks)") (auto simp: putBatch_def)

declare delete_batches.simps [simp del]

definition Delete :: "'d datastore \<Rightarrow> DSStore \<Rightarrow> 'd \<Rightarrow> store_error option \<times> 'd" where
  "Delete D s d =
     (case ds_get D (stateKey (s_node s)) d of
        Inl e \<Rightarrow> (Some e, d)
      | Inr None \<Rightarrow> (None, d)
      | Inr (Some ent) \<Rightarrow>
          (case ent of EState st \<Rightarrow>
             delete_batches D (map (recordKey (s_node s)) [0..<st_Records st] @ map (chunkKey (s_node s)) [0..<st_Chunks st] @
               [stateKey (s_node s)]) d
           | _ \<Rightarrow> (Some (Datastore ''type mismatch''), d)))"

text \<open>The token of the administrator, made on first use.\<close>

definition token_body :: "lib \<Rightarrow> nat \<Rightarrow> string \<Rightarrow> tx_body" where
  "token_body L i node get =
     (case get (''LPConfig'', node) of
        Inl e \<Rightarrow> Inl e
      | Inr ent \<Rightarrow>
          let fresh = EToken (hex (rand_read L i 32))
          in case ent of
               Some (EToken t) \<Rightarrow> if t \<noteq> [] then Inr ([], EToken t) else Inr ([Put (''LPConfig'', node) fresh], fresh)
             | None \<Rightarrow> Inr ([Put (''LPConfig'', node) fresh], fresh)
             | _ \<Rightarrow> Inl (Datastore ''type mismatch''))"

definition adminToken :: "lib \<Rightarrow> nat \<Rightarrow> 'd datastore \<Rightarrow> string \<Rightarrow> 'd \<Rightarrow> (store_error + string) \<times> 'd" where
  "adminToken L i D node d =
     (case ds_transact D (token_body L i node) d of
        (Inl e, d) \<Rightarrow> (Inl e, d)
      | (Inr ent, d) \<Rightarrow> (Inr (case ent of EToken t \<Rightarrow> t | _ \<Rightarrow> []), d))"

section \<open>Raw values written and read\<close>

text \<open>A raw value as \<open>json.Marshal\<close> leaves it: well formed, without space, with everything escaped.\<close>

definition raw_ok :: "bytes \<Rightarrow> bool" where
  "raw_ok r \<longleftrightarrow> r \<noteq> [] \<and> skip_ws r = r \<and> compact False False r = r \<and>
     (\<exists>v. read_value (2 * length r + 2) (max_depth - 1) r = Some (v, []))"

lemma raw_text_ok [simp]: "raw_ok r \<Longrightarrow> raw_text r = r"
  by (simp add: raw_text_def raw_ok_def)

lemma raw_value_ok:
  assumes "raw_ok r" "num_ends x"
  shows "raw_value (r @ x) = Some (r, x)"
proof -
  obtain v where v: "read_value (2 * length r + 2) (max_depth - 1) r = Some (v, [])"
    using assms(1) by (auto simp: raw_ok_def)
  have "read_value (2 * length (r @ x) + 2) (max_depth - 1) r = Some (v, [])"
    by (rule read_value_enough [OF _ v]) simp_all
  then have "read_value (2 * length (r @ x) + 2) (max_depth - 1) (r @ x) = Some (v, x)"
    using read_value_append(1) [OF assms(2)] by fastforce
  moreover obtain c cs where "r = c # cs" "skip_ws r = c # cs"
    using assms(1) by (cases r) (auto simp: raw_ok_def)
  then have "skip_ws (r @ x) = r @ x"
    using skip_ws_append [of r c cs x] by simp
  ultimately show ?thesis
    by (simp add: raw_value_def Let_def)
qed

lemma raw_items_join:
  "\<forall>r \<in> set rs. raw_ok r \<Longrightarrow> rs \<noteq> [] \<Longrightarrow> length rs \<le> fuel \<Longrightarrow>
     raw_items fuel ws (join '','' rs @ CHR '']'' # x) = Some (ws @ rs, x)"
proof (induction rs arbitrary: ws fuel)
  case (Cons r rs)
  then obtain g where g: "fuel = Suc g"
    by (cases fuel) auto
  show ?case
  proof (cases "rs = []")
    case True
    then show ?thesis
      using Cons.prems g raw_value_ok [of r "CHR '']'' # x"] by simp
  next
    case False
    then show ?thesis
      using Cons g raw_value_ok [of r "CHR '','' # join '','' rs @ CHR '']'' # x"] by (simp add: join_Cons)
  qed
qed simp

lemma raw_ok_start: "raw_ok r \<Longrightarrow> \<exists>c cs. r = c # cs \<and> skip_ws (r @ x) = c # cs @ x \<and> c \<noteq> CHR '']'' \<and> c \<noteq> CHR 0x7D"
proof -
  assume r: "raw_ok r"
  then obtain v where "read_value (2 * length r + 2) (max_depth - 1) r = Some (v, [])"
    by (auto simp: raw_ok_def)
  then obtain c cs where "skip_ws r = c # cs" "c \<noteq> CHR '']''" "c \<noteq> CHR 0x7D"
    by (rule read_value_start)
  then show ?thesis
    using r skip_ws_append [of r c cs x] by (auto simp: raw_ok_def)
qed

lemma length_join: "\<forall>s \<in> set ss. s \<noteq> [] \<Longrightarrow> length ss \<le> length (join '','' ss)"
proof (induction ss rule: induct_list012)
  case (2 s)
  then show ?case
    by (cases s) auto
next
  case (3 s t ss)
  then show ?case
    by (cases s) auto
qed simp

lemma unmarshal_marshal_list:
  assumes "\<forall>r \<in> set rs. raw_ok r"
  shows "unmarshal_list (marshal_list rs) = Some rs"
proof -
  have t: "map raw_text rs = rs"
    using assms by (simp add: map_idI)
  have start: "skip_ws (CHR ''['' # s) = CHR ''['' # s" for s
    by (simp add: skip_ws_def is_space_def)
  show ?thesis
  proof (cases rs)
    case Nil
    then show ?thesis
      using start by (simp add: unmarshal_list_def marshal_list_def complete_def) (simp add: skip_ws_def)
  next
    case (Cons r rs')
    let ?s = "join '','' rs @ CHR '']'' # []"
    obtain y where y: "?s = r @ y"
      using Cons by (cases "rs' = []") (auto simp: join_Cons)
    obtain c cs where c: "r = c # cs" "skip_ws (r @ y) = c # cs @ y" "c \<noteq> CHR '']''"
      using raw_ok_start [of r y] assms Cons by auto
    have "\<forall>r \<in> set rs. r \<noteq> []"
      using assms by (auto simp: raw_ok_def)
    then have "length rs \<le> Suc (length ?s)"
      using length_join [of rs] by simp
    then have "raw_items (Suc (length ?s)) [] ?s = Some (rs, [])"
      using raw_items_join [of rs "Suc (length ?s)" "[]" "[]"] assms Cons by simp
    then show ?thesis
      using start y c t by (simp add: unmarshal_list_def marshal_list_def complete_def) (simp add: skip_ws_def)
  qed
qed

definition raws_ok :: "(string, bytes) gomap \<Rightarrow> bool" where
  "raws_ok m \<longleftrightarrow> (\<forall>kr \<in> set m. valid_utf8 (fst kr) \<and> raw_ok (snd kr))"

lemma raw_members_join:
  "\<forall>kr \<in> set krs. valid_utf8 (fst kr) \<and> raw_ok (snd kr) \<Longrightarrow> krs \<noteq> [] \<Longrightarrow> length krs \<le> fuel \<Longrightarrow>
     distinct (map fst (ws @ krs)) \<Longrightarrow>
     raw_members fuel ws (join '','' (map (\<lambda>kr. member_text True (fst kr) (snd kr)) krs) @ CHR 0x7D # x) = Some (ws @ krs, x)"
proof (induction krs arbitrary: ws fuel)
  case (Cons kr krs)
  obtain k r where kr: "kr = (k, r)"
    by (cases kr)
  obtain g where g: "fuel = Suc g"
    using Cons.prems(3) by (cases fuel) auto
  have new: "mput k r ws = ws @ [(k, r)]"
    using Cons.prems(4) kr by (intro mput_new) auto
  have key: "read_string (esc True (quote_body k) @ quot # y) = Some (k, y)" for y
    using Cons.prems(1) kr by (intro read_quoted) auto
  have r: "raw_ok r"
    using Cons.prems(1) kr by simp
  show ?case
  proof (cases "krs = []")
    case True
    then show ?thesis
      using kr g new key raw_value_ok [OF r, of "CHR 0x7D # x"] by (simp add: member_text_def esc_quote)
  next
    case False
    let ?more = "CHR '','' # join '','' (map (\<lambda>kr. member_text True (fst kr) (snd kr)) krs) @ CHR 0x7D # x"
    have "raw_members g (ws @ [(k, r)]) (join '','' (map (\<lambda>kr. member_text True (fst kr) (snd kr)) krs) @ CHR 0x7D # x) =
        Some ((ws @ [(k, r)]) @ krs, x)"
      using Cons.prems False g kr by (intro Cons.IH) auto
    then show ?thesis
      using False kr g new key raw_value_ok [OF r, of ?more] by (simp add: member_text_def esc_quote join_Cons)
  qed
qed simp

definition sorted_map :: "(string, 'v) gomap \<Rightarrow> (string, 'v) gomap" where
  "sorted_map m = map (\<lambda>k. (k, the (map_of m k))) (sorted_keys m)"

lemma map_of_sorted_map [simp]: "map_of (sorted_map m) k = map_of m k"
proof -
  have "map_of (map (\<lambda>k. (k, f k)) ks) k = (if k \<in> set ks then Some (f k) else None)" for f :: "string \<Rightarrow> 'a" and ks
    by (induction ks) auto
  moreover have "k \<in> fst ` set m \<longleftrightarrow> map_of m k \<noteq> None"
    by (simp add: map_of_eq_None_iff)
  ultimately show ?thesis
    by (cases "map_of m k") (simp_all add: sorted_map_def)
qed

lemma unmarshal_marshal_map:
  assumes "raws_ok m"
  shows "unmarshal_map (marshal_map (Some m)) = Some (Some (sorted_map m))"
proof -
  have ok: "\<forall>kr \<in> set (sorted_map m). valid_utf8 (fst kr) \<and> raw_ok (snd kr)"
  proof
    fix kr
    assume "kr \<in> set (sorted_map m)"
    then have "kr \<in> set m"
      by (auto simp: sorted_map_def dest!: weak_map_of_SomeI intro: map_of_SomeD)
    then show "valid_utf8 (fst kr) \<and> raw_ok (snd kr)"
      using assms by (auto simp: raws_ok_def)
  qed
  have one: "raw_text (case map_of m k of Some r \<Rightarrow> r | None \<Rightarrow> []) = the (map_of m k)" if "k \<in> set (sorted_keys m)" for k
  proof -
    obtain r where "map_of m k = Some r"
      using \<open>k \<in> set (sorted_keys m)\<close> by (auto dest!: weak_map_of_SomeI)
    then show ?thesis
      using assms by (auto simp: raws_ok_def dest!: map_of_SomeD)
  qed
  have "map (\<lambda>k. member_text True k (raw_text (case map_of m k of Some r \<Rightarrow> r | None \<Rightarrow> []))) (sorted_keys m) =
      map (\<lambda>k. member_text True k (the (map_of m k))) (sorted_keys m)"
    by (rule map_cong [OF refl]) (simp only: one)
  then have written: "marshal_map (Some m) =
      CHR 0x7B # join '','' (map (\<lambda>kr. member_text True (fst kr) (snd kr)) (sorted_map m)) @ [CHR 0x7D]"
    by (simp only: marshal_map_def option.case sorted_map_def map_map comp_def fst_conv snd_conv)
  have start: "skip_ws (CHR 0x7B # s) = CHR 0x7B # s" for s
    by (simp add: skip_ws_def is_space_def)
  show ?thesis
  proof (cases "sorted_map m")
    case Nil
    then show ?thesis
      using start written by (simp add: unmarshal_map_def complete_def) (simp add: skip_ws_def)
  next
    case (Cons kr krs)
    let ?ts = "map (\<lambda>kr. member_text True (fst kr) (snd kr)) (sorted_map m)"
    let ?s = "join '','' ?ts @ CHR 0x7D # []"
    have "length ?ts \<le> length (join '','' ?ts)"
      by (rule length_join) (auto simp: member_text_def esc_quote)
    then have len: "length (sorted_map m) \<le> Suc (length ?s)"
      by simp
    have "distinct (map fst ([] @ sorted_map m))"
      by (simp add: sorted_map_def comp_def)
    then have "raw_members (Suc (length ?s)) [] ?s = Some (sorted_map m, [])"
      using raw_members_join [OF ok _ len, of "[]" "[]"] Cons by simp
    moreover obtain y where "?s = quot # y"
      using Cons by (cases krs) (auto simp: member_text_def esc_quote)
    ultimately show ?thesis
      using start written by (simp add: unmarshal_map_def complete_def) (simp add: skip_ws_def quot_def)
  qed
qed

end
