(* ===== verification/LP_DSLaws.thy ===== *)
theory LP_DSLaws
  imports LP_DSStore
begin

text \<open>
  What the snapshot store promises over a Datastore that does what its documentation says: a save compares the
  version and sets the contents at once, a load returns what was saved, nodes do not touch each other.
\<close>

section \<open>Keys\<close>

lemma pad_inject:
  assumes "pad w i = pad w j"
  shows "i = j"
proof -
  have val: "read_dec 0 (pad w n) = int n" for n
  proof -
    have zeros: "read_dec 0 (replicate m (CHR ''0'') @ s) = read_dec 0 s" for m s
      by (induction m) (simp_all add: digit_val_def)
    show ?thesis
      using read_dec_dec_pos [of "int n"] by (simp add: pad_def Let_def zeros dec_int_def)
  qed
  have "int i = int j"
    using val [of i] val [of j] assms by metis
  then show ?thesis
    by simp
qed

lemma pad_no_slash: "CHR ''/'' \<notin> set (pad w i)"
proof -
  have "CHR ''/'' \<notin> set (dec_pos (int i))"
    using dec_pos_digits [of "int i" "CHR ''/''"] by (auto simp: is_digit_def)
  then show ?thesis
    by (auto simp: pad_def Let_def dec_int_def)
qed

lemma last_slash:
  assumes "CHR ''/'' \<notin> set p" "CHR ''/'' \<notin> set q" "a @ CHR ''/'' # p = b @ CHR ''/'' # q"
  shows "a = b \<and> p = q"
proof -
  have "CHR ''/'' \<notin> set p \<Longrightarrow> CHR ''/'' \<notin> set q \<Longrightarrow> p @ CHR ''/'' # a = q @ CHR ''/'' # b \<Longrightarrow> p = q \<and> a = b" for p q a b
    by (induction p arbitrary: q) (auto simp: Cons_eq_append_conv)
  moreover have "rev p @ CHR ''/'' # rev a = rev q @ CHR ''/'' # rev b"
    using arg_cong [OF assms(3), of rev] by simp
  ultimately have "rev p = rev q \<and> rev a = rev b"
    using assms(1,2) by (metis set_rev)
  then show ?thesis
    by simp
qed

lemma recordKey_eq [simp]: "recordKey n i = recordKey m j \<longleftrightarrow> n = m \<and> i = j"
  using last_slash [OF pad_no_slash pad_no_slash, of n 12 i m 12 j] pad_inject [of 12 i j]
  by (auto simp: recordKey_def)

lemma chunkKey_eq [simp]: "chunkKey n i = chunkKey m j \<longleftrightarrow> n = m \<and> i = j"
  using last_slash [OF pad_no_slash pad_no_slash, of n 4 i m 4 j] pad_inject [of 4 i j]
  by (auto simp: chunkKey_def)

lemma stateKey_eq [simp]: "stateKey n = stateKey m \<longleftrightarrow> n = m"
  by (simp add: stateKey_def)

lemma key_kinds [simp]:
  "recordKey n i \<noteq> chunkKey m j" "chunkKey m j \<noteq> recordKey n i" "stateKey n \<noteq> recordKey m i"
  "recordKey m i \<noteq> stateKey n" "stateKey n \<noteq> chunkKey m i" "chunkKey m i \<noteq> stateKey n"
  by (simp_all add: recordKey_def chunkKey_def stateKey_def)

section \<open>The laws, one by one\<close>

lemma ds_get_ok: "datastore_ok D view \<Longrightarrow> ds_get D k d = Inr e \<Longrightarrow> e = view d k"
  unfolding datastore_ok_def by (elim conjE) metis

lemma ds_multi_ok: "datastore_ok D view \<Longrightarrow> ds_get_multi D ks d = Inr es \<Longrightarrow> map (view d) ks = map Some es"
  unfolding datastore_ok_def by (elim conjE) metis

lemma ds_put_ok: "datastore_ok D view \<Longrightarrow> ds_put_multi D kvs d = (None, d') \<Longrightarrow> view d' = view d ++ map_of (rev kvs)"
  unfolding datastore_ok_def by (elim conjE) metis

lemma ds_put_some:
  "datastore_ok D view \<Longrightarrow> ds_put_multi D kvs d = (Some e, d') \<Longrightarrow>
     view d' k = view d k \<or> (\<exists>v. (k, v) \<in> set kvs \<and> view d' k = Some v)"
  unfolding datastore_ok_def by (elim conjE) metis

lemma ds_delete_ok:
  "datastore_ok D view \<Longrightarrow> ds_delete_multi D ks d = (None, d') \<Longrightarrow> view d' = (\<lambda>k. if k \<in> set ks then None else view d k)"
  unfolding datastore_ok_def by (elim conjE) metis

lemma ds_delete_some:
  "datastore_ok D view \<Longrightarrow> ds_delete_multi D ks d = (Some e, d') \<Longrightarrow> view d' k = view d k \<or> k \<in> set ks \<and> view d' k = None"
  unfolding datastore_ok_def by (elim conjE) metis

lemma ds_transact_law:
  assumes "datastore_ok D view" "ds_transact D body d = (r, d')"
  shows "case body (\<lambda>k. Inr (view d k)) of
      Inl e \<Rightarrow> (\<exists>e'. r = Inl e') \<and> view d' = view d
    | Inr (ws, x) \<Rightarrow>
        r = Inr x \<and> view d' = apply_writes ws (view d) \<or>
        (\<exists>e'. r = Inl e') \<and> (view d' = view d \<or> view d' = apply_writes ws (view d))"
  using assms(1) unfolding datastore_ok_def
  by (elim conjE) (drule spec [of _ body], drule spec [of _ d], drule spec [of _ r], drule spec [of _ d'], erule mp, rule assms(2))

lemma ds_transact_refused:
  "datastore_ok D view \<Longrightarrow> ds_transact D body d = (r, d') \<Longrightarrow> body (\<lambda>k. Inr (view d k)) = Inl e \<Longrightarrow>
     (\<exists>e'. r = Inl e') \<and> view d' = view d"
  by (drule (1) ds_transact_law) simp

lemma ds_transact_done:
  "datastore_ok D view \<Longrightarrow> ds_transact D body d = (r, d') \<Longrightarrow> body (\<lambda>k. Inr (view d k)) = Inr (ws, x) \<Longrightarrow>
     r = Inr x \<and> view d' = apply_writes ws (view d) \<or>
     (\<exists>e'. r = Inl e') \<and> (view d' = view d \<or> view d' = apply_writes ws (view d))"
  by (drule (1) ds_transact_law) simp

section \<open>The contents of the store\<close>

text \<open>What the entities of a node say: the version, the text of the state and the texts of the records.\<close>

definition blob_at :: "(ds_key \<Rightarrow> entity option) \<Rightarrow> ds_key \<Rightarrow> bytes" where
  "blob_at m k = (case m k of Some e \<Rightarrow> blob_data e | None \<Rightarrow> [])"

definition contents :: "(ds_key \<Rightarrow> entity option) \<Rightarrow> string \<Rightarrow> (i64 \<times> bytes \<times> bytes list) option" where
  "contents m node =
     (case m (stateKey node) of
        Some (EState st) \<Rightarrow>
          Some (st_Version st, concat (map (\<lambda>i. blob_at m (chunkKey node i)) [0..<st_Chunks st]),
                map (\<lambda>i. blob_at m (recordKey node i)) [0..<st_Records st])
      | _ \<Rightarrow> None)"

lemma concat_chunks [simp]: "concat (chunks s) = s"
  by (induction s rule: chunks.induct) (subst chunks.simps, simp)

lemma getBlobs_ok:
  assumes D: "datastore_ok D view" and get: "getBlobs D n key d = Inr bs"
  shows "bs = map (\<lambda>i. blob_at (view d) (key i)) [0..<n]"
proof -
  have multi: "map blob_data es = map (blob_at (view d)) ks" if "ds_get_multi D ks d = Inr es" for ks es
    using ds_multi_ok [OF D that] by (induction ks arbitrary: es) (auto simp: blob_at_def)
  have "getBlobs_from D key n i out d = Inr bs \<Longrightarrow> bs = out @ map (\<lambda>i. blob_at (view d) (key i)) [i..<n]" for i out
  proof (induction "n - i" arbitrary: i out rule: less_induct)
    case less
    show ?case
    proof (cases "n \<le> i")
      case True
      then show ?thesis
        using less.prems by (simp add: getBlobs_from.simps)
    next
      case False
      then obtain vals where v: "ds_get_multi D (map key [i..<min (i + 1000) n]) d = Inr vals"
        "getBlobs_from D key n (i + 1000) (out @ map blob_data vals) d = Inr bs"
        using less.prems by (subst (asm) getBlobs_from.simps) (auto split: sum.splits)
      have "bs = (out @ map blob_data vals) @ map (\<lambda>i. blob_at (view d) (key i)) [i + 1000..<n]"
        by (rule less.hyps [OF _ v(2)]) (use False in simp)
      moreover have "map blob_data vals = map (\<lambda>i. blob_at (view d) (key i)) [i..<min (i + 1000) n]"
        using multi [OF v(1)] by simp
      moreover have "[i..<n] = [i..<min (i + 1000) n] @ [i + 1000..<n]"
        using False upt_add_eq_append [of i "i + 1000" "n - (i + 1000)"] by (cases "i + 1000 \<le> n") (simp_all add: min_def)
      ultimately show ?thesis
        by simp
    qed
  qed
  from this [of 0 "[]"] show ?thesis
    using get by (simp add: getBlobs_def)
qed

text \<open>Putting records: all of them, or on an error some.\<close>

definition all_records :: "string \<Rightarrow> bytes list \<Rightarrow> nat \<Rightarrow> (ds_key \<Rightarrow> entity option) \<Rightarrow> (ds_key \<Rightarrow> entity option) \<Rightarrow> bool" where
  "all_records node recs i m m' \<longleftrightarrow>
     (\<forall>k. m' k = m k \<and> (\<forall>j. i \<le> j \<and> j < length recs \<longrightarrow> k \<noteq> recordKey node j) \<or>
        (\<exists>j. i \<le> j \<and> j < length recs \<and> k = recordKey node j \<and> m' k = Some (EBlob (recs ! j))))"

definition some_records :: "string \<Rightarrow> bytes list \<Rightarrow> nat \<Rightarrow> (ds_key \<Rightarrow> entity option) \<Rightarrow> (ds_key \<Rightarrow> entity option) \<Rightarrow> bool" where
  "some_records node recs i m m' \<longleftrightarrow>
     (\<forall>k. m' k = m k \<or> (\<exists>j. i \<le> j \<and> j < length recs \<and> k = recordKey node j \<and> m' k = Some (EBlob (recs ! j))))"

lemma all_records_some: "all_records node recs i m m' \<Longrightarrow> some_records node recs i m m'"
  unfolding all_records_def some_records_def by metis

lemma all_records_at: "all_records node recs i m m' \<Longrightarrow> i \<le> j \<Longrightarrow> j < length recs \<Longrightarrow> m' (recordKey node j) = Some (EBlob (recs ! j))"
  unfolding all_records_def by (drule spec [of _ "recordKey node j"]) auto

lemma some_records_other: "some_records node recs i m m' \<Longrightarrow> (\<And>j. i \<le> j \<Longrightarrow> k \<noteq> recordKey node j) \<Longrightarrow> m' k = m k"
  unfolding some_records_def by metis

lemma put_records_ok:
  assumes D: "datastore_ok D view"
  shows "put_records D node recs i d = (r, d') \<Longrightarrow>
    (if r = None then all_records node recs i (view d) (view d') else some_records node recs i (view d) (view d'))"
proof (induction "length recs - i" arbitrary: i d rule: less_induct)
  case less
  let ?n = "min (i + putBatch) (length recs)"
  let ?kvs = "map (\<lambda>j. (recordKey node j, EBlob (recs ! j))) [i..<?n]"
  have at: "map_of (rev ?kvs) (recordKey node j) = Some (EBlob (recs ! j))" if "i \<le> j" "j < ?n" for j
    by (rule map_of_is_SomeI) (use that in \<open>auto simp: rev_map distinct_map inj_on_def comp_def\<close>)
  have other: "map_of (rev ?kvs) k = None" if "\<And>j. i \<le> j \<Longrightarrow> j < ?n \<Longrightarrow> k \<noteq> recordKey node j" for k
    using that by (force simp: map_of_eq_None_iff)
  show ?case
  proof (cases "length recs \<le> i")
    case True
    then show ?thesis
      using less.prems by (auto simp: put_records.simps all_records_def)
  next
    case False
    show ?thesis
    proof (cases "ds_put_multi D ?kvs d")
      case (Pair x d1)
      show ?thesis
      proof (cases x)
        case (Some e)
        then have "put_records D node recs i d = (Some (Context ''lp store: ledger records'' e), d1)"
          using False Pair by (simp add: put_records.simps [of D node recs i d])
        then have "r = Some (Context ''lp store: ledger records'' e)" "d' = d1"
          using less.prems by simp_all
        then have "r \<noteq> None" "d' = d1"
          by simp_all
        then show ?thesis
          using ds_put_some [OF D Pair [unfolded Some]] by (fastforce simp: some_records_def)
      next
        case None
        have d1: "view d1 = view d ++ map_of (rev ?kvs)"
          by (rule ds_put_ok [OF D Pair [unfolded None]])
        have "put_records D node recs (i + putBatch) d1 = (r, d')"
          using less.prems False Pair None by (simp add: put_records.simps [of D node recs i d])
        moreover have "length recs - (i + putBatch) < length recs - i"
          using False by (simp add: putBatch_def)
        ultimately have rest: "if r = None then all_records node recs (i + putBatch) (view d1) (view d')
            else some_records node recs (i + putBatch) (view d1) (view d')"
          by (intro less.hyps)
        have first: "view d1 k = view d k \<and> (\<forall>j. i \<le> j \<and> j < ?n \<longrightarrow> k \<noteq> recordKey node j) \<or>
            (\<exists>j. i \<le> j \<and> j < ?n \<and> k = recordKey node j \<and> view d1 k = Some (EBlob (recs ! j)))" for k
        proof (cases "\<exists>j. i \<le> j \<and> j < ?n \<and> k = recordKey node j")
          case True
          then show ?thesis
            using at by (fastforce simp: d1 map_add_def)
        next
          case False
          then show ?thesis
            using other [of k] by (auto simp: d1 map_add_def)
        qed
        show ?thesis
        proof (cases "r = None")
          case True
          then have a: "all_records node recs (i + putBatch) (view d1) (view d')"
            using rest by simp
          have "view d' k = view d k \<and> (\<forall>j. i \<le> j \<and> j < length recs \<longrightarrow> k \<noteq> recordKey node j) \<or>
            (\<exists>j. i \<le> j \<and> j < length recs \<and> k = recordKey node j \<and> view d' k = Some (EBlob (recs ! j)))" for k
            using spec [OF a [unfolded all_records_def], of k]
          proof (elim disjE conjE exE)
            fix j
            assume "i + putBatch \<le> j" "j < length recs" "k = recordKey node j" "view d' k = Some (EBlob (recs ! j))"
            then show ?thesis
              by (intro disjI2 exI [of _ j]) simp
          next
            assume k: "view d' k = view d1 k" "\<forall>j. i + putBatch \<le> j \<and> j < length recs \<longrightarrow> k \<noteq> recordKey node j"
            show ?thesis
              using first [of k]
            proof (elim disjE conjE exE)
              fix j
              assume "i \<le> j" "j < ?n" "k = recordKey node j" "view d1 k = Some (EBlob (recs ! j))"
              then show ?thesis
                using k(1) by (intro disjI2 exI [of _ j]) simp
            next
              assume "view d1 k = view d k" "\<forall>j. i \<le> j \<and> j < ?n \<longrightarrow> k \<noteq> recordKey node j"
              then show ?thesis
                using k by (metis min_less_iff_conj not_le)
            qed
          qed
          then show ?thesis
            using True by (simp add: all_records_def)
        next
          case r: False
          then have a: "some_records node recs (i + putBatch) (view d1) (view d')"
            using rest by simp
          have "view d' k = view d k \<or>
            (\<exists>j. i \<le> j \<and> j < length recs \<and> k = recordKey node j \<and> view d' k = Some (EBlob (recs ! j)))" for k
            using spec [OF a [unfolded some_records_def], of k]
          proof (elim disjE conjE exE)
            fix j
            assume "i + putBatch \<le> j" "j < length recs" "k = recordKey node j" "view d' k = Some (EBlob (recs ! j))"
            then show ?thesis
              by (intro disjI2 exI [of _ j]) simp
          next
            assume "view d' k = view d1 k"
            then show ?thesis
              using first [of k] by (metis min_less_iff_conj)
          qed
          then show ?thesis
            using r by (simp only: some_records_def if_False) blast
        qed
      qed
    qed
  qed
qed

section \<open>What a transaction of a save writes\<close>

lemma apply_writes_append [simp]: "apply_writes (ws @ ws') m = apply_writes ws' (apply_writes ws m)"
  by (induction ws m rule: apply_writes.induct) (simp_all del: fun_upd_apply)

lemma apply_puts:
  "inj f \<Longrightarrow> apply_writes (map (\<lambda>i. Put (f i) (g i)) xs) m k = (if k \<in> f ` set xs then Some (g (inv f k)) else m k)"
  by (induction xs arbitrary: m) auto

lemma apply_dels: "apply_writes (map (\<lambda>i. Del (f i)) xs) m k = (if k \<in> f ` set xs then None else m k)"
  by (induction xs arbitrary: m) auto

lemma inj_chunkKey [simp]: "inj (chunkKey node)"
  by (rule injI) simp

definition save_writes :: "string \<Rightarrow> bytes list \<Rightarrow> nat \<Rightarrow> entity \<Rightarrow> ds_write list" where
  "save_writes node cs old new =
     map (\<lambda>i. Put (chunkKey node i) (EBlob (cs ! i))) [0..<length cs] @
     map (\<lambda>i. Del (chunkKey node i)) [length cs..<old] @ [Put (stateKey node) new]"

lemma save_writes_at:
  "apply_writes (save_writes node cs old new) m (stateKey node) = Some new"
  "i < length cs \<Longrightarrow> apply_writes (save_writes node cs old new) m (chunkKey node i) = Some (EBlob (cs ! i))"
  "apply_writes (save_writes node cs old new) m (recordKey node' j) = m (recordKey node' j)"
  "node' \<noteq> node \<Longrightarrow> apply_writes (save_writes node cs old new) m (stateKey node') = m (stateKey node')"
  "node' \<noteq> node \<Longrightarrow> apply_writes (save_writes node cs old new) m (chunkKey node' j) = m (chunkKey node' j)"
  by (auto simp: save_writes_def apply_puts apply_dels)

definition state_of :: "(ds_key \<Rightarrow> entity option) \<Rightarrow> string \<Rightarrow> lpState option" where
  "state_of m node = (case m (stateKey node) of None \<Rightarrow> Some no_state | Some (EState st) \<Rightarrow> Some st | _ \<Rightarrow> None)"

lemma save_body_cases:
  "save_body s cs nrecs now (\<lambda>k. Inr (m k)) =
     (case state_of m (s_node s) of
        None \<Rightarrow> Inl (Datastore ''type mismatch'')
      | Some st \<Rightarrow>
          if st_Version st \<noteq> s_version s then Inl ErrConflict
          else let new = EState \<lparr>st_Version = st_Version st + 1, st_Records = nrecs, st_Chunks = length cs, st_UpdatedAt = now\<rparr>
               in Inr (save_writes (s_node s) cs (st_Chunks st) new, new))"
  by (simp add: save_body_def state_of_def save_writes_def Let_def split: option.split entity.split)

lemma contents_state:
  "contents m node = None \<longleftrightarrow> (\<forall>st. m (stateKey node) \<noteq> Some (EState st))"
  "contents m node = Some (v, rest, recs) \<longleftrightarrow>
     (\<exists>st. m (stateKey node) = Some (EState st) \<and> st_Version st = v \<and>
        rest = concat (map (\<lambda>i. blob_at m (chunkKey node i)) [0..<st_Chunks st]) \<and>
        recs = map (\<lambda>i. blob_at m (recordKey node i)) [0..<st_Records st])"
  by (auto simp: contents_def split: option.splits entity.splits)

text \<open>The contents depend on the entities that the state counts, and on no others.\<close>

lemma contents_cong:
  assumes "m' (stateKey node) = m (stateKey node)"
    "\<And>i. m' (chunkKey node i) = m (chunkKey node i)"
    "\<And>i st. m (stateKey node) = Some (EState st) \<Longrightarrow> i < st_Records st \<Longrightarrow> m' (recordKey node i) = m (recordKey node i)"
  shows "contents m' node = contents m node"
  using assms by (auto simp: contents_def blob_at_def split: option.splits entity.splits)

section \<open>A save as an atomic compare-and-set\<close>

text \<open>What a snapshot text stands for: the text of the state without the ledger, and the records.\<close>

definition split_snapshot :: "bytes \<Rightarrow> (bytes \<times> bytes list) option" where
  "split_snapshot data =
     (case unmarshal_map data of
        None \<Rightarrow> None
      | Some m \<Rightarrow> map_option (\<lambda>recs. (marshal_map (map_option (mdel ''ledger'') m), recs)) (raw_ledger m))"

lemma Save_malformed: "split_snapshot data = None \<Longrightarrow> Save D data now s d = (Inl BadJSON, s, d)"
  by (auto simp: split_snapshot_def Save_def split: option.splits)

lemma Save_shrunk:
  "split_snapshot data = Some (rest, recs) \<Longrightarrow> length recs < s_records s \<Longrightarrow>
     Save D data now s d = (Inl (LedgerShrank (s_records s) (length recs)), s, d)"
  by (auto simp: split_snapshot_def Save_def split: option.splits)

lemma Save_cases:
  assumes "Save D data now s d = (r, s', d')" "split_snapshot data = Some (rest, recs)" "s_records s \<le> length recs"
  obtains (records) e where "put_records D (s_node s) recs (s_records s) d = (Some e, d')" "r = Inl e" "s' = s"
  | (refused) e d1 where "put_records D (s_node s) recs (s_records s) d = (None, d1)"
      "ds_transact D (save_body s (chunks rest) (length recs) now) d1 = (Inl e, d')" "r = Inl e" "s' = s"
  | (saved) x d1 where "put_records D (s_node s) recs (s_records s) d = (None, d1)"
      "ds_transact D (save_body s (chunks rest) (length recs) now) d1 = (Inr x, d')" "r = Inr ()"
      "s' = (case x of EState st \<Rightarrow> s\<lparr>s_version := st_Version st, s_records := length recs\<rparr> | _ \<Rightarrow> s)"
proof -
  obtain m where m: "unmarshal_map data = Some m" "raw_ledger m = Some recs"
    and rest: "rest = marshal_map (map_option (mdel ''ledger'') m)"
    using assms(2) by (auto simp: split_snapshot_def split: option.splits)
  have shrunk: "\<not> length recs < s_records s"
    using assms(3) by simp
  obtain o1 d1 where p: "put_records D (s_node s) recs (s_records s) d = (o1, d1)"
    by fastforce
  obtain t d2 where t: "ds_transact D (save_body s (chunks rest) (length recs) now) d1 = (t, d2)"
    by fastforce
  show ?thesis
  proof (cases o1)
    case (Some e)
    then show ?thesis
      using assms(1) m shrunk p by (intro records) (auto simp: Save_def Let_def)
  next
    case None
    show ?thesis
    proof (cases t)
      case (Inl e)
      then show ?thesis
        using assms(1) m shrunk p None t by (intro refused) (auto simp: Save_def Let_def rest)
    next
      case (Inr x)
      then show ?thesis
        using assms(1) m shrunk p None t by (intro saved) (auto simp: Save_def Let_def rest)
    qed
  qed
qed

text \<open>\<open>in_sync\<close>: the process last loaded or saved what the store holds.\<close>

definition in_sync :: "DSStore \<Rightarrow> (ds_key \<Rightarrow> entity option) \<Rightarrow> bool" where
  "in_sync s m \<longleftrightarrow>
     (case m (stateKey (s_node s)) of
        None \<Rightarrow> s_version s = 0 \<and> s_records s = 0
      | Some (EState st) \<Rightarrow> s_version s = st_Version st \<and> s_records s = st_Records st
      | _ \<Rightarrow> False)"

lemma in_sync_state: "in_sync s m \<Longrightarrow> \<exists>st. state_of m (s_node s) = Some st \<and> st_Version st = s_version s \<and> st_Records st = s_records s"
  by (auto simp: in_sync_def state_of_def no_state_def split: option.splits entity.splits)

lemma some_records_state: "some_records node recs i m m' \<Longrightarrow> m' (stateKey node') = m (stateKey node')"
  by (erule some_records_other) simp

lemma some_records_chunk: "some_records node recs i m m' \<Longrightarrow> m' (chunkKey node' j) = m (chunkKey node' j)"
  by (erule some_records_other) simp

lemma some_records_contents:
  assumes "some_records node recs i m m'"
    "node' \<noteq> node \<or> (\<forall>st. m (stateKey node) = Some (EState st) \<longrightarrow> st_Records st \<le> i)"
  shows "contents m' node' = contents m node'"
proof (rule contents_cong)
  show "m' (recordKey node' j) = m (recordKey node' j)" if "m (stateKey node') = Some (EState st)" "j < st_Records st" for j st
    by (rule some_records_other [OF assms(1)]) (use assms(2) that in auto)
qed (use assms(1) some_records_state some_records_chunk in auto)

lemma save_writes_other: "node' \<noteq> node \<Longrightarrow> contents (apply_writes (save_writes node cs old new) m) node' = contents m node'"
  by (rule contents_cong) (simp_all add: save_writes_at)

lemma save_writes_contents:
  assumes "\<And>j. j < length recs \<Longrightarrow> blob_at m (recordKey node j) = recs ! j"
  shows "contents (apply_writes (save_writes node (chunks rest) old
      (EState \<lparr>st_Version = v, st_Records = length recs, st_Chunks = length (chunks rest), st_UpdatedAt = now\<rparr>)) m) node =
    Some (v, rest, recs)"
proof -
  let ?m = "apply_writes (save_writes node (chunks rest) old
      (EState \<lparr>st_Version = v, st_Records = length recs, st_Chunks = length (chunks rest), st_UpdatedAt = now\<rparr>)) m"
  have "map (\<lambda>i. blob_at ?m (chunkKey node i)) [0..<length (chunks rest)] = chunks rest"
    by (rule nth_equalityI) (simp_all add: blob_at_def save_writes_at blob_data_def)
  moreover have "map (\<lambda>i. blob_at ?m (recordKey node i)) [0..<length recs] = recs"
    using assms by (intro nth_equalityI) (simp_all add: blob_at_def save_writes_at)
  ultimately show ?thesis
    by (simp add: contents_def save_writes_at)
qed

text \<open>The records a writer in sync puts are not counted yet, so until the transaction commits nothing is seen of them.\<close>

lemma put_records_unseen:
  assumes D: "datastore_ok D view" and sync: "in_sync s (view d)"
    and put: "put_records D (s_node s) recs (s_records s) d = (x, d1)"
  shows "contents (view d1) node' = contents (view d) node'" "in_sync s (view d1)"
proof -
  have w: "some_records (s_node s) recs (s_records s) (view d) (view d1)"
    using put_records_ok [OF D put] all_records_some by (cases x) auto
  have "\<forall>st. view d (stateKey (s_node s)) = Some (EState st) \<longrightarrow> st_Records st \<le> s_records s"
    using sync by (auto simp: in_sync_def)
  then show "contents (view d1) node' = contents (view d) node'"
    using some_records_contents [OF w] by blast
  show "in_sync s (view d1)"
    using sync some_records_state [OF w] by (simp add: in_sync_def)
qed

text \<open>After all records are put, each index holds the record of the snapshot.\<close>

lemma put_records_blobs:
  assumes D: "datastore_ok D view" and put: "put_records D (s_node s) recs (s_records s) d = (None, d1)"
    and old: "\<And>j. j < s_records s \<Longrightarrow> blob_at (view d) (recordKey (s_node s) j) = recs ! j" and j: "j < length recs"
  shows "blob_at (view d1) (recordKey (s_node s) j) = recs ! j"
proof -
  have w: "all_records (s_node s) recs (s_records s) (view d) (view d1)"
    using put_records_ok [OF D put] by simp
  show ?thesis
  proof (cases "j < s_records s")
    case True
    then have "view d1 (recordKey (s_node s) j) = view d (recordKey (s_node s) j)"
      by (intro some_records_other [OF all_records_some [OF w]]) auto
    then show ?thesis
      using old [OF True] by (simp add: blob_at_def)
  next
    case False
    then show ?thesis
      using all_records_at [OF w _ j] by (simp add: blob_at_def blob_data_def)
  qed
qed

lemma Save_commit:
  assumes D: "datastore_ok D view" and sync: "in_sync s (view d1)"
    and t: "ds_transact D (save_body s (chunks rest) (length recs) now) d1 = (t, d')"
    and blobs: "\<And>j. j < length recs \<Longrightarrow> blob_at (view d1) (recordKey (s_node s) j) = recs ! j"
  defines "st \<equiv> \<lparr>st_Version = s_version s + 1, st_Records = length recs, st_Chunks = length (chunks rest), st_UpdatedAt = now\<rparr>"
  shows "t = Inr (EState st) \<and> contents (view d') (s_node s) = Some (s_version s + 1, rest, recs) \<or>
     (\<exists>e. t = Inl e) \<and> contents (view d') (s_node s) \<in> {contents (view d1) (s_node s), Some (s_version s + 1, rest, recs)}"
    and "node' \<noteq> s_node s \<Longrightarrow> contents (view d') node' = contents (view d1) node'"
    and "t = Inr (EState st) \<Longrightarrow> view d' (stateKey (s_node s)) = Some (EState st)"
    and "t = Inr (EState st) \<Longrightarrow> i < length (chunks rest) \<Longrightarrow> view d' (chunkKey (s_node s) i) = Some (EBlob (chunks rest ! i))"
    and "t = Inr (EState st) \<Longrightarrow> view d' (recordKey (s_node s) i) = view d1 (recordKey (s_node s) i)"
proof -
  obtain st0 where st0: "state_of (view d1) (s_node s) = Some st0" "st_Version st0 = s_version s"
    using in_sync_state [OF sync] by blast
  let ?ws = "save_writes (s_node s) (chunks rest) (st_Chunks st0) (EState st)"
  have "save_body s (chunks rest) (length recs) now (\<lambda>k. Inr (view d1 k)) = Inr (?ws, EState st)"
    using st0 by (simp add: save_body_cases st_def Let_def)
  note ran = ds_transact_done [OF D t this]
  have new: "contents (apply_writes ?ws (view d1)) (s_node s) = Some (s_version s + 1, rest, recs)"
    unfolding st_def by (rule save_writes_contents) (rule blobs)
  show "t = Inr (EState st) \<and> contents (view d') (s_node s) = Some (s_version s + 1, rest, recs) \<or>
     (\<exists>e. t = Inl e) \<and> contents (view d') (s_node s) \<in> {contents (view d1) (s_node s), Some (s_version s + 1, rest, recs)}"
    using ran new by auto
  show "contents (view d') node' = contents (view d1) node'" if "node' \<noteq> s_node s"
    using ran save_writes_other [OF that] by auto
  show "view d' (stateKey (s_node s)) = Some (EState st)" if "t = Inr (EState st)"
    using ran that by (auto simp: save_writes_at)
  show "view d' (chunkKey (s_node s) i) = Some (EBlob (chunks rest ! i))" if "t = Inr (EState st)" "i < length (chunks rest)"
    using ran that by (auto simp: save_writes_at)
  show "view d' (recordKey (s_node s) i) = view d1 (recordKey (s_node s) i)" if "t = Inr (EState st)"
    using ran that by (auto simp: save_writes_at)
qed

text \<open>
  The abstract store: a version and a snapshot per node, and a compare-and-set on the version that is atomic, but
  may report an error after it has taken place.
\<close>

definition compare_and_set ::
  "i64 \<Rightarrow> bytes \<times> bytes list \<Rightarrow> store_error + unit \<Rightarrow> (i64 \<times> bytes \<times> bytes list) option \<Rightarrow> (i64 \<times> bytes \<times> bytes list) option \<Rightarrow> bool" where
  "compare_and_set v snap r c c' \<longleftrightarrow>
     (let current = (case c of None \<Rightarrow> 0 | Some (w, _) \<Rightarrow> w) in
      if current \<noteq> v then r \<noteq> Inr () \<and> c' = c
      else r = Inr () \<and> c' = Some (v + 1, snap) \<or> r \<noteq> Inr () \<and> c' \<in> {c, Some (v + 1, snap)})"

lemma stored_prefix:
  assumes sync: "in_sync s m"
    and extends: "\<forall>v text' old. contents m (s_node s) = Some (v, text', old) \<longrightarrow> take (length old) recs = old"
  shows "s_records s \<le> length recs \<and> (\<forall>j < s_records s. blob_at m (recordKey (s_node s) j) = recs ! j)"
proof (cases "m (stateKey (s_node s))")
  case (Some ent)
  then obtain st where st: "m (stateKey (s_node s)) = Some (EState st)" "st_Records st = s_records s"
    using sync by (auto simp: in_sync_def split: entity.splits)
  let ?old = "map (\<lambda>i. blob_at m (recordKey (s_node s) i)) [0..<s_records s]"
  have t: "take (length ?old) recs = ?old"
    using extends st by (auto simp: contents_state)
  then have "length ?old \<le> length recs"
    by (metis length_take min.cobounded1)
  moreover have "recs ! j = ?old ! j" if "j < s_records s" for j
    using t that by (metis diff_zero length_map length_upt nth_take)
  ultimately show ?thesis
    by simp
qed (use sync in \<open>simp add: in_sync_def\<close>)

lemma Save_atomic:
  assumes D: "datastore_ok D view" and sync: "in_sync s (view d)"
    and save: "Save D data now s d = (r, s', d')" and data: "split_snapshot data = Some (rest, recs)"
    and extends: "\<forall>v text' old. contents (view d) (s_node s) = Some (v, text', old) \<longrightarrow> take (length old) recs = old"
  shows "compare_and_set (s_version s) (rest, recs) r (contents (view d) (s_node s)) (contents (view d') (s_node s)) \<and>
    (\<forall>node'. node' \<noteq> s_node s \<longrightarrow> contents (view d') node' = contents (view d) node') \<and>
    (if r = Inr () then in_sync s' (view d') else s' = s)"
proof -
  have cur: "(case contents (view d) (s_node s) of None \<Rightarrow> 0 | Some (w, _) \<Rightarrow> w) = s_version s"
    using sync by (auto simp: in_sync_def contents_def split: option.splits entity.splits)
  have old: "s_records s \<le> length recs \<and> (\<forall>j < s_records s. blob_at (view d) (recordKey (s_node s) j) = recs ! j)"
    by (rule stored_prefix [OF sync extends])
  note unseen = put_records_unseen [OF D sync]
  show ?thesis
    using save data old [THEN conjunct1]
  proof (cases rule: Save_cases)
    case (records e)
    then show ?thesis
      using cur unseen [OF records(1)] by (simp add: compare_and_set_def)
  next
    case (refused e d1)
    have blobs: "blob_at (view d1) (recordKey (s_node s) j) = recs ! j" if "j < length recs" for j
      by (rule put_records_blobs [OF D refused(1) _ that]) (use old in simp)
    show ?thesis
      using cur refused unseen [OF refused(1)] Save_commit [OF D unseen(2) [OF refused(1)] refused(2) blobs]
      by (simp add: compare_and_set_def)
  next
    case (saved x d1)
    let ?st = "\<lparr>st_Version = s_version s + 1, st_Records = length recs, st_Chunks = length (chunks rest), st_UpdatedAt = now\<rparr>"
    have blobs: "blob_at (view d1) (recordKey (s_node s) j) = recs ! j" if "j < length recs" for j
      by (rule put_records_blobs [OF D saved(1) _ that]) (use old in simp)
    note commit = Save_commit [OF D unseen(2) [OF saved(1)] saved(2) blobs]
    have x: "x = EState ?st" and new: "contents (view d') (s_node s) = Some (s_version s + 1, rest, recs)"
      using commit(1) by simp_all
    have "view d' (stateKey (s_node s)) = Some (EState ?st)"
      using commit(3) x by simp
    then have "in_sync s' (view d')"
      using saved(4) x by (simp add: in_sync_def)
    then show ?thesis
      using cur saved(3) new commit(2) unseen [OF saved(1)] by (simp add: compare_and_set_def)
  qed
qed

section \<open>A Datastore in memory\<close>

definition mem_set :: "(ds_key, entity) gomap \<Rightarrow> (ds_key \<times> entity) list \<Rightarrow> (ds_key, entity) gomap" where
  "mem_set d kvs = foldl (\<lambda>d kv. mput (fst kv) (snd kv) d) d kvs"

definition mem_unset :: "(ds_key, entity) gomap \<Rightarrow> ds_key list \<Rightarrow> (ds_key, entity) gomap" where
  "mem_unset d ks = foldl (\<lambda>d k. mdel k d) d ks"

fun mem_write :: "(ds_key, entity) gomap \<Rightarrow> ds_write \<Rightarrow> (ds_key, entity) gomap" where
  "mem_write d (Put k e) = mput k e d"
| "mem_write d (Del k) = mdel k d"

definition mem_store :: "(ds_key, entity) gomap datastore" where
  "mem_store =
     \<lparr>ds_get = (\<lambda>k d. Inr (map_of d k)),
      ds_get_multi = (\<lambda>ks d. if list_all (\<lambda>k. map_of d k \<noteq> None) ks then Inr (map (\<lambda>k. the (map_of d k)) ks)
                             else Inl (Datastore ''no such entity'')),
      ds_put_multi = (\<lambda>kvs d. (None, mem_set d kvs)),
      ds_delete_multi = (\<lambda>ks d. (None, mem_unset d ks)),
      ds_transact = (\<lambda>body d. case body (\<lambda>k. Inr (map_of d k)) of
          Inl e \<Rightarrow> (Inl e, d)
        | Inr (ws, x) \<Rightarrow> (Inr x, foldl mem_write d ws))\<rparr>"

lemma mem_set_view: "map_of (mem_set d kvs) = map_of d ++ map_of (rev kvs)"
proof (induction kvs arbitrary: d)
  case (Cons kv kvs)
  then show ?case
    by (cases kv) (simp add: mem_set_def fun_eq_iff map_add_def split: option.split)
qed (simp add: mem_set_def)

lemma mem_unset_view: "map_of (mem_unset d ks) = (\<lambda>k. if k \<in> set ks then None else map_of d k)"
  by (induction ks arbitrary: d) (auto simp: mem_unset_def fun_eq_iff)

lemma mem_write_view: "map_of (foldl mem_write d ws) = apply_writes ws (map_of d)"
proof (induction ws arbitrary: d)
  case (Cons w ws)
  have "map_of (mem_write d w) = apply_writes [w] (map_of d)"
    by (cases w) (simp_all add: fun_eq_iff)
  then show ?case
    using Cons apply_writes_append [of "[w]" ws "map_of d"] by simp
qed simp

lemma mem_store_ok: "datastore_ok mem_store map_of"
  unfolding datastore_ok_def
proof (intro conjI allI impI)
  show "map (map_of d) ks = map Some es" if "ds_get_multi mem_store ks d = Inr es" for ks d es
    using that by (auto simp: mem_store_def list_all_iff comp_def split: if_splits)
  show "case body (\<lambda>k. Inr (map_of d k)) of
          Inl e \<Rightarrow> (\<exists>e'. r = Inl e') \<and> map_of d' = map_of d
        | Inr (ws, x) \<Rightarrow>
            r = Inr x \<and> map_of d' = apply_writes ws (map_of d) \<or>
            (\<exists>e'. r = Inl e') \<and> (map_of d' = map_of d \<or> map_of d' = apply_writes ws (map_of d))"
    if "ds_transact mem_store body d = (r, d')" for body d r d'
    using that by (auto simp: mem_store_def mem_write_view split: sum.splits)
qed (simp_all add: mem_store_def mem_set_view mem_unset_view)

lemma mem_put_records: "\<exists>d'. put_records mem_store node recs i d = (None, d')"
proof (induction "length recs - i" arbitrary: i d rule: less_induct)
  case less
  show ?case
  proof (cases "length recs \<le> i")
    case True
    then show ?thesis
      by (simp add: put_records.simps)
  next
    case False
    then have "length recs - (i + putBatch) < length recs - i"
      by (simp add: putBatch_def)
    note rest = less.hyps [OF this]
    have "ds_put_multi mem_store kvs d = (None, mem_set d kvs)" for kvs
      by (simp add: mem_store_def)
    then show ?thesis
      using False rest by (simp add: put_records.simps [of mem_store node recs i d])
  qed
qed

text \<open>In memory nothing fails, so a save in sync succeeds.\<close>

lemma mem_Save:
  assumes "in_sync s (map_of d)" "split_snapshot data = Some (rest, recs)" "s_records s \<le> length recs"
  shows "\<exists>s' d'. Save mem_store data now s d = (Inr (), s', d')"
proof -
  obtain r s' d' where save: "Save mem_store data now s d = (r, s', d')"
    using prod_cases3 by blast
  have "r = Inr ()"
    using save assms(2,3)
  proof (cases rule: Save_cases)
    case (records e)
    then show ?thesis
      using mem_put_records [of "s_node s" recs "s_records s" d] by simp
  next
    case (refused e d1)
    obtain st where "state_of (map_of d1) (s_node s) = Some st" "st_Version st = s_version s"
      using in_sync_state [OF put_records_unseen(2) [OF mem_store_ok assms(1) refused(1)]] by blast
    then show ?thesis
      using refused(2) by (simp add: mem_store_def save_body_cases Let_def)
  qed
  then show ?thesis
    using save by blast
qed

text \<open>Three snapshots as nodes save them: two writers continue the first one.\<close>

definition demo_map :: "string \<Rightarrow> bytes list \<Rightarrow> (string, bytes) gomap" where
  "demo_map x recs = [(''created'', x), (''ledger'', marshal_list recs)]"

lemma raw_ok_reads: "reads (max_depth - 1) r v \<Longrightarrow> r \<noteq> [] \<Longrightarrow> skip_ws r = r \<Longrightarrow> compact False False r = r \<Longrightarrow> raw_ok r"
proof -
  assume r: "reads (max_depth - 1) r v" "r \<noteq> []" "skip_ws r = r" "compact False False r = r"
  obtain f0 where f0: "\<And>f. f0 \<le> f \<Longrightarrow> read_value f (max_depth - 1) (r @ []) = Some (v, [])"
    using readsE [OF r(1), of "[]"] by (auto simp: num_ends_def)
  have "read_value (2 * length r + 2) (max_depth - 1) r = Some (v, [])"
    by (rule read_value_enough [of r "max f0 (2 * length r + 1)"]) (use f0 in simp_all)
  then show ?thesis
    using r by (auto simp: raw_ok_def)
qed

definition demo_digit :: "string \<Rightarrow> bool" where
  "demo_digit t \<longleftrightarrow> t \<in> {''1'', ''2'', ''3'', ''5'', ''6''}"

lemma digit_reads: "demo_digit t \<Longrightarrow> reads d t (GNumber t)"
  unfolding demo_digit_def
  by (rule reads_number)
    (auto simp: read_number_def read_unsigned_def int_part_def digits_def frac_part_def exp_part_def is_digit_def)

lemma digit_raw: "demo_digit t \<Longrightarrow> raw_ok t"
  by (rule raw_ok_reads [OF digit_reads]) (auto simp: demo_digit_def skip_ws_def is_space_def)

lemma demo_raws:
  assumes "demo_digit x" "recs \<in> {[''1'', ''2''], [''1'', ''2'', ''3''], [''1'', ''2'', ''5'', ''6'']}"
  shows "raws_ok (demo_map x recs)" "\<forall>r \<in> set recs. raw_ok r"
proof -
  have digits: "list_all demo_digit recs"
    using assms(2) by (auto simp: demo_digit_def)
  then show all: "\<forall>r \<in> set recs. raw_ok r"
    using digit_raw by (auto simp: list_all_iff)
  have t: "map raw_text recs = recs"
    using all by (simp add: map_idI)
  have "list_all2 (reads (max_depth - 2)) recs (map GNumber recs)"
    using digits digit_reads by (auto simp: list_all2_conv_all_nth list_all_length)
  from reads_array [OF this] have "reads (max_depth - 1) (marshal_list recs) (GArr (map GNumber recs))"
    by (simp add: marshal_list_def t max_depth_def)
  moreover have "skip_ws (marshal_list recs) = marshal_list recs"
    by (simp add: marshal_list_def skip_ws_def is_space_def)
  moreover have "compact False False (marshal_list recs) = marshal_list recs"
    using assms(2) by (auto simp: marshal_list_def t is_space_def quot_def bslash_def raw_text_def)
  ultimately have "raw_ok (marshal_list recs)"
    by (intro raw_ok_reads) (auto simp: marshal_list_def)
  then show "raws_ok (demo_map x recs)"
    using digit_raw [OF assms(1)] by (simp add: raws_ok_def demo_map_def rune_size_def)
qed

lemma split_marshal:
  assumes "raws_ok m" "map_of m ''ledger'' = Some (marshal_list recs)" "\<forall>r \<in> set recs. raw_ok r"
  shows "split_snapshot (marshal_map (Some m)) = Some (marshal_map (Some (mdel ''ledger'' (sorted_map m))), recs)"
proof -
  have "raw_ledger (Some (sorted_map m)) = Some recs"
    using assms(2) unmarshal_marshal_list [OF assms(3)] by (simp add: raw_ledger_def marshal_list_def)
  then show ?thesis
    using unmarshal_marshal_map [OF assms(1)] by (simp add: split_snapshot_def)
qed

lemma demo_split:
  assumes "demo_digit x" "recs \<in> {[''1'', ''2''], [''1'', ''2'', ''3''], [''1'', ''2'', ''5'', ''6'']}"
  shows "split_snapshot (marshal_map (Some (demo_map x recs))) = Some (marshal_map (Some [(''created'', x)]), recs)"
proof -
  have "sorted_map (demo_map x recs) = demo_map x recs"
    by (simp add: demo_map_def sorted_map_def sorted_keys_def mkeys_def)
  then show ?thesis
    using split_marshal [of "demo_map x recs" recs] demo_raws [OF assms] by (simp add: demo_map_def mdel_def)
qed

text \<open>
  The first save, by a fresh process.
\<close>

lemma fresh_sync: "in_sync (NewDSStore node) (map_of [])"
  by (simp add: in_sync_def NewDSStore_def)

definition demo_text :: "string \<Rightarrow> bytes list \<Rightarrow> bytes" where
  "demo_text x recs = marshal_map (Some (demo_map x recs))"

lemma mem_Save_next:
  assumes "in_sync s (map_of d)" "split_snapshot data = Some (rest, recs)"
    "contents (map_of d) (s_node s) = (if old = [] then None else Some (s_version s, text', old))" "take (length old) recs = old"
    "s_records s = length old"
  shows "\<exists>s' d'. Save mem_store data now s d = (Inr (), s', d')"
  using mem_Save [OF assms(1,2)] arg_cong [OF assms(4), of length] assms(5) by simp


section \<open>Stale writers\<close>

lemma stale_refused:
  assumes D: "datastore_ok D view"
    and stale: "case state_of (view d) (s_node s) of None \<Rightarrow> True | Some st \<Rightarrow> st_Version st \<noteq> s_version s"
    and run: "put_records D (s_node s) recs (s_records s) d = (None, d1)"
      "ds_transact D (save_body s (chunks rest) (length recs) now) d1 = (t, d2)"
  shows "(\<exists>e. t = Inl e) \<and> view d2 = view d1"
proof -
  have "some_records (s_node s) recs (s_records s) (view d) (view d1)"
    using put_records_ok [OF D run(1)] all_records_some by simp
  from some_records_state [OF this] have "state_of (view d1) (s_node s) = state_of (view d) (s_node s)"
    by (simp add: state_of_def)
  then have "\<exists>e. save_body s (chunks rest) (length recs) now (\<lambda>k. Inr (view d1 k)) = Inl e"
    using stale by (auto simp: save_body_cases split: option.splits)
  then show ?thesis
    using ds_transact_refused [OF D run(2)] by blast
qed

text \<open>
  C38: a save by a process that another one has overtaken is refused. When the stored version is not
  the one the process last saw, \<open>Save\<close> reports an error, the process keeps its counts, and the stored state (version, counts
  and every chunk) and the contents of all other nodes stay as they were; the records below those the process has counted stay too.
  Beyond them a record may have become the stale writer's: the records go out before the version is compared.
\<close>

theorem stale_save_refused:
  assumes D: "datastore_ok D view" and save: "Save D data now s d = (r, s', d')"
    and stale: "case state_of (view d) (s_node s) of None \<Rightarrow> True | Some st \<Rightarrow> st_Version st \<noteq> s_version s"
  shows "(\<exists>e. r = Inl e) \<and> s' = s \<and> view d' (stateKey (s_node s)) = view d (stateKey (s_node s)) \<and>
    (\<forall>i. view d' (chunkKey (s_node s) i) = view d (chunkKey (s_node s) i)) \<and>
    (\<forall>i < s_records s. view d' (recordKey (s_node s) i) = view d (recordKey (s_node s) i)) \<and>
    (\<forall>node'. node' \<noteq> s_node s \<longrightarrow> contents (view d') node' = contents (view d) node')"
proof (cases "split_snapshot data")
  case None
  then show ?thesis
    using save by (auto simp: Save_malformed)
next
  case (Some snap)
  obtain rest recs where snap: "split_snapshot data = Some (rest, recs)"
    using Some by (cases snap) simp
  have seen: ?thesis if "some_records (s_node s) recs (s_records s) (view d) (view d')" "\<exists>e. r = Inl e" "s' = s"
    using that some_records_state [OF that(1)] some_records_chunk [OF that(1)] some_records_contents [OF that(1)]
      some_records_other [OF that(1)] by auto
  show ?thesis
  proof (cases "length recs < s_records s")
    case True
    then show ?thesis
      using save snap by (auto simp: Save_shrunk)
  next
    case False
    then have "s_records s \<le> length recs"
      by simp
    show ?thesis
      using save snap \<open>s_records s \<le> length recs\<close>
    proof (cases rule: Save_cases)
      case (records e)
      then show ?thesis
        using put_records_ok [OF D records(1)] by (intro seen) simp_all
    next
      case (refused e d1)
      have "view d' = view d1"
        using stale_refused [OF D stale refused(1,2)] by blast
      then show ?thesis
        using put_records_ok [OF D refused(1)] refused(3,4) all_records_some by (intro seen) simp_all
    next
      case (saved x d1)
      then show ?thesis
        using stale_refused [OF D stale saved(1,2)] by blast
    qed
  qed
qed

text \<open>The witness is the run in which the stale writer's record replaces one that the other writer has saved and counted.\<close>

lemma mem_stale_overwrites:
  assumes "Save mem_store data now s d = (Inl e, s', d')" "split_snapshot data = Some (rest, recs)"
    "s_records s \<le> j" "j < length recs"
  shows "blob_at (map_of d') (recordKey (s_node s) j) = recs ! j"
proof -
  have "s_records s \<le> length recs"
    using assms(3,4) by simp
  with assms(1,2) show ?thesis
  proof (cases rule: Save_cases)
    case (records e)
    then show ?thesis
      using mem_put_records [of "s_node s" recs "s_records s" d] by auto
  next
    case (refused e d1)
    have "d' = d1"
      using refused(2) by (simp add: mem_store_def split: sum.splits prod.splits)
    moreover have "all_records (s_node s) recs (s_records s) (map_of d) (map_of d1)"
      using put_records_ok [OF mem_store_ok refused(1)] by simp
    ultimately show ?thesis
      using all_records_at assms(3,4) by (fastforce simp: blob_at_def blob_data_def)
  qed simp
qed

lemma Save_node: "Save D data now s d = (r, s', d') \<Longrightarrow> s_node s' = s_node s"
  by (auto simp: Save_def Let_def split: option.splits prod.splits sum.splits if_splits entity.splits)

lemma in_sync_contents:
  assumes "in_sync s m"
  shows "case contents m (s_node s) of None \<Rightarrow> s_version s = 0 \<and> s_records s = 0
    | Some (v, _, old) \<Rightarrow> s_version s = v \<and> s_records s = length old"
  using assms by (auto simp: in_sync_def contents_def split: option.splits entity.splits)

lemma demo_saved:
  assumes "demo_digit x" "recs \<in> {[''1'', ''2''], [''1'', ''2'', ''3''], [''1'', ''2'', ''5'', ''6'']}" "in_sync s (map_of d)"
    "contents (map_of d) (s_node s) = None \<or> (\<exists>t old. contents (map_of d) (s_node s) = Some (s_version s, t, old) \<and> take (length old) recs = old)"
  shows "\<exists>s' d'. Save mem_store (demo_text x recs) 0 s d = (Inr (), s', d') \<and> in_sync s' (map_of d') \<and> s_node s' = s_node s \<and>
    contents (map_of d') (s_node s) = Some (s_version s + 1, marshal_map (Some [(''created'', x)]), recs)"
proof -
  have split: "split_snapshot (demo_text x recs) = Some (marshal_map (Some [(''created'', x)]), recs)"
    using demo_split [OF assms(1,2)] by (simp add: demo_text_def)
  have "s_records s \<le> length recs"
    using assms(4) in_sync_contents [OF assms(3)] by (auto dest!: arg_cong [where f = length])
  then obtain s' d' where save: "Save mem_store (demo_text x recs) 0 s d = (Inr (), s', d')"
    using mem_Save [OF assms(3) split] by blast
  have "\<forall>v text' old. contents (map_of d) (s_node s) = Some (v, text', old) \<longrightarrow> take (length old) recs = old"
    using assms(4) by auto
  from Save_atomic [OF mem_store_ok assms(3) save split this]
  have "contents (map_of d') (s_node s) = Some (s_version s + 1, marshal_map (Some [(''created'', x)]), recs)"
    "in_sync s' (map_of d')"
    by (auto simp: compare_and_set_def Let_def split: if_splits)
  then show ?thesis
    using save Save_node [OF save] by blast
qed

theorem stale_save_refused_witness:
  "\<exists>s1 d1 s2 d2 e d3.
     Save mem_store (demo_text ''5'' [''1'', ''2'']) 0 (NewDSStore ''g'') [] = (Inr (), s1, d1) \<and>
     Save mem_store (demo_text ''6'' [''1'', ''2'', ''3'']) 0 s1 d1 = (Inr (), s2, d2) \<and>
     contents (map_of d2) ''g'' = Some (2, marshal_map (Some [(''created'', ''6'')]), [''1'', ''2'', ''3'']) \<and>
     Save mem_store (demo_text ''5'' [''1'', ''2'', ''5'', ''6'']) 0 s1 d2 = (Inl e, s1, d3) \<and>
     contents (map_of d3) ''g'' = Some (2, marshal_map (Some [(''created'', ''6'')]), [''1'', ''2'', ''5''])"
proof -
  obtain s1 d1 where one: "Save mem_store (demo_text ''5'' [''1'', ''2'']) 0 (NewDSStore ''g'') [] = (Inr (), s1, d1)"
    "in_sync s1 (map_of d1)" "s_node s1 = ''g''"
    "contents (map_of d1) ''g'' = Some (1, marshal_map (Some [(''created'', ''5'')]), [''1'', ''2''])"
    using demo_saved [OF _ _ fresh_sync, of "''5''" "[''1'', ''2'']" "''g''"]
    by (auto simp: demo_digit_def contents_def NewDSStore_def)
  have v1: "s_version s1 = 1" "s_records s1 = 2"
    using in_sync_contents [OF one(2)] one(3,4) by simp_all
  obtain s2 d2 where two: "Save mem_store (demo_text ''6'' [''1'', ''2'', ''3'']) 0 s1 d1 = (Inr (), s2, d2)"
    "contents (map_of d2) ''g'' = Some (2, marshal_map (Some [(''created'', ''6'')]), [''1'', ''2'', ''3''])"
    using demo_saved [OF _ _ one(2), of "''6''" "[''1'', ''2'', ''3'']"] one(3,4) v1 by (auto simp: demo_digit_def)
  obtain st where st: "map_of d2 (stateKey ''g'') = Some (EState st)" "st_Version st = 2"
    "marshal_map (Some [(''created'', ''6'')]) = concat (map (\<lambda>i. blob_at (map_of d2) (chunkKey ''g'' i)) [0..<st_Chunks st])"
    "[''1'', ''2'', ''3''] = map (\<lambda>i. blob_at (map_of d2) (recordKey ''g'' i)) [0..<st_Records st]"
    using two(2) by (auto simp: contents_state)
  have three: "st_Records st = 3"
    using arg_cong [OF st(4), of length] by simp
  let ?data = "demo_text ''5'' [''1'', ''2'', ''5'', ''6'']"
  have split: "split_snapshot ?data = Some (marshal_map (Some [(''created'', ''5'')]), [''1'', ''2'', ''5'', ''6''])"
    using demo_split [of "''5''" "[''1'', ''2'', ''5'', ''6'']"] by (simp add: demo_text_def demo_digit_def)
  obtain r s3 d3 where save: "Save mem_store ?data 0 s1 d2 = (r, s3, d3)"
    using prod_cases3 by blast
  have "case state_of (map_of d2) (s_node s1) of None \<Rightarrow> True | Some st \<Rightarrow> st_Version st \<noteq> s_version s1"
    using st one(3) v1 by (simp add: state_of_def)
  note stale = stale_save_refused [OF mem_store_ok save this]
  then obtain e where e: "r = Inl e" "s3 = s1"
    by blast
  have same: "map_of d3 (stateKey ''g'') = map_of d2 (stateKey ''g'')" "map_of d3 (chunkKey ''g'' i) = map_of d2 (chunkKey ''g'' i)" for i
    using stale one(3) by auto
  have "blob_at (map_of d3) (recordKey ''g'' 2) = ''5''"
    using mem_stale_overwrites [OF save [unfolded e] split, of 2] v1 one(3) by simp
  moreover have "map_of d3 (recordKey ''g'' i) = map_of d2 (recordKey ''g'' i)" if "i < 2" for i
    using stale that v1 one(3) by auto
  then have "blob_at (map_of d3) (recordKey ''g'' 0) = ''1''" "blob_at (map_of d3) (recordKey ''g'' 1) = ''2''"
    using st(4) by (simp_all add: three upt_rec blob_at_def)
  ultimately have "map (\<lambda>i. blob_at (map_of d3) (recordKey ''g'' i)) [0..<st_Records st] = [''1'', ''2'', ''5'']"
    by (simp add: three upt_rec numeral_2_eq_2)
  then have "contents (map_of d3) ''g'' = Some (2, marshal_map (Some [(''created'', ''6'')]), [''1'', ''2'', ''5''])"
    using st same by (simp add: contents_def blob_at_def)
  then show ?thesis
    using one(1) two save e by blast
qed

section \<open>Loading what was saved\<close>

text \<open>\<open>reads_up\<close>: no read fails, unless it asks for an entity that is not there.\<close>

definition reads_up :: "'d datastore \<Rightarrow> ('d \<Rightarrow> ds_key \<Rightarrow> entity option) \<Rightarrow> 'd \<Rightarrow> bool" where
  "reads_up D view d \<longleftrightarrow>
     (\<forall>k. \<exists>e. ds_get D k d = Inr e) \<and>
     (\<forall>ks. (\<forall>k \<in> set ks. view d k \<noteq> None) \<longrightarrow> (\<exists>es. ds_get_multi D ks d = Inr es))"

lemma getBlobs_up:
  assumes "reads_up D view d" "\<forall>i < n. view d (key i) \<noteq> None"
  shows "\<exists>bs. getBlobs D n key d = Inr bs"
proof -
  have "\<exists>bs. getBlobs_from D key n i out d = Inr bs" for i out
  proof (induction "n - i" arbitrary: i out rule: less_induct)
    case less
    show ?case
    proof (cases "n \<le> i")
      case True
      then show ?thesis
        by (simp add: getBlobs_from.simps)
    next
      case False
      have "\<exists>es. ds_get_multi D (map key [i..<min (i + 1000) n]) d = Inr es"
        using assms unfolding reads_up_def by auto
      then obtain es where "ds_get_multi D (map key [i..<min (i + 1000) n]) d = Inr es"
        by blast
      moreover have "\<exists>bs. getBlobs_from D key n (i + 1000) out' d = Inr bs" for out'
        by (rule less.hyps) (use False in simp)
      ultimately show ?thesis
        using False by (simp add: getBlobs_from.simps [of D key n i out d])
    qed
  qed
  then show ?thesis
    by (simp add: getBlobs_def)
qed

lemma blob_present: "blob_at m k \<noteq> [] \<Longrightarrow> m k \<noteq> None"
  by (cases "m k") (simp_all add: blob_at_def)

lemma DSStore_Load_stored:
  assumes D: "datastore_ok D view" and up: "reads_up D view d"
    and st: "view d (stateKey (s_node s)) = Some (EState st)"
    and chunks: "\<And>i. i < st_Chunks st \<Longrightarrow> view d (chunkKey (s_node s) i) \<noteq> None"
    and records: "\<And>i. i < st_Records st \<Longrightarrow> view d (recordKey (s_node s) i) \<noteq> None"
    and c: "contents (view d) (s_node s) = Some (v, rest, recs)" and m: "unmarshal_map rest = Some (Some m)"
  shows "DSStore_Load D s d = (Inr (Some (marshal_map (Some (mput ''ledger'' (marshal_list recs) m)))),
      s\<lparr>s_version := v, s_records := length recs\<rparr>)"
proof -
  obtain e where e: "ds_get D (stateKey (s_node s)) d = Inr e"
    using up unfolding reads_up_def by blast
  have state: "ds_get D (stateKey (s_node s)) d = Inr (Some (EState st))"
    using ds_get_ok [OF D e] e st by simp
  obtain bs where bs: "getBlobs D (st_Chunks st) (chunkKey (s_node s)) d = Inr bs"
    using getBlobs_up [OF up, of "st_Chunks st" "chunkKey (s_node s)"] chunks by blast
  obtain rs where rs: "getBlobs D (st_Records st) (recordKey (s_node s)) d = Inr rs"
    using getBlobs_up [OF up, of "st_Records st" "recordKey (s_node s)"] records by blast
  have "concat bs = rest" "rs = recs" "v = st_Version st" "st_Records st = length recs"
    using getBlobs_ok [OF D bs] getBlobs_ok [OF D rs] c st by (auto simp: contents_state)
  then show ?thesis
    using state bs rs m by (simp add: DSStore_Load_def)
qed

lemma raws_ok_mdel: "raws_ok m \<Longrightarrow> raws_ok (mdel k m)"
  by (auto simp: raws_ok_def mdel_def AList.delete_eq)

lemma raws_ok_mput: "raws_ok m \<Longrightarrow> valid_utf8 k \<and> raw_ok r \<Longrightarrow> raws_ok (mput k r m)"
  unfolding mput_def by (induction m) (auto simp: raws_ok_def)

lemma raws_ok_sorted: "raws_ok m \<Longrightarrow> raws_ok (sorted_map m)"
  unfolding raws_ok_def
proof
  fix kr
  assume m: "\<forall>kr \<in> set m. valid_utf8 (fst kr) \<and> raw_ok (snd kr)" and "kr \<in> set (sorted_map m)"
  then have "kr \<in> set m"
    by (auto simp: sorted_map_def dest!: weak_map_of_SomeI intro: map_of_SomeD)
  then show "valid_utf8 (fst kr) \<and> raw_ok (snd kr)"
    using m by blast
qed

text \<open>What a save that succeeded has left, for a process in sync that extends the stored records.\<close>

lemma saved_entities:
  assumes D: "datastore_ok D view" and sync: "in_sync s (view d)" and split: "split_snapshot data = Some (rest, recs)"
    and save: "Save D data now s d = (Inr (), s', d')" and recs: "\<forall>r \<in> set recs. raw_ok r"
    and old: "s_records s \<le> length recs \<and> (\<forall>j < s_records s. blob_at (view d) (recordKey (s_node s) j) = recs ! j)"
  shows "view d' (stateKey (s_node s)) = Some (EState \<lparr>st_Version = s_version s + 1, st_Records = length recs,
      st_Chunks = length (chunks rest), st_UpdatedAt = now\<rparr>)"
    "\<forall>i < length (chunks rest). view d' (chunkKey (s_node s) i) \<noteq> None" "\<forall>i < length recs. view d' (recordKey (s_node s) i) \<noteq> None"
    "s' = s\<lparr>s_version := s_version s + 1, s_records := length recs\<rparr>"
proof -
  let ?st = "\<lparr>st_Version = s_version s + 1, st_Records = length recs, st_Chunks = length (chunks rest), st_UpdatedAt = now\<rparr>"
  note unseen = put_records_unseen [OF D sync]
  have facts: "view d' (stateKey (s_node s)) = Some (EState ?st) \<and>
      (\<forall>i < length (chunks rest). view d' (chunkKey (s_node s) i) \<noteq> None) \<and>
      (\<forall>i < length recs. view d' (recordKey (s_node s) i) \<noteq> None) \<and>
      s' = s\<lparr>s_version := s_version s + 1, s_records := length recs\<rparr>"
    using save split old [THEN conjunct1]
  proof (cases rule: Save_cases)
    case (saved x d1)
    have blobs: "blob_at (view d1) (recordKey (s_node s) j) = recs ! j" if "j < length recs" for j
      by (rule put_records_blobs [OF D saved(1) _ that]) (use old in simp)
    note commit = Save_commit [OF D unseen(2) [OF saved(1)] saved(2) blobs]
    have x: "x = EState ?st"
      using commit(1) by simp
    have "view d' (recordKey (s_node s) i) \<noteq> None" if "i < length recs" for i
    proof -
      have "recs ! i \<noteq> []"
        using recs that by (auto simp: raw_ok_def)
      then show ?thesis
        using commit(5) x blobs [OF that] blob_present [of "view d1"] by simp
    qed
    then show ?thesis
      using commit(3,4) x saved(4) by simp
  qed simp_all
  then show "view d' (stateKey (s_node s)) = Some (EState ?st)" "\<forall>i < length (chunks rest). view d' (chunkKey (s_node s) i) \<noteq> None"
    "\<forall>i < length recs. view d' (recordKey (s_node s) i) \<noteq> None" "s' = s\<lparr>s_version := s_version s + 1, s_records := length recs\<rparr>"
    by blast+
qed

text \<open>
  C37: what is saved is loaded. When a process in sync has saved a snapshot as the node writes it (an object of
  compact values whose ledger is an array of compact records) and reads do not fail, any other process
  loads a text that stands for the same members, the whole ledger among them, and is then in sync like the
  process that saved, whatever number of chunks, batches and record entities the snapshot took.
\<close>

theorem load_after_save:
  assumes D: "datastore_ok D view" and sync: "in_sync s (view d)"
    and save: "Save D (marshal_map (Some m)) now s d = (Inr (), s', d')"
    and extends: "\<forall>v text' old. contents (view d) (s_node s) = Some (v, text', old) \<longrightarrow> take (length old) recs = old"
    and data: "raws_ok m" "map_of m ''ledger'' = Some (marshal_list recs)" "\<forall>r \<in> set recs. raw_ok r"
    and up: "reads_up D view d'" and node: "s_node s0 = s_node s"
  shows "\<exists>text' m'. DSStore_Load D s0 d' = (Inr (Some text'), s') \<and> unmarshal_map text' = Some (Some m') \<and> map_of m' = map_of m"
proof -
  let ?rest = "mdel ''ledger'' (sorted_map m)" and ?text = "marshal_map (Some (mdel ''ledger'' (sorted_map m)))"
  note split = split_marshal [OF data]
  note old = stored_prefix [OF sync extends]
  have atomic: "contents (view d') (s_node s) = Some (s_version s + 1, ?text, recs)"
    using Save_atomic [OF D sync save split extends] by (auto simp: compare_and_set_def Let_def split: if_splits)
  let ?st = "\<lparr>st_Version = s_version s + 1, st_Records = length recs, st_Chunks = length (chunks ?text), st_UpdatedAt = now\<rparr>"
  note st = saved_entities [OF D sync split save data(3) old]
  have sub: "raws_ok ?rest"
    using data(1) by (intro raws_ok_mdel raws_ok_sorted)
  let ?m = "mput ''ledger'' (marshal_list recs) (sorted_map ?rest)"
  have "DSStore_Load D s0 d' = (Inr (Some (marshal_map (Some ?m))), s0\<lparr>s_version := s_version s + 1, s_records := length recs\<rparr>)"
    by (rule DSStore_Load_stored [OF D up, of _ ?st]) (use st(1-3) atomic node unmarshal_marshal_map [OF sub] in simp_all)
  moreover have "s0\<lparr>s_version := s_version s + 1, s_records := length recs\<rparr> = s'"
    using node st(4) by simp
  moreover have "raws_ok ?m"
    using sub data(1) data(2) by (intro raws_ok_mput raws_ok_sorted) (auto simp: raws_ok_def dest!: map_of_SomeD)
  moreover have "map_of (sorted_map ?m) = map_of m"
    using data(2) by (auto simp: fun_eq_iff)
  ultimately show ?thesis
    using unmarshal_marshal_map by blast
qed

theorem load_after_save_witness:
  "\<exists>s d text' m'. Save mem_store (demo_text ''5'' [''1'', ''2'']) 0 (NewDSStore ''g'') [] = (Inr (), s, d) \<and>
     DSStore_Load mem_store (NewDSStore ''g'') d = (Inr (Some text'), s) \<and> unmarshal_map text' = Some (Some m') \<and>
     map_of m' = map_of (demo_map ''5'' [''1'', ''2''])"
proof -
  obtain s d where save: "Save mem_store (demo_text ''5'' [''1'', ''2'']) 0 (NewDSStore ''g'') [] = (Inr (), s, d)"
    using demo_saved [OF _ _ fresh_sync, of "''5''" "[''1'', ''2'']" "''g''"]
    by (auto simp: demo_digit_def contents_def NewDSStore_def)
  have demo: "demo_digit ''5''" "[''1'', ''2''] \<in> {[''1'', ''2''], [''1'', ''2'', ''3''], [''1'', ''2'', ''5'', ''6'']}"
    by (simp_all add: demo_digit_def)
  note raws = demo_raws [OF demo]
  have "map_of (demo_map ''5'' [''1'', ''2'']) ''ledger'' = Some (marshal_list [''1'', ''2''])"
    by (simp add: demo_map_def)
  moreover have "reads_up mem_store map_of d"
    by (auto simp: reads_up_def mem_store_def list_all_iff)
  moreover have "\<forall>v text' old. contents (map_of []) (s_node (NewDSStore ''g'')) = Some (v, text', old) \<longrightarrow> take (length old) [''1'', ''2''] = old"
    by (simp add: contents_def)
  ultimately show ?thesis
    using load_after_save [OF mem_store_ok fresh_sync save [unfolded demo_text_def] _ raws(1) _ raws(2)] save by blast
qed

section \<open>Deleting a node\<close>

lemma delete_batches_ok:
  assumes D: "datastore_ok D view"
  shows "delete_batches D ks d = (None, d') \<Longrightarrow> view d' = (\<lambda>k. if k \<in> set ks then None else view d k)"
proof (induction "length ks" arbitrary: ks d rule: less_induct)
  case less
  show ?case
  proof (cases "ks = []")
    case True
    then show ?thesis
      using less.prems by (simp add: delete_batches.simps)
  next
    case False
    then obtain d1 where d1: "ds_delete_multi D (take putBatch ks) d = (None, d1)" "delete_batches D (drop putBatch ks) d1 = (None, d')"
      using less.prems by (auto simp: delete_batches.simps [of D ks d] split: prod.splits option.splits)
    have "view d' = (\<lambda>k. if k \<in> set (drop putBatch ks) then None else view d1 k)"
      by (rule less.hyps [OF _ d1(2)]) (use False in \<open>simp add: putBatch_def\<close>)
    moreover have "view d1 = (\<lambda>k. if k \<in> set (take putBatch ks) then None else view d k)"
      by (rule ds_delete_ok [OF D d1(1)])
    moreover have "set ks = set (take putBatch ks) \<union> set (drop putBatch ks)"
      by (metis append_take_drop_id set_append)
    ultimately show ?thesis
      by auto
  qed
qed

text \<open>A deletion that reports success leaves nothing that the state counted, and nothing of another node is touched.\<close>

lemma Delete_ok:
  assumes D: "datastore_ok D view" and del: "Delete D s d = (None, d')"
  shows "contents (view d') (s_node s) = None"
    and "view d (stateKey (s_node s)) = Some (EState st) \<Longrightarrow> i < st_Records st \<Longrightarrow> view d' (recordKey (s_node s) i) = None"
    and "view d (stateKey (s_node s)) = Some (EState st) \<Longrightarrow> i < st_Chunks st \<Longrightarrow> view d' (chunkKey (s_node s) i) = None"
    and "node' \<noteq> s_node s \<Longrightarrow> contents (view d') node' = contents (view d) node'"
proof -
  obtain e where e: "ds_get D (stateKey (s_node s)) d = Inr e"
    using del by (cases "ds_get D (stateKey (s_node s)) d") (simp_all add: Delete_def)
  have v: "e = view d (stateKey (s_node s))"
    by (rule ds_get_ok [OF D e])
  consider (gone) "e = None" "d' = d" | (there) st0 where "e = Some (EState st0)"
      "delete_batches D (map (recordKey (s_node s)) [0..<st_Records st0] @ map (chunkKey (s_node s)) [0..<st_Chunks st0] @
         [stateKey (s_node s)]) d = (None, d')"
    using del e by (auto simp: Delete_def split: option.splits entity.splits)
  then have all: "contents (view d') (s_node s) = None \<and>
      (\<forall>st i. view d (stateKey (s_node s)) = Some (EState st) \<longrightarrow> i < st_Records st \<longrightarrow> view d' (recordKey (s_node s) i) = None) \<and>
      (\<forall>st i. view d (stateKey (s_node s)) = Some (EState st) \<longrightarrow> i < st_Chunks st \<longrightarrow> view d' (chunkKey (s_node s) i) = None) \<and>
      (\<forall>node'. node' \<noteq> s_node s \<longrightarrow> contents (view d') node' = contents (view d) node')"
  proof cases
    case gone
    then show ?thesis
      using v by (simp add: contents_def)
  next
    case there
    note w = delete_batches_ok [OF D there(2)]
    have "contents (view d') node' = contents (view d) node'" if "node' \<noteq> s_node s" for node'
      by (rule contents_cong) (use that in \<open>auto simp: w\<close>)
    then show ?thesis
      using v there(1) by (auto simp: w contents_def)
  qed
  show "contents (view d') (s_node s) = None"
    and "view d (stateKey (s_node s)) = Some (EState st) \<Longrightarrow> i < st_Records st \<Longrightarrow> view d' (recordKey (s_node s) i) = None"
    and "view d (stateKey (s_node s)) = Some (EState st) \<Longrightarrow> i < st_Chunks st \<Longrightarrow> view d' (chunkKey (s_node s) i) = None"
    and "node' \<noteq> s_node s \<Longrightarrow> contents (view d') node' = contents (view d) node'"
    using all by blast+
qed

end
