(* ===== verification/LP_Http.thy ===== *)
theory LP_Http
  imports LP_Views LP_Json
begin

text \<open>
  The HTTP surface of a node (node/httpapi/server.go): the public documents, the inbox and the admin API, as a function from a
  request and a node to a response and a node; and the client that the nodes use (node/fed/client.go).

  What net/http does is modelled as far as the code relies on it: the choice of the handler by exact path or longest
  subtree, \<open>http.Error\<close> and the JSON responses. A request is taken as it reaches the router, with
  a clean path.
\<close>

definition TrimSuffix :: "string \<Rightarrow> string \<Rightarrow> string" where
  "TrimSuffix s p = rev (TrimPrefix (rev s) (rev p))"

lemma TrimSuffix_append [simp]: "TrimSuffix (s @ p) p = s"
  by (simp add: TrimSuffix_def)

section \<open>Requests and responses\<close>

record request =
  rq_Method :: string
  rq_Path :: string
  rq_Header :: "string \<Rightarrow> string"
  rq_Body :: "bytes option"

text \<open>\<open>rq_Body\<close> is \<open>None\<close> when reading the body fails. The text of an error is not modelled, its cause is.\<close>

datatype web_error = BadRead | BadJSONText | NotAnObject | BadPage | NodeError node_error

datatype payload =
    JSON gval
  | LogRecordList "log_record list"
  | Text string
  | ErrorJSON web_error
  | MalformedJSON web_error

text \<open>\<open>Aborted\<close>: the handler panicked, and net/http closed the connection. \<open>Redirect\<close>: the same path with a slash.\<close>

datatype response = Response nat payload | Redirect string | Aborted

section \<open>Decoding a request body into a struct\<close>

datatype kind = KString | KInt64 | KBool

datatype field = FString string | FInt64 i64 | FBool bool

definition zero_field :: "kind \<Rightarrow> field" where
  "zero_field k = (case k of KString \<Rightarrow> FString [] | KInt64 \<Rightarrow> FInt64 0 | KBool \<Rightarrow> FBool False)"

text \<open>The members of an object in the order of the text, repeated names included.\<close>

fun read_fields :: "nat \<Rightarrow> (string \<times> gval) list \<Rightarrow> string \<Rightarrow> (string \<times> gval) list option" where
  "read_fields 0 m s = None"
| "read_fields (Suc fuel) m s =
     (case skip_ws s of
        [] \<Rightarrow> None
      | q # qs \<Rightarrow>
          if q \<noteq> quot then None
          else case read_string qs of
              None \<Rightarrow> None
            | Some (k, s1) \<Rightarrow>
                (case skip_ws s1 of
                   [] \<Rightarrow> None
                 | c # s2 \<Rightarrow>
                     if c \<noteq> CHR '':'' then None
                     else case read_value (2 * length s2 + 2) (max_depth - 1) s2 of
                         None \<Rightarrow> None
                       | Some (v, s3) \<Rightarrow>
                           (case skip_ws s3 of
                              [] \<Rightarrow> None
                            | e # rest \<Rightarrow>
                                if e = CHR '','' then read_fields fuel (m @ [(k, v)]) rest
                                else if e = CHR 0x7D then Some (m @ [(k, v)])
                                else None)))"

text \<open>
  Member names match field names up to case; beyond ASCII only the Kelvin sign and the long s fold to letters.
\<close>

definition lower :: "char \<Rightarrow> char" where
  "lower c = (if (65 :: int) \<le> of_char c \<and> of_char c \<le> (90 :: int) then char_of (of_char c + (32 :: int)) else c)"

fun fold_name :: "string \<Rightarrow> string" where
  "fold_name [] = []"
| "fold_name (c # cs) =
     (if c = CHR 0xE2 \<and> take 2 cs = [CHR 0x84, CHR 0xAA] then CHR ''k'' # fold_name (drop 2 cs)
      else if c = CHR 0xC5 \<and> take 1 cs = [CHR 0xBF] then CHR ''s'' # fold_name (drop 1 cs)
      else lower c # fold_name cs)"

text \<open>\<open>None\<close>: the value does not fit the field. \<open>null\<close> leaves a field as it is.\<close>

definition set_field :: "kind \<Rightarrow> gval \<Rightarrow> field \<Rightarrow> field option" where
  "set_field k v old =
     (case v of
        GNil \<Rightarrow> Some old
      | GStr s \<Rightarrow> if k = KString then Some (FString s) else None
      | GBool b \<Rightarrow> if k = KBool then Some (FBool b) else None
      | GNumber s \<Rightarrow> if k = KInt64 \<and> snd (ParseInt s) then Some (FInt64 (fst (ParseInt s))) else None
      | _ \<Rightarrow> None)"

fun fill_fields :: "(string \<times> kind) list \<Rightarrow> (string \<times> gval) list \<Rightarrow> (string, field) gomap \<Rightarrow> (string, field) gomap option" where
  "fill_fields fs [] m = Some m"
| "fill_fields fs ((k, v) # kvs) m =
     (case find (\<lambda>f. fold_name (fst f) = fold_name k) fs of
        None \<Rightarrow> fill_fields fs kvs m
      | Some (name, kd) \<Rightarrow>
          (case set_field kd v (case map_of m name of Some f \<Rightarrow> f | None \<Rightarrow> zero_field kd) of
             None \<Rightarrow> None
           | Some f \<Rightarrow> fill_fields fs kvs (mput name f m)))"

text \<open>\<open>json.NewDecoder(r.Body).Decode(&req)\<close>: the first value of the text; what follows it is not read.\<close>

definition decode_struct :: "(string \<times> kind) list \<Rightarrow> bytes option \<Rightarrow> (string, field) gomap option" where
  "decode_struct fs body =
     (case body of
        None \<Rightarrow> None
      | Some b \<Rightarrow>
          let zero = map (\<lambda>f. (fst f, zero_field (snd f))) fs in
          (case skip_ws b of
             [] \<Rightarrow> None
           | c # cs \<Rightarrow>
               if c = CHR 0x7B then
                 (case skip_ws cs of
                    [] \<Rightarrow> None
                  | d # rest \<Rightarrow>
                      if d = CHR 0x7D then Some zero
                      else case read_fields (length b) [] (d # rest) of None \<Rightarrow> None | Some kvs \<Rightarrow> fill_fields fs kvs zero)
               else if DecodeJSON b = Some GNil then Some zero
               else None))"

definition fstr :: "(string, field) gomap \<Rightarrow> string \<Rightarrow> string" where
  "fstr m k = (case map_of m k of Some (FString s) \<Rightarrow> s | _ \<Rightarrow> [])"

definition fint :: "(string, field) gomap \<Rightarrow> string \<Rightarrow> i64" where
  "fint m k = (case map_of m k of Some (FInt64 i) \<Rightarrow> i | _ \<Rightarrow> 0)"

definition fbool :: "(string, field) gomap \<Rightarrow> string \<Rightarrow> bool" where
  "fbool m k = (case map_of m k of Some (FBool b) \<Rightarrow> b | _ \<Rightarrow> False)"

section \<open>The handlers\<close>

definition Transparency :: "Node \<Rightarrow> string" where
  "Transparency n = cfg_Transparency (n_cfg n)"

definition logVisible :: "lib \<Rightarrow> request \<Rightarrow> Node \<Rightarrow> bool" where
  "logVisible L r n = (if Transparency n \<noteq> ''peers'' then True else IsActivePeer L (rq_Header r ''X-LP-Peer'') n)"

definition denyLog :: response where
  "denyLog = Response 403 (JSON (GMap [(''code'', GStr ''forbidden''), (''detail'', GStr (''log visible to contact peers only ('' @ [CHR 0xC2, CHR 0xA7] @ ''9.3)''))]))"

definition statusFor :: "string \<Rightarrow> nat" where
  "statusFor verdict = (if verdict = VerdictUnknownKey \<or> verdict = VerdictBadSignature then 403 else 400)"

definition readAll :: "request \<Rightarrow> bytes option" where
  "readAll r = map_option (take (2 ^ 20)) (rq_Body r)"

definition ok_json :: "obj \<Rightarrow> response" where
  "ok_json m = Response 200 (JSON (GMap m))"

definition serve_log :: "lib \<Rightarrow> request \<Rightarrow> Node \<Rightarrow> response" where
  "serve_log L r n =
     (if \<not> logVisible L r n then denyLog
      else
        let name = TrimPrefix (rq_Path r) ''/lp/log/'' in
        if HasPrefix name ''page-'' then
          (case ParseInt (TrimSuffix (TrimPrefix name ''page-'') ''.json'') of
             (page, ok) \<Rightarrow>
               if \<not> ok then Response 400 (MalformedJSON BadPage)
               else (case LogPage page n of None \<Rightarrow> Aborted | Some recs \<Rightarrow> Response 200 (LogRecordList recs)))
        else Response 200 (LogRecordList (LogRecords n)))"

definition serve_inbox :: "lib \<Rightarrow> sender option \<Rightarrow> request \<Rightarrow> Node \<Rightarrow> response \<times> Node" where
  "serve_inbox L S r n =
     (if rq_Method r \<noteq> ''POST'' then (Response 405 (Text ''POST only''), n)
      else case readAll r of
          None \<Rightarrow> (Response 400 (MalformedJSON BadRead), n)
        | Some body \<Rightarrow>
            (case DecodeJSON body of
               None \<Rightarrow> (Response 400 (MalformedJSON BadJSONText), n)
             | Some v \<Rightarrow>
                 (case as_obj v of
                    None \<Rightarrow> (Response 400 (MalformedJSON NotAnObject), n)
                  | Some env \<Rightarrow>
                      (case ProcessInbound L S env n of
                         (verdict, _, n) \<Rightarrow>
                           (if verdict \<noteq> VerdictOK \<and> verdict \<noteq> VerdictDuplicate
                            then Response (statusFor verdict) (JSON (GMap [(''code'', GStr verdict)]))
                            else Response 202 (JSON (GMap [(''status'', GStr ''accepted'')])), n)))))"

text \<open>\<open>adminMut\<close>: a POST with the admin token.\<close>

definition adminMut :: "(request \<Rightarrow> Node \<Rightarrow> response \<times> Node) \<Rightarrow> request \<Rightarrow> Node \<Rightarrow> response \<times> Node" where
  "adminMut h r n =
     (if rq_Method r \<noteq> ''POST'' then (Response 405 (Text ''POST only''), n)
      else if \<not> AdminAuthorized (rq_Header r ''Authorization'') n
      then (Response 401 (JSON (GMap [(''code'', GStr ''unauthorized''), (''detail'', GStr ''admin token required'')])), n)
      else h r n)"

text \<open>A handler that decodes the body, runs an operation and answers with its result.\<close>

definition with_body ::
  "(string \<times> kind) list \<Rightarrow> ((string, field) gomap \<Rightarrow> Node \<Rightarrow> (node_error + obj) \<times> Node) \<Rightarrow> request \<Rightarrow> Node \<Rightarrow> response \<times> Node" where
  "with_body fs run r n =
     (case decode_struct fs (rq_Body r) of
        None \<Rightarrow> (Response 400 (ErrorJSON BadJSONText), n)
      | Some req \<Rightarrow>
          (case run req n of
             (Inl e, n) \<Rightarrow> (Response 400 (ErrorJSON (NodeError e)), n)
           | (Inr m, n) \<Rightarrow> (ok_json m, n)))"

definition on_result :: "('a \<Rightarrow> obj) \<Rightarrow> (node_error + 'a) \<times> Node \<Rightarrow> (node_error + obj) \<times> Node" where
  "on_result f rn = (case rn of (Inl e, n) \<Rightarrow> (Inl e, n) | (Inr x, n) \<Rightarrow> (Inr (f x), n))"

definition admin_contact :: "lib \<Rightarrow> request \<Rightarrow> Node \<Rightarrow> response \<times> Node" where
  "admin_contact L =
     with_body [(''peer'', KString), (''seed'', KInt64), (''note'', KString)]
       (\<lambda>q n. on_result (\<lambda>i. [(''contact_id'', GStr i)]) (OpenContact L (fstr q ''peer'') (fint q ''seed'') (fstr q ''note'') n))"

definition admin_transfer :: "lib \<Rightarrow> request \<Rightarrow> Node \<Rightarrow> response \<times> Node" where
  "admin_transfer L =
     with_body [(''peer'', KString), (''from'', KString), (''to'', KString), (''src'', KInt64), (''note'', KString)]
       (\<lambda>q n. on_result (\<lambda>i. [(''transfer_id'', GStr i)])
          (StartTransfer L (fstr q ''peer'') (fstr q ''from'') (fstr q ''to'') (fint q ''src'') (fstr q ''note'') n))"

definition admin_adjust :: "lib \<Rightarrow> request \<Rightarrow> Node \<Rightarrow> response \<times> Node" where
  "admin_adjust L =
     with_body [(''peer'', KString), (''delta'', KInt64), (''memo'', KString)]
       (\<lambda>q n. on_result (\<lambda>i. [(''adjust_id'', GStr i)]) (AdjustReserve L (fstr q ''peer'') (fint q ''delta'') (fstr q ''memo'') n))"

definition admin_ud :: "lib \<Rightarrow> request \<Rightarrow> Node \<Rightarrow> response \<times> Node" where
  "admin_ud L r n =
     (case RunUD L n of
        (Inl e, n) \<Rightarrow> (Response 500 (ErrorJSON (NodeError e)), n)
      | (Inr ud, n) \<Rightarrow> (ok_json [(''ud_base'', GInt ud)], n))"

definition admin_abort :: "lib \<Rightarrow> request \<Rightarrow> Node \<Rightarrow> response \<times> Node" where
  "admin_abort L =
     with_body [(''transfer'', KString)]
       (\<lambda>q n. on_result (\<lambda>_. [(''status'', GStr ''aborted'')]) (AbortTransfer L (fstr q ''transfer'') n))"

definition admin_member :: "lib \<Rightarrow> request \<Rightarrow> Node \<Rightarrow> response \<times> Node" where
  "admin_member L =
     with_body [(''name'', KString), (''display_name'', KString), (''grant'', KInt64), (''deactivate'', KBool)]
       (\<lambda>q n. on_result (\<lambda>_. [(''member'', GStr (fstr q ''name'')), (''active'', GBool (\<not> fbool q ''deactivate''))])
          (if fbool q ''deactivate'' then DeactivateMember (fstr q ''name'') n
           else AddMember L (fstr q ''name'') (fstr q ''display_name'') (fint q ''grant'') n))"

section \<open>The router\<close>

text \<open>
  \<open>Handler\<close>: the patterns it registers, exact paths and subtrees. An exact path wins, then the subtree that holds the path (no
  two of them do); the root of a subtree without its slash is redirected, anything else is not found.
\<close>

type_synonym handler = "request \<Rightarrow> Node \<Rightarrow> response \<times> Node"

definition view :: "(request \<Rightarrow> Node \<Rightarrow> response) \<Rightarrow> handler" where
  "view f r n = (f r n, n)"

definition admin_routes :: "lib \<Rightarrow> (string \<times> handler) list" where
  "admin_routes L =
     [(''/admin/contact'', adminMut (admin_contact L)), (''/admin/transfer'', adminMut (admin_transfer L)),
      (''/admin/adjust'', adminMut (admin_adjust L)), (''/admin/ud'', adminMut (admin_ud L)),
      (''/admin/abort'', adminMut (admin_abort L)), (''/admin/member'', adminMut (admin_member L))]"

definition exact_routes :: "lib \<Rightarrow> sender option \<Rightarrow> (string \<times> handler) list" where
  "exact_routes L S =
     [(''/.well-known/liquiditypub'', view (\<lambda>r n. ok_json (IdentityDoc n))),
      (''/lp/checkpoint.json'', view (\<lambda>r n. case Checkpoint L n of None \<Rightarrow> Aborted | Some cp \<Rightarrow> ok_json cp)),
      (''/lp/log/head.json'', view (\<lambda>r n. if \<not> logVisible L r n then denyLog else ok_json (LogHead n))),
      (''/lp/inbox'', serve_inbox L S)] @ admin_routes L"

definition subtree_routes :: "lib \<Rightarrow> (string \<times> handler) list" where
  "subtree_routes L =
     [(''/lp/outbox/'', view (\<lambda>r n.
        Response 200 (JSON (GArr (map GMap (OutboxFor (TrimSuffix (TrimPrefix (rq_Path r) ''/lp/outbox/'') ''.json'') n)))))),
      (''/lp/log/'', view (serve_log L)),
      (''/admin/transfer/'', view (\<lambda>r n.
        ok_json [(''state'', GStr (TransferState (TrimPrefix (rq_Path r) ''/admin/transfer/'') n))]))]"

definition not_found :: response where
  "not_found = Response 404 (Text ''404 page not found'')"

definition serve :: "lib \<Rightarrow> sender option \<Rightarrow> handler" where
  "serve L S r n =
     (case map_of (exact_routes L S) (rq_Path r) of
        Some h \<Rightarrow> h r n
      | None \<Rightarrow>
          (case find (\<lambda>ph. HasPrefix (rq_Path r) (fst ph)) (subtree_routes L) of
             Some ph \<Rightarrow> snd ph r n
           | None \<Rightarrow>
               (if rq_Path r @ ''/'' \<in> set (map fst (subtree_routes L)) then Redirect (rq_Path r @ ''/'') else not_found, n)))"

text \<open>\<open>writeJSON\<close>: the encoder does not escape HTML and ends with a line feed; an error writes nothing.\<close>

definition writeJSON :: "gval \<Rightarrow> bytes" where
  "writeJSON v = (case Canonical v of Inl _ \<Rightarrow> [] | Inr t \<Rightarrow> t @ [CHR 0x0A])"

end
