(* ===== verification/LP_Client.thy ===== *)
theory LP_Client
  imports LP_Http LP_Reachable
begin

text \<open>
  The HTTP client of a node (node/fed/client.go), and what it sees of a peer that serves the handlers of
  \<open>LP_Http\<close>: requests are steps of the node, the guards of the admin API, and the calls of the client as calls on the peer itself.
\<close>

section \<open>The client\<close>

text \<open>
  The network is a parameter: a method, a URL and a body give a status and a body (\<open>None\<close> when reading it
  fails), or no response; the state \<open>'w\<close> is what the request may change.
\<close>

type_synonym 'w net = "string \<Rightarrow> string \<Rightarrow> bytes \<Rightarrow> 'w \<Rightarrow> (nat \<times> bytes option) option \<times> 'w"

datatype client_error = MarshalFailed | NoResponse | HTTPStatus nat | ReadFailed | NotJSON | WrongShape

definition Deliver :: "'w net \<Rightarrow> string \<Rightarrow> obj \<Rightarrow> 'w \<Rightarrow> client_error option \<times> 'w" where
  "Deliver net peerBase env w =
     (case Marshal (GMap env) of
        Inl _ \<Rightarrow> (Some MarshalFailed, w)
      | Inr body \<Rightarrow>
          (case net ''POST'' (peerBase @ ''/lp/inbox'') body w of
             (None, w) \<Rightarrow> (Some NoResponse, w)
           | (Some (status, _), w) \<Rightarrow> (if status \<noteq> 202 then Some (HTTPStatus status) else None, w)))"

text \<open>A document is fetched, decoded and taken as an object.\<close>

definition fetch_object :: "'w net \<Rightarrow> string \<Rightarrow> 'w \<Rightarrow> (client_error + obj) \<times> 'w" where
  "fetch_object net url w =
     (case net ''GET'' url [] w of
        (None, w) \<Rightarrow> (Inl NoResponse, w)
      | (Some (status, body), w) \<Rightarrow>
          if status \<noteq> 200 then (Inl (HTTPStatus status), w)
          else case body of
              None \<Rightarrow> (Inl ReadFailed, w)
            | Some b \<Rightarrow>
                (case DecodeJSON b of
                   None \<Rightarrow> (Inl NotJSON, w)
                 | Some v \<Rightarrow> (case as_obj v of None \<Rightarrow> Inl WrongShape | Some m \<Rightarrow> Inr m, w)))"

definition FetchIdentity_http :: "'w net \<Rightarrow> string \<Rightarrow> 'w \<Rightarrow> (client_error + obj) \<times> 'w" where
  "FetchIdentity_http net peerBase = fetch_object net (peerBase @ ''/.well-known/liquiditypub'')"

definition FetchCheckpoint_http :: "'w net \<Rightarrow> string \<Rightarrow> 'w \<Rightarrow> (client_error + obj) \<times> 'w" where
  "FetchCheckpoint_http net peerBase = fetch_object net (peerBase @ ''/lp/checkpoint.json'')"

text \<open>A missing or empty outbox is no envelopes; elements that are not objects are left out.\<close>

definition FetchOutbox_http :: "'w net \<Rightarrow> string \<Rightarrow> string \<Rightarrow> 'w \<Rightarrow> (client_error + obj list) \<times> 'w" where
  "FetchOutbox_http net peerBase myHost w =
     (case net ''GET'' (peerBase @ ''/lp/outbox/'' @ myHost @ ''.json'') [] w of
        (None, w) \<Rightarrow> (Inl NoResponse, w)
      | (Some (status, body), w) \<Rightarrow>
          if status = 404 then (Inr [], w)
          else if status \<noteq> 200 then (Inl (HTTPStatus status), w)
          else case body of
              None \<Rightarrow> (Inl ReadFailed, w)
            | Some b \<Rightarrow>
                if b = [] then (Inr [], w)
                else (case DecodeJSON b of
                        None \<Rightarrow> (Inl NotJSON, w)
                      | Some v \<Rightarrow> (case v of GArr xs \<Rightarrow> Inr (List.map_filter as_obj xs) | _ \<Rightarrow> Inl WrongShape, w)))"

section \<open>A peer served at its base\<close>

text \<open>The bytes of a response; the texts of errors and of log records are left to \<open>render\<close>.\<close>

definition response_body :: "(payload \<Rightarrow> bytes) \<Rightarrow> payload \<Rightarrow> bytes" where
  "response_body render p = (case p of JSON v \<Rightarrow> writeJSON v | Text t \<Rightarrow> t @ [CHR 0x0A] | _ \<Rightarrow> render p)"

definition served :: "(payload \<Rightarrow> bytes) \<Rightarrow> lib \<Rightarrow> sender option \<Rightarrow> string \<Rightarrow> Node net" where
  "served render L S base meth url body n =
     (if \<not> HasPrefix url base then (None, n)
      else case serve L S \<lparr>rq_Method = meth, rq_Path = drop (length base) url, rq_Header = (\<lambda>_. []), rq_Body = Some body\<rparr> n of
          (Response status p, n) \<Rightarrow> (Some (status, Some (response_body render p)), n)
        | (_, n) \<Rightarrow> (None, n))"

section \<open>Requests as steps of the node\<close>

text \<open>Whatever is asked, a request is no step or one step of the node.\<close>

lemma serve_inbox_step: "snd (serve_inbox L S r n) = n \<or> node_step L n (snd (serve_inbox L S r n))"
proof -
  have "snd (serve_inbox L S r n) = n \<or> (\<exists>env. snd (serve_inbox L S r n) = snd (snd (ProcessInbound L S env n)))"
    by (auto simp: serve_inbox_def case_prod_beta split: option.split)
  then show ?thesis
    using node_step.receive [of L n S] by auto
qed

text \<open>The operations behind the admin handlers.\<close>

inductive admin_step :: "lib \<Rightarrow> Node \<Rightarrow> Node \<Rightarrow> bool" for L where
  "admin_step L n (snd (OpenContact L base seed note n))"
| "admin_step L n (snd (StartTransfer L base from' to amount note n))"
| "admin_step L n (snd (AdjustReserve L base delta memo n))"
| "admin_step L n (snd (RunUD L n))"
| "admin_step L n (snd (AbortTransfer L tid n))"
| "admin_step L n (snd (DeactivateMember name n))"
| "admin_step L n (snd (AddMember L name display grant n))"

lemma on_result_node [simp]: "snd (on_result f rn) = snd rn"
  by (simp add: on_result_def case_prod_beta split: sum.split)

lemma with_body_cases:
  "snd (with_body fs run r n) = n \<or> (\<exists>q. snd (with_body fs run r n) = snd (run q n))"
  by (auto simp: with_body_def case_prod_beta split: option.split sum.split)

lemma admin_handlers_step:
  "h \<in> {admin_contact L, admin_transfer L, admin_adjust L, admin_ud L, admin_abort L, admin_member L} \<Longrightarrow>
     snd (h r n) = n \<or> admin_step L n (snd (h r n))"
proof -
  have ud: "snd (admin_ud L r n) = snd (RunUD L n)"
    by (simp add: admin_ud_def case_prod_beta split: sum.split)
  have body: "snd (with_body fs (\<lambda>q n. on_result (f q) (run q n)) r n) = n \<or>
      admin_step L n (snd (with_body fs (\<lambda>q n. on_result (f q) (run q n)) r n))"
    if "\<And>q. admin_step L n (snd (run q n))" for fs f and run :: "(string, field) gomap \<Rightarrow> Node \<Rightarrow> (node_error + 'a) \<times> Node"
    using with_body_cases [of fs "\<lambda>q n. on_result (f q) (run q n)" r n] that by auto
  assume "h \<in> {admin_contact L, admin_transfer L, admin_adjust L, admin_ud L, admin_abort L, admin_member L}"
  then consider "h = admin_contact L" | "h = admin_transfer L" | "h = admin_adjust L" | "h = admin_ud L" | "h = admin_abort L" | "h = admin_member L"
    by blast
  then show ?thesis
  proof cases
    case 1
    then show ?thesis
      unfolding admin_contact_def by (simp only:) (rule body, rule admin_step.intros)
  next
    case 2
    then show ?thesis
      unfolding admin_transfer_def by (simp only:) (rule body, rule admin_step.intros)
  next
    case 3
    then show ?thesis
      unfolding admin_adjust_def by (simp only:) (rule body, rule admin_step.intros)
  next
    case 4
    then show ?thesis
      using admin_step.intros(4) by (simp add: ud)
  next
    case 5
    then show ?thesis
      unfolding admin_abort_def by (simp only:) (rule body, rule admin_step.intros)
  next
    case 6
    then show ?thesis
      unfolding admin_member_def by (simp only:) (rule body, auto intro: admin_step.intros)
  qed
qed

text \<open>Only the inbox and the guarded handlers give back another node.\<close>

lemma serve_routes:
  "snd (serve L S r n) = n \<or> (\<exists>h. (rq_Path r, h) \<in> set ((''/lp/inbox'', serve_inbox L S) # admin_routes L) \<and> serve L S r n = h r n)"
proof (cases "map_of (exact_routes L S) (rq_Path r)")
  case None
  have kept: "snd (snd ph r n) = n" if "ph \<in> set (subtree_routes L)" for ph
    using that by (auto simp: subtree_routes_def view_def)
  have "snd (snd ph r n) = n" if "find P (subtree_routes L) = Some ph" for P ph
    using that by (intro kept) (metis find_Some_iff nth_mem)
  then show ?thesis
    using None by (simp add: serve_def split: option.split)
next
  case (Some h)
  then have "(rq_Path r, h) \<in> set (exact_routes L S)"
    by (rule map_of_SomeD)
  then consider "snd (h r n) = n" | "(rq_Path r, h) \<in> set ((''/lp/inbox'', serve_inbox L S) # admin_routes L)"
    unfolding exact_routes_def by (auto simp: view_def)
  then show ?thesis
    using Some by cases (auto simp: serve_def)
qed

lemma adminMut_step:
  assumes "\<And>r n. snd (h r n) = n \<or> admin_step L n (snd (h r n))"
  shows "snd (adminMut h r n) = n \<or>
    rq_Method r = ''POST'' \<and> AdminAuthorized (rq_Header r ''Authorization'') n \<and> admin_step L n (snd (adminMut h r n))"
  using assms by (simp add: adminMut_def)

lemma admin_routes_step:
  assumes "(p, h) \<in> set (admin_routes L)"
  shows "snd (h r n) = n \<or>
    rq_Method r = ''POST'' \<and> AdminAuthorized (rq_Header r ''Authorization'') n \<and> admin_step L n (snd (h r n))"
proof -
  obtain g where g: "h = adminMut g" "g \<in> {admin_contact L, admin_transfer L, admin_adjust L, admin_ud L, admin_abort L, admin_member L}"
    using assms unfolding admin_routes_def by auto
  show ?thesis
    unfolding g(1) by (rule adminMut_step) (rule admin_handlers_step [OF g(2)])
qed

lemma serve_inbox_guarded:
  "snd (serve_inbox L S r n) = n \<or>
     rq_Method r = ''POST'' \<and> (\<exists>body env. rq_Body r = Some body \<and> DecodeJSON (take (2 ^ 20) body) = Some (GMap env) \<and>
       snd (serve_inbox L S r n) = snd (snd (ProcessInbound L S env n)))"
proof -
  have obj: "as_obj v = Some env \<longleftrightarrow> v = GMap env" for v env
    by (cases v) auto
  show ?thesis
    by (simp add: serve_inbox_def readAll_def case_prod_beta obj split: option.split)
qed

text \<open>
  C15: over HTTP a node changes in two ways only. Whatever the request, the node it leaves is the node it found, unless the
  request is a POST to the inbox whose body, cut at a mebibyte, decodes to an object that is then
  processed as an envelope, or it is a POST to one of the six admin paths that carries the admin token (or no token is
  configured), and then the change is one operation of the node. In particular no GET, no other method and no unauthorised
  request has an effect.
\<close>

theorem requests_are_guarded:
  "snd (serve L S r n) = n \<or>
   rq_Method r = ''POST'' \<and>
     (rq_Path r = ''/lp/inbox'' \<and> (\<exists>body env. rq_Body r = Some body \<and> DecodeJSON (take (2 ^ 20) body) = Some (GMap env) \<and>
        snd (serve L S r n) = snd (snd (ProcessInbound L S env n))) \<or>
      rq_Path r \<in> {''/admin/contact'', ''/admin/transfer'', ''/admin/adjust'', ''/admin/ud'', ''/admin/abort'', ''/admin/member''} \<and>
        AdminAuthorized (rq_Header r ''Authorization'') n \<and> admin_step L n (snd (serve L S r n)))"
  using serve_routes [of L S r n]
proof (elim disjE exE conjE)
  fix h
  assume h: "(rq_Path r, h) \<in> set ((''/lp/inbox'', serve_inbox L S) # admin_routes L)" "serve L S r n = h r n"
  then consider "rq_Path r = ''/lp/inbox''" "h = serve_inbox L S" | "(rq_Path r, h) \<in> set (admin_routes L)"
    by auto
  then show ?thesis
  proof cases
    case 1
    then show ?thesis
      using serve_inbox_guarded [of L S r n] h(2) by auto
  next
    case 2
    then have "rq_Path r \<in> {''/admin/contact'', ''/admin/transfer'', ''/admin/adjust'', ''/admin/ud'', ''/admin/abort'', ''/admin/member''}"
      unfolding admin_routes_def by auto
    then show ?thesis
      using admin_routes_step [OF 2, of r n] h(2) by metis
  qed
qed simp

lemma admin_step_is_step: "admin_step L n n' \<Longrightarrow> contact_ref n (newID L (n_rand n)) = None \<Longrightarrow> node_step L n n'"
  by (induction rule: admin_step.induct) (rule node_step.intros; assumption)+

section \<open>The types of a decoded request\<close>

definition has_kind :: "kind \<Rightarrow> field \<Rightarrow> bool" where
  "has_kind k f = (case f of FString _ \<Rightarrow> k = KString | FInt64 _ \<Rightarrow> k = KInt64 | FBool _ \<Rightarrow> k = KBool)"

definition typed :: "(string \<times> kind) list \<Rightarrow> (string, field) gomap \<Rightarrow> bool" where
  "typed fs m \<longleftrightarrow> map fst m = map fst fs \<and> (\<forall>fk \<in> set fs. \<exists>f. map_of m (fst fk) = Some f \<and> has_kind (snd fk) f)"

lemma set_field_kind: "set_field k v old = Some f \<Longrightarrow> has_kind k old \<Longrightarrow> has_kind k f"
  by (auto simp: set_field_def has_kind_def split: gval.splits if_splits)

lemma mput_keys: "k \<in> fst ` set m \<Longrightarrow> map fst (mput k v m) = map fst m"
  unfolding mput_def by (induction m) auto

lemma typed_mput:
  assumes "typed fs m" "(name, k) \<in> set fs" "has_kind k f" "distinct (map fst fs)"
  shows "typed fs (mput name f m)"
proof -
  have "fst ` set m = fst ` set fs"
    using assms(1) unfolding typed_def by (metis set_map)
  then have "map fst (mput name f m) = map fst fs"
    using assms(1,2) mput_keys [of name m f] by (force simp: typed_def)
  moreover have "snd fk = k" if "fk \<in> set fs" "fst fk = name" for fk
    using that assms(2,4) by (metis eq_key_imp_eq_value prod.collapse)
  ultimately show ?thesis
    using assms(1,3) by (auto simp: typed_def)
qed

lemma fill_fields_typed:
  "fill_fields fs kvs m = Some m' \<Longrightarrow> typed fs m \<Longrightarrow> distinct (map fst fs) \<Longrightarrow> typed fs m'"
proof (induction fs kvs m rule: fill_fields.induct)
  case (2 fs k v kvs m)
  show ?case
  proof (cases "find (\<lambda>f. fold_name (fst f) = fold_name k) fs")
    case (Some nk)
    then obtain name kd where nk: "nk = (name, kd)" "(name, kd) \<in> set fs"
      by (metis find_Some_iff nth_mem prod.exhaust)
    then obtain old where old: "map_of m name = Some old" "has_kind kd old"
      using 2(4) by (force simp: typed_def)
    obtain f where f: "set_field kd v old = Some f" "fill_fields fs kvs (mput name f m) = Some m'"
      using 2(3) Some nk old by (auto split: option.splits)
    have "typed fs (mput name f m)"
      using set_field_kind [OF f(1) old(2)] by (intro typed_mput [OF 2(4) nk(2) _ 2(5)])
    then show ?thesis
      using 2(2) [OF Some nk(1) [symmetric] _ f(2) _ 2(5)] old f(1) by simp
  qed (use 2 in simp)
qed simp

lemma zero_typed: "distinct (map fst fs) \<Longrightarrow> typed fs (map (\<lambda>f. (fst f, zero_field (snd f))) fs)"
proof -
  assume d: "distinct (map fst fs)"
  have "has_kind k (zero_field k)" for k
    by (cases k) (simp_all add: has_kind_def zero_field_def)
  moreover have "map_of (map (\<lambda>f. (fst f, zero_field (snd f))) fs) (fst fk) = Some (zero_field (snd fk))" if "fk \<in> set fs" for fk
    using d that by (intro map_of_is_SomeI) (auto simp: comp_def)
  ultimately show ?thesis
    by (auto simp: typed_def)
qed



end
