(* ===== verification/LP_Federation.thy ===== *)
theory LP_Federation
  imports LP_Client LP_Keys
begin

text \<open>
  Client and server put together: what a node sees of a peer that serves its handlers at its base URL is what the
  peer's operations give, up to what the JSON text forgets, and an envelope sent that way is judged as it was built.
\<close>

section \<open>Envelopes that differ in what JSON forgets\<close>

definition same_env :: "obj \<Rightarrow> obj \<Rightarrow> bool" where
  "same_env e e' \<longleftrightarrow> norm (GMap e) = norm (GMap e')"

definition norm_obj :: "obj \<Rightarrow> obj" where
  "norm_obj m = (case norm (GMap m) of GMap m' \<Rightarrow> m' | _ \<Rightarrow> [])"

lemma norm_obj [simp]: "norm (GMap m) = GMap (norm_obj m)"
  by (simp add: norm_obj_def Let_def)

lemma norm_get:
  assumes "norm (GMap m) = norm (GMap m')"
  shows "map_option norm (map_of m k) = map_option norm (map_of m' k)"
proof -
  let ?f = "\<lambda>m k. case map_option norm (map_of m k) of Some v \<Rightarrow> v | None \<Rightarrow> GNil"
  have lists: "map (\<lambda>k. (k, ?f m k)) (sorted_keys m) = map (\<lambda>k. (k, ?f m' k)) (sorted_keys m')"
    using assms unfolding norm_GMap by simp
  have fsts: "map fst (map (\<lambda>k. (k, g k)) ks) = ks" for g :: "string \<Rightarrow> gval" and ks
    by (simp add: comp_def)
  have keys: "sorted_keys m = sorted_keys m'"
    using arg_cong [OF lists, of "map fst"] by (simp only: fsts)
  have dom: "k \<in> set (sorted_keys kvs) \<longleftrightarrow> map_of kvs k \<noteq> None" for kvs :: obj
    by (simp add: map_of_eq_None_iff)
  show ?thesis
  proof (cases "k \<in> set (sorted_keys m)")
    case True
    then have "?f m k = ?f m' k"
      using lists unfolding keys by (simp only: map_eq_conv prod.inject simp_thms)
    then show ?thesis
      using True dom [of m] dom [of m'] keys by auto
  next
    case False
    then show ?thesis
      using dom [of m] dom [of m'] keys by simp
  qed
qed

lemma norm_obj_get:
  assumes "norm (GMap m) = norm (GMap m')"
  shows "norm (obj_get m k) = norm (obj_get m' k)"
  using norm_get [OF assms, of k] by (auto simp: obj_get_def split: option.splits)

lemma asString_norm [simp]: "asString (norm v) = asString v"
  by (cases v) (simp_all add: Let_def del: norm_obj)

lemma asInt_norm' [simp]: "asInt (norm v) = asInt v"
  by (cases v) (simp_all add: Let_def ParseInt_dec64 prod_eq_iff del: norm_obj)

lemma norm_kind: "norm v = norm w \<Longrightarrow> (\<exists>m. v = GMap m) \<longleftrightarrow> (\<exists>m. w = GMap m)"
  by (cases v; cases w) (simp_all add: Let_def del: norm_obj)

lemma same_envD:
  assumes "same_env e e'"
  shows "envStr e k = envStr e' k" "pInt e k = pInt e' k" "norm (obj_get e k) = norm (obj_get e' k)"
proof -
  show n: "norm (obj_get e k) = norm (obj_get e' k)"
    using assms norm_obj_get unfolding same_env_def by blast
  show "envStr e k = envStr e' k"
    using arg_cong [OF n, of asString] by (simp add: envStr_def)
  show "pInt e k = pInt e' k"
    using arg_cong [OF n, of asInt] by (simp add: pInt_def)
qed

lemma SigningBytes_same:
  assumes "same_env e e'"
  shows "SigningBytes e = SigningBytes e'"
proof -
  let ?u = "\<lambda>e. filter (\<lambda>kv. fst kv \<noteq> ''sig'') e"
  have get: "map_option norm (map_of e k) = map_option norm (map_of e' k)" for k
    by (rule norm_get [OF assms [unfolded same_env_def]])
  have u: "map_option norm (map_of (?u e) k) = map_option norm (map_of (?u e') k)" for k
    using get [of k] by (cases "k = ''sig''") (simp_all add: map_of_filter_sig)
  then have dom: "map_of (?u e) k = None \<longleftrightarrow> map_of (?u e') k = None" for k
    by (metis option.map_disc_iff)
  have "k \<in> fst ` set d \<longleftrightarrow> map_of d k \<noteq> None" for k and d :: obj
    by (simp add: map_of_eq_None_iff)
  then have "fst ` set (?u e) = fst ` set (?u e')"
    using dom by blast
  then have "sorted_keys (?u e) = sorted_keys (?u e')"
    by (intro sorted_keys_cong) (simp only: set_map)
  then have "norm (GMap (?u e)) = norm (GMap (?u e'))"
    by (rule norm_GMap_eqI) (rule u)
  then show ?thesis
    unfolding SigningBytes_def Canonical_def by (metis writeCanonical_norm)
qed

lemma same_sig:
  assumes "same_env e e'"
  obtains (neither) "as_obj (obj_get e ''sig'') = None" "as_obj (obj_get e' ''sig'') = None"
  | (both) s s' where "obj_get e ''sig'' = GMap s" "obj_get e' ''sig'' = GMap s'" "same_env s s'"
proof -
  have n: "norm (obj_get e ''sig'') = norm (obj_get e' ''sig'')"
    by (rule same_envD(3) [OF assms])
  show thesis
  proof (cases "\<exists>s. obj_get e ''sig'' = GMap s")
    case True
    then obtain s s' where "obj_get e ''sig'' = GMap s" "obj_get e' ''sig'' = GMap s'"
      using norm_kind [OF n] by blast
    then show thesis
      using n both by (simp add: same_env_def)
  next
    case False
    have none: "as_obj v = None" if "\<not> (\<exists>s. v = GMap s)" for v
      using that by (cases v) auto
    have "\<not> (\<exists>s. obj_get e' ''sig'' = GMap s)"
      using False norm_kind [OF n] by (simp only: simp_thms)
    then show thesis
      by (rule neither [OF none [OF False] none])
  qed
qed

lemma ValidateEnvelope_same:
  assumes "same_env e e'"
  shows "ValidateEnvelope L e st = ValidateEnvelope L e' st"
  using assms
proof (cases rule: same_sig)
  case neither
  have "ValidateEnvelope L d st = VerdictMalformed" if "as_obj (obj_get d ''sig'') = None" for d
    using that by (cases "obj_get d ''sig''") (simp_all add: ValidateEnvelope_def)
  then show ?thesis
    using neither by simp
next
  case (both s s')
  have "asString (obj_get e k) = asString (obj_get e' k)" "asString (obj_get s k) = asString (obj_get s' k)" for k
    using arg_cong [OF same_envD(3) [OF assms], of asString] arg_cong [OF same_envD(3) [OF both(3)], of asString] by simp_all
  moreover have "envInt e k = envInt e' k" for k
    using same_envD(2) [OF assms] by (simp add: envInt_pInt)
  moreover have "VerifyEnvelope L e = VerifyEnvelope L e'"
    using SigningBytes_same [OF assms] by (simp add: VerifyEnvelope_def fun_eq_iff)
  ultimately show ?thesis
    unfolding ValidateEnvelope_def Let_def both(1,2) gval.case by (simp only:)
qed

text \<open>The verdict on an envelope does not depend on what JSON forgets.\<close>

lemma verdict_same:
  assumes "same_env e e'"
  shows "fst (ProcessInbound L S e n) = fst (ProcessInbound L S e' n)"
proof -
  have "pStr (obj_or_nil (obj_get e ''sig'')) k = pStr (obj_or_nil (obj_get e' ''sig'')) k" for k
    using assms
  proof (cases rule: same_sig)
    case neither
    then show ?thesis
      by (simp add: obj_or_nil_def)
  next
    case (both s s')
    then show ?thesis
      using same_envD(1) [OF both(3)] by (simp add: obj_or_nil_def pStr_def envStr_def)
  qed
  then show ?thesis
    using same_envD(1) [OF assms] ValidateEnvelope_same [OF assms]
    by (simp add: ProcessInbound_def Let_def case_prod_beta split: sum.split)
qed

lemma norm_norm [simp]: "norm (norm v) = norm v"
proof (induction v)
  case (GMap kvs)
  let ?n = "map (\<lambda>k. (k, case map_option norm (map_of kvs k) of Some v \<Rightarrow> v | None \<Rightarrow> GNil)) (sorted_keys kvs)"
  have "norm (GMap ?n) = norm (GMap kvs)"
  proof (rule norm_GMap_eqI)
    fix k
    assume "k \<in> fst ` set ?n"
    then have k: "k \<in> set (sorted_keys kvs)"
      by (simp add: image_image)
    then obtain v where v: "map_of kvs k = Some v"
      by (metis domD dom_map_of_conv_image_fst set_sorted_keys)
    moreover have "norm (norm v) = norm v"
      using GMap map_of_SomeD [OF v] by (metis snd_conv snds.intros)
    ultimately show "map_option norm (map_of ?n k) = map_option norm (map_of kvs k)"
      by (subst norm_members [OF k]) simp
  qed (rule sorted_keys_idem)
  then show ?case
    by (simp only: norm_GMap)
qed simp_all

lemma norm_redecode: "norm (redecode v) = norm v"
proof (induction v)
  case (GMap kvs)
  have "norm (GMap (map (\<lambda>kv. (fst kv, redecode (snd kv))) kvs)) = norm (GMap kvs)"
  proof (rule norm_GMap_eqI)
    fix k
    show "map_option norm (map_of (map (\<lambda>kv. (fst kv, redecode (snd kv))) kvs) k) = map_option norm (map_of kvs k)"
    proof (cases "map_of kvs k")
      case (Some v)
      have "norm (redecode v) = norm v"
        using GMap map_of_SomeD [OF Some] by (metis snd_conv snds.intros)
      then show ?thesis
        using Some by (simp add: map_of_map_snd)
    qed (simp add: map_of_map_snd)
  qed (rule sorted_keys_cong, simp add: image_image)
  then show ?case
    by simp
qed simp_all

declare norm.simps(3) [simp del]

lemma same_norm_obj [simp]: "same_env (norm_obj e) e"
  by (metis norm_norm norm_obj same_env_def)

lemma same_wire [simp]: "same_env (wire e) e"
  using norm_redecode [of "GMap e"] by (simp add: same_env_def wire_def map_obj_def del: norm_obj)

lemma same_env_trans: "same_env a b \<Longrightarrow> same_env c b \<Longrightarrow> same_env a c"
  by (simp add: same_env_def)

section \<open>Documents over HTTP\<close>

lemma readable_float_free: "readable d v \<Longrightarrow> float_free v"
proof (induction v arbitrary: d)
  case (GMap kvs)
  then show ?case
    by (metis float_free.simps(5) prod.collapse readable.simps(6) snds.intros)
qed auto

lemma readable_canonical: "readable d v \<Longrightarrow> \<exists>t. writeCanonical v = Inr t"
  using readable_float_free float_free_canon_ok by (fastforce simp: canon_ok_def is_ok_iff)

lemma line_ends [simp]: "num_ends [CHR 0x0A]" "num_ends []"
  by (simp_all add: num_ends_def is_digit_def)

lemma decode_writeJSON:
  assumes "readable max_depth v"
  shows "DecodeJSON (writeJSON v) = Some (norm v)" "writeJSON v \<noteq> []"
proof -
  obtain t where t: "writeCanonical v = Inr t"
    using readable_canonical [OF assms] by blast
  show "DecodeJSON (writeJSON v) = Some (norm v)"
    using Decode_written [OF t assms line_ends(1), of False] t by (simp add: writeJSON_def Canonical_def esc_def)
  show "writeJSON v \<noteq> []"
    using t by (simp add: writeJSON_def Canonical_def)
qed

lemma HasPrefix_self [simp]: "HasPrefix (p @ s) p"
  by (simp add: HasPrefix_def)

lemma served_at:
  "served render L S base meth (base @ path) body n =
     (case serve L S \<lparr>rq_Method = meth, rq_Path = path, rq_Header = (\<lambda>_. []), rq_Body = Some body\<rparr> n of
        (Response status p, n) \<Rightarrow> (Some (status, Some (response_body render p)), n)
      | (_, n) \<Rightarrow> (None, n))"
  by (simp add: served_def)

lemma fetch_served:
  assumes "serve L S \<lparr>rq_Method = ''GET'', rq_Path = path, rq_Header = (\<lambda>_. []), rq_Body = Some []\<rparr> n = (ok_json m, n)"
    and "readable max_depth (GMap m)"
  shows "fetch_object (served render L S base) (base @ path) n = (Inr (norm_obj m), n)"
  using assms decode_writeJSON [OF assms(2)] by (simp add: fetch_object_def served_at ok_json_def response_body_def)

lemma serve_documents:
  "rq_Path r = ''/.well-known/liquiditypub'' \<Longrightarrow> serve L S r n = (ok_json (IdentityDoc n), n)"
  "rq_Path r = ''/lp/checkpoint.json'' \<Longrightarrow> Checkpoint L n = Some cp \<Longrightarrow> serve L S r n = (ok_json cp, n)"
  by (simp_all add: serve_def exact_routes_def view_def)

lemma serve_outbox:
  "rq_Path r = ''/lp/outbox/'' @ h @ ''.json'' \<Longrightarrow> serve L S r n = (Response 200 (JSON (GArr (map GMap (OutboxFor h n)))), n)"
  using TrimPrefix_append [of "''/lp/outbox/''" "h @ ''.json''"]
  by (simp add: serve_def exact_routes_def admin_routes_def subtree_routes_def view_def HasPrefix_def)

lemma outbox_objects: "List.map_filter as_obj (map norm (map GMap es)) = map norm_obj es"
  by (induction es) (simp_all add: List.map_filter_simps)

text \<open>
  C17: the client sees the peer as it is. Fetching the identity document, the checkpoint or the outbox of a
  host from a peer that serves its handlers at its base gives the document the peer's own operation
  returns, up to member order and the two spellings of an integer, for every document that JSON can carry (valid
  UTF-8, within the depth limit), and leaves the peer as it was.
\<close>

theorem fetched_as_served:
  assumes "readable max_depth (GMap (IdentityDoc n))" "Checkpoint L n = Some cp" "readable max_depth (GMap cp)"
    and "readable max_depth (GArr (map GMap (OutboxFor h n)))"
  shows "FetchIdentity_http (served render L S base) base n = (Inr (norm_obj (IdentityDoc n)), n) \<and>
    FetchCheckpoint_http (served render L S base) base n = (Inr (norm_obj cp), n) \<and>
    FetchOutbox_http (served render L S base) base h n = (Inr (map norm_obj (OutboxFor h n)), n)"
proof (intro conjI)
  show "FetchIdentity_http (served render L S base) base n = (Inr (norm_obj (IdentityDoc n)), n)"
    unfolding FetchIdentity_http_def by (rule fetch_served [OF serve_documents(1) assms(1)]) simp
  show "FetchCheckpoint_http (served render L S base) base n = (Inr (norm_obj cp), n)"
    unfolding FetchCheckpoint_http_def by (rule fetch_served [OF serve_documents(2) assms(3)]) (use assms(2) in simp_all)
  show "FetchOutbox_http (served render L S base) base h n = (Inr (map norm_obj (OutboxFor h n)), n)"
    using decode_writeJSON [OF assms(4)] outbox_objects [of "OutboxFor h n"]
      serve_outbox [of "\<lparr>rq_Method = ''GET'', rq_Path = ''/lp/outbox/'' @ h @ ''.json'', rq_Header = \<lambda>_. [], rq_Body = Some []\<rparr>" h L S n]
    by (simp add: FetchOutbox_http_def served_at response_body_def)
qed

lemma valid_utf8_ascii: "ascii s \<Longrightarrow> valid_utf8 s"
  by (induction s) (simp_all add: rune_size_def)

definition quiet :: Node where
  "quiet = empty_node (demo_cfg ''https://a.example'' ''ann'') [] 0 0
     \<lparr>n_outbox := [(''b.example'', [[(''seq'', GInt 1), (''id'', GStr ''x'')]])]\<rparr>"

text \<open>A checkpoint has no value that cannot be signed, so \<open>Checkpoint\<close> does not panic.\<close>

lemma SignEnvelope_floats: "SignEnvelope L cp p = Inl e \<Longrightarrow> \<not> float_free (GMap cp)"
  using SigningBytes_ok [of cp] by (cases "SigningBytes cp") (auto simp: SignEnvelope_def)

lemma Checkpoint_some: "\<exists>cp. Checkpoint L n = Some cp"
  by (auto simp: Checkpoint_def Let_def checkpoint_entry_def dest!: SignEnvelope_floats split: sum.split)

lemma demo_clock: "ascii (fmt_time demo t)"
  using demo_rfc3339 by (simp add: rfc3339_correct_def)

lemmas quiet_defs = quiet_def empty_node_def demo_cfg_def

theorem fetched_as_served_witness:
  "fst (FetchOutbox_http (served (\<lambda>_. []) demo None ''https://a.example'') ''https://a.example'' ''b.example'' quiet) =
    Inr [[(''id'', GStr ''x''), (''seq'', GNumber ''1'')]]"
proof -
  have doc: "readable max_depth (GMap (IdentityDoc quiet))"
    by (simp add: quiet_defs IdentityDoc_def keyDocs_def peerList_def Let_def max_depth_def valid_utf8_ascii del: valid_utf8.simps)
  obtain cp where cp: "Checkpoint demo quiet = Some cp"
    using Checkpoint_some by blast
  then have cp_text: "readable max_depth (GMap cp)"
    by (auto simp: Checkpoint_def Let_def quiet_defs max_depth_def valid_utf8_ascii Head_def New_def b64_def now_text_def keyID_def identityPath_def
        demo_clock simp del: valid_utf8.simps split: sum.splits)
  have box: "readable max_depth (GArr (map GMap (OutboxFor ''b.example'' quiet)))"
    by (simp add: quiet_defs OutboxFor_def mgetl_def max_depth_def valid_utf8_ascii del: valid_utf8.simps)
  have "map norm_obj (OutboxFor ''b.example'' quiet) = [norm_obj [(''seq'', GInt 1), (''id'', GStr ''x'')]]"
    by (simp add: quiet_defs OutboxFor_def mgetl_def)
  moreover have "norm_obj [(''seq'', GInt 1), (''id'', GStr ''x'')] = [(''id'', GStr ''x''), (''seq'', GNumber ''1'')]"
    by code_simp
  ultimately show ?thesis
    using fetched_as_served [OF doc cp cp_text box, of "\<lambda>_. []" None "''https://a.example''"] by simp
qed

section \<open>Envelopes over HTTP\<close>

lemma serve_inbox_at: "rq_Path r = ''/lp/inbox'' \<Longrightarrow> serve L S r n = serve_inbox L S r n"
  by (simp add: serve_def exact_routes_def)

text \<open>
  C16: delivering over HTTP is processing. Posting the JSON text of an envelope (at most a mebibyte, valid UTF-8, within the
  depth limit) to the inbox of a peer succeeds exactly when the peer's verdict on the envelope itself is ok or duplicate,
  and otherwise fails with the status of that verdict; the peer is left as by processing the envelope with
  its integers as decoded numbers.
\<close>

theorem delivered_as_processed:
  assumes "readable max_depth (GMap env)" "Marshal (GMap env) = Inr text'" "length text' \<le> 2 ^ 20"
  shows "Deliver (served render L S base) base env n =
    (let verdict = fst (ProcessInbound L S env n)
     in if verdict = VerdictOK \<or> verdict = VerdictDuplicate then None else Some (HTTPStatus (statusFor verdict)),
     snd (snd (ProcessInbound L S (norm_obj env) n)))"
proof -
  have "DecodeJSON text' = Some (norm (GMap env))"
    using Decode_written [OF _ assms(1) line_ends(2), of _ True] assms(2) by (auto simp: Marshal_def esc_def split: sum.splits)
  moreover have "fst (ProcessInbound L S (norm_obj env) n) = fst (ProcessInbound L S env n)"
    by (rule verdict_same) simp
  ultimately show ?thesis
    using assms(2,3)
    by (simp add: Deliver_def served_at serve_inbox_at serve_inbox_def readAll_def response_body_def case_prod_beta Let_def statusFor_def)
qed

theorem delivered_as_processed_witness:
  "fst (Deliver (served (\<lambda>_. []) demo None ''https://a.example'') ''https://a.example'' [(''lp'', GStr ''1.0'')] demo_a) =
    Some (HTTPStatus 400)"
proof -
  let ?env = "[(''lp'', GStr ''1.0'')]"
  have t: "Marshal (GMap ?env) = Inr (CHR 0x7B # quot # ''lp'' @ quot # CHR '':'' # quot # ''1.0'' @ [quot, CHR 0x7D])"
    by code_simp
  have "fst (ProcessInbound demo None ?env demo_a) = VerdictMalformed"
    by (simp add: ProcessInbound_def envStr_def major_of_def)
  then show ?thesis
    using delivered_as_processed [OF _ t, of "\<lambda>_. []" demo None "''https://a.example''" demo_a]
    by (simp add: rune_size_def max_depth_def statusFor_def Let_def)
qed

end
