(* ===== verification/LP_File.thy ===== *)
theory LP_File
  imports LP_Prelude
begin

text \<open>
  The store of a node in a file (node/store/store.go): a snapshot is written to a temporary file that then takes the place of the old one.
\<close>

section \<open>The file system\<close>

text \<open>
  The calls of the operating system that the store makes; \<open>False\<close> and \<open>None\<close> are errors. A directory is opened, synced and closed
  by its name, a file by the path it was created under. \<open>os_dir\<close> is \<open>filepath.Dir\<close>.
\<close>

datatype read_result = ReadOK bytes | NotExist | ReadError

record 'w os =
  os_dir :: "string \<Rightarrow> string"
  os_create_temp :: "string \<Rightarrow> 'w \<Rightarrow> string option \<times> 'w"
  os_write :: "string \<Rightarrow> bytes \<Rightarrow> 'w \<Rightarrow> bool \<times> 'w"
  os_sync :: "string \<Rightarrow> 'w \<Rightarrow> bool \<times> 'w"
  os_close :: "string \<Rightarrow> 'w \<Rightarrow> bool \<times> 'w"
  os_rename :: "string \<Rightarrow> string \<Rightarrow> 'w \<Rightarrow> bool \<times> 'w"
  os_remove :: "string \<Rightarrow> 'w \<Rightarrow> bool \<times> 'w"
  os_open :: "string \<Rightarrow> 'w \<Rightarrow> bool \<times> 'w"
  os_read :: "string \<Rightarrow> 'w \<Rightarrow> read_result"

text \<open>
  What is documented, in terms of the files that a reader finds: a temporary file is created under a new name; writing, however it
  ends, changes that file alone, and one that succeeds has written everything; a rename replaces its target in one step or fails
  without effect; syncing, opening and closing change nothing that is read.
\<close>

definition os_ok :: "'w os \<Rightarrow> ('w \<Rightarrow> string \<Rightarrow> bytes option) \<Rightarrow> bool" where
  "os_ok F view \<longleftrightarrow>
     (\<forall>d w t w'. os_create_temp F d w = (Some t, w') \<longrightarrow> view w t = None \<and> view w' = (view w)(t \<mapsto> [])) \<and>
     (\<forall>d w w'. os_create_temp F d w = (None, w') \<longrightarrow> view w' = view w) \<and>
     (\<forall>t x w r w' q. os_write F t x w = (r, w') \<longrightarrow> q \<noteq> t \<longrightarrow> view w' q = view w q) \<and>
     (\<forall>t x w w' old. os_write F t x w = (True, w') \<longrightarrow> view w t = Some old \<longrightarrow> view w' t = Some (old @ x)) \<and>
     (\<forall>t w. view (snd (os_sync F t w)) = view w \<and> view (snd (os_close F t w)) = view w \<and> view (snd (os_open F t w)) = view w) \<and>
     (\<forall>a b w w'. os_rename F a b w = (True, w') \<longrightarrow> view w' = (view w)(b := view w a, a := None)) \<and>
     (\<forall>a b w w'. os_rename F a b w = (False, w') \<longrightarrow> view w' = view w) \<and>
     (\<forall>t w q. q \<noteq> t \<longrightarrow> view (snd (os_remove F t w)) q = view w q) \<and>
     (\<forall>p w x. os_read F p w = ReadOK x \<longrightarrow> view w p = Some x) \<and>
     (\<forall>p w. os_read F p w = NotExist \<longrightarrow> view w p = None)"

section \<open>Saving and loading\<close>

datatype file_error = CreateFailed | WriteFailed | SyncFailed | CloseFailed | RenameFailed | ReadFailed

text \<open>
  \<open>Save\<close> with the states of the file system it goes through, the first included; a process that is killed leaves one of them. The
  temporary file is closed after a failed write or sync, and removed at the end in any case.
\<close>

definition File_Save :: "'w os \<Rightarrow> string \<Rightarrow> bytes \<Rightarrow> 'w \<Rightarrow> file_error option \<times> 'w list" where
  "File_Save F path data w =
     (case os_create_temp F (os_dir F path) w of
        (None, w1) \<Rightarrow> (Some CreateFailed, [w, w1])
      | (Some t, w1) \<Rightarrow>
          let gone = (\<lambda>x. snd (os_remove F t x)); shut = (\<lambda>x. snd (os_close F t x)) in
          (case os_write F t data w1 of
             (False, w2) \<Rightarrow> (Some WriteFailed, [w, w1, w2, shut w2, gone (shut w2)])
           | (True, w2) \<Rightarrow>
               (case os_sync F t w2 of
                  (False, w3) \<Rightarrow> (Some SyncFailed, [w, w1, w2, w3, shut w3, gone (shut w3)])
                | (True, w3) \<Rightarrow>
                    (case os_close F t w3 of
                       (False, w4) \<Rightarrow> (Some CloseFailed, [w, w1, w2, w3, w4, gone w4])
                     | (True, w4) \<Rightarrow>
                         (case os_rename F t path w4 of
                            (False, w5) \<Rightarrow> (Some RenameFailed, [w, w1, w2, w3, w4, w5, gone w5])
                          | (True, w5) \<Rightarrow>
                              (case os_open F (os_dir F path) w5 of
                                 (False, w6) \<Rightarrow> (None, [w, w1, w2, w3, w4, w5, w6, gone w6])
                               | (True, w6) \<Rightarrow>
                                   let w7 = snd (os_sync F (os_dir F path) w6); w8 = snd (os_close F (os_dir F path) w7)
                                   in (None, [w, w1, w2, w3, w4, w5, w6, w7, w8, gone w8])))))))"

definition File_Load :: "'w os \<Rightarrow> string \<Rightarrow> 'w \<Rightarrow> file_error + bytes option" where
  "File_Load F path w =
     (case os_read F path w of ReadOK data \<Rightarrow> Inr (Some data) | NotExist \<Rightarrow> Inr None | ReadError \<Rightarrow> Inl ReadFailed)"

text \<open>\<open>Nop\<close> takes every snapshot and keeps none.\<close>

definition Nop_Save :: "bytes \<Rightarrow> 'w \<Rightarrow> file_error option \<times> 'w" where
  "Nop_Save data w = (None, w)"

definition Nop_Load :: "'w \<Rightarrow> file_error + bytes option" where
  "Nop_Load w = Inr None"

section \<open>Atomicity\<close>

lemma os_facts:
  assumes "os_ok F view"
  shows "os_create_temp F d w = (Some t, w') \<Longrightarrow> view w t = None" "os_create_temp F d w = (Some t, w') \<Longrightarrow> view w' = (view w)(t \<mapsto> [])"
    "os_create_temp F d w = (None, w') \<Longrightarrow> view w' = view w"
    "os_write F t x w = (r, w') \<Longrightarrow> q \<noteq> t \<Longrightarrow> view w' q = view w q"
    "os_write F t x w = (True, w') \<Longrightarrow> view w t = Some old \<Longrightarrow> view w' t = Some (old @ x)"
    "os_sync F t w = (r, w') \<Longrightarrow> view w' = view w" "os_close F t w = (r, w') \<Longrightarrow> view w' = view w"
    "os_open F t w = (r, w') \<Longrightarrow> view w' = view w"
    "view (snd (os_sync F t w)) = view w" "view (snd (os_close F t w)) = view w"
    "os_rename F a b w = (True, w') \<Longrightarrow> view w' = (view w)(b := view w a, a := None)"
    "os_rename F a b w = (False, w') \<Longrightarrow> view w' = view w"
    "q \<noteq> t \<Longrightarrow> view (snd (os_remove F t w)) q = view w q"
    "os_read F p w = ReadOK y \<Longrightarrow> view w p = Some y" "os_read F p w = NotExist \<Longrightarrow> view w p = None"
  using assms unfolding os_ok_def by (simp_all, metis snd_conv, metis snd_conv, metis snd_conv)

text \<open>States that differ in the temporary file at most.\<close>

definition alike :: "('w \<Rightarrow> string \<Rightarrow> bytes option) \<Rightarrow> string \<Rightarrow> 'w \<Rightarrow> 'w \<Rightarrow> bool" where
  "alike view t w w' \<longleftrightarrow> (\<forall>q. q \<noteq> t \<longrightarrow> view w' q = view w q)"

lemma alike_refl [simp]: "alike view t w w"
  by (simp add: alike_def)

lemma alike_step:
  assumes "os_ok F view" "alike view t w w1"
  shows "os_write F t x w1 = (r, w2) \<Longrightarrow> alike view t w w2" "os_sync F d w1 = (r, w2) \<Longrightarrow> alike view t w w2"
    "os_close F d w1 = (r, w2) \<Longrightarrow> alike view t w w2" "os_open F d w1 = (r, w2) \<Longrightarrow> alike view t w w2"
    "os_rename F a b w1 = (False, w2) \<Longrightarrow> alike view t w w2"
    "alike view t w (snd (os_sync F d w1))" "alike view t w (snd (os_close F d w1))" "alike view t w (snd (os_remove F t w1))"
  using assms(2) os_facts [OF assms(1)] unfolding alike_def by metis+

lemma os_removed: "os_ok F view \<Longrightarrow> q \<noteq> t \<Longrightarrow> view (snd (os_remove F t w)) q = view w q"
  by (rule os_facts(13))

text \<open>What a save that has not renamed yet may have touched, and what one that has leaves.\<close>

definition saving :: "('w \<Rightarrow> string \<Rightarrow> bytes option) \<Rightarrow> string \<Rightarrow> string \<Rightarrow> bytes \<Rightarrow> 'w \<Rightarrow> file_error option \<times> 'w list \<Rightarrow> bool" where
  "saving view t path data w rw \<longleftrightarrow>
     (if fst rw = None
      then \<exists>w1 w2 as bs. snd rw = w # as @ w1 # bs @ [w2] \<and> (\<forall>x \<in> set (as). alike view t w x) \<and>
             (\<forall>x \<in> {w1, w2} \<union> set bs. alike view t w1 x) \<and> view w1 path = Some data \<and> (\<forall>q. q \<noteq> path \<longrightarrow> q \<noteq> t \<longrightarrow> view w1 q = view w q)
      else snd rw \<noteq> [] \<and> (\<forall>x \<in> set (snd rw). alike view t w x))"

lemma saving_done:
  assumes "\<forall>x \<in> set xs. alike view t w x" "\<forall>x \<in> {w1, w2} \<union> set bs. alike view t w1 x" "view w1 path = Some data"
    "\<And>q. q \<noteq> path \<Longrightarrow> q \<noteq> t \<Longrightarrow> view w1 q = view w q"
  shows "saving view t path data w (None, w # xs @ w1 # bs @ [w2])"
proof -
  have "\<forall>q. q \<noteq> path \<longrightarrow> q \<noteq> t \<longrightarrow> view w1 q = view w q"
    using assms(4) by blast
  then show ?thesis
    unfolding saving_def fst_conv snd_conv using assms(1-3) by (simp only: simp_thms if_True) blast
qed

lemma renamed:
  assumes ok: "os_ok F view" and t: "t \<noteq> path" and w4: "alike view t w w4" "view w4 t = Some data" and r: "os_rename F t path w4 = (True, w5)"
  shows "view w5 path = Some data" "q \<noteq> path \<Longrightarrow> q \<noteq> t \<Longrightarrow> view w5 q = view w q"
  using os_facts(11) [OF ok r] w4 t by (simp_all add: alike_def)

lemma File_Save_saving:
  assumes ok: "os_ok F view" and t: "os_create_temp F (os_dir F path) w = (Some t, w1)" "t \<noteq> path"
  shows "saving view t path data w (File_Save F path data w)"
proof -
  note step = alike_step [OF ok]
  have a1: "alike view t w w1" "view w1 t = Some []"
    using os_facts(2) [OF ok t(1)] by (simp_all add: alike_def)
  obtain r2 w2 where w2: "os_write F t data w1 = (r2, w2)"
    by (rule prod.exhaust)
  note a2 = step(1) [OF a1(1) w2]
  obtain r3 w3 where w3: "os_sync F t w2 = (r3, w3)"
    by (rule prod.exhaust)
  note a3 = step(2) [OF a2 w3]
  obtain r4 w4 where w4: "os_close F t w3 = (r4, w4)"
    by (rule prod.exhaust)
  note a4 = step(3) [OF a3 w4]
  obtain r5 w5 where w5: "os_rename F t path w4 = (r5, w5)"
    by (rule prod.exhaust)
  obtain r6 w6 where w6: "os_open F (os_dir F path) w5 = (r6, w6)"
    by (rule prod.exhaust)
  note a6 = step(4) [OF alike_refl w6]
  consider "\<not> (r2 \<and> r3 \<and> r4 \<and> r5)" | "r2" "r3" "r4" "r5"
    by blast
  then show ?thesis
  proof cases
    case 1
    have "alike view t w w5" if "\<not> r5"
      using step(5) [OF a4] w5 that by simp
    then show ?thesis
      using 1 a1(1) a2 a3 a4 step(7,8) by (cases r2; cases r3; cases r4; cases r5) (simp_all add: File_Save_def Let_def t(1) w2 w3 w4 w5 saving_def)
  next
    case 2
    have "view w2 t = Some data"
      using os_facts(5) [OF ok w2 [unfolded 2(1)[THEN eqTrueI]] a1(2)] by simp
    then have "view w4 t = Some data"
      using os_facts(6) [OF ok w3] os_facts(7) [OF ok w4] by simp
    note r = renamed [OF ok t(2) a4 this w5 [unfolded 2(4)[THEN eqTrueI]]]
    let ?w7 = "snd (os_sync F (os_dir F path) w6)" and ?w8 = "snd (os_close F (os_dir F path) (snd (os_sync F (os_dir F path) w6)))"
    have before: "\<forall>x \<in> set [w1, w2, w3, w4]. alike view t w x"
      using a1(1) a2 a3 a4 by simp
    show ?thesis
    proof (cases r6)
      case True
      then have "File_Save F path data w = (None, w # [w1, w2, w3, w4] @ w5 # [w6, ?w7, ?w8] @ [snd (os_remove F t ?w8)])"
        using 2 by (simp add: File_Save_def Let_def t(1) w2 w3 w4 w5 w6)
      moreover have "\<forall>x \<in> {w5, snd (os_remove F t ?w8)} \<union> set [w6, ?w7, ?w8]. alike view t w5 x"
        using a6 step(6-8) by simp
      ultimately show ?thesis
        using saving_done [OF before _ r] by (metis (no_types))
    next
      case False
      then have "File_Save F path data w = (None, w # [w1, w2, w3, w4] @ w5 # [w6] @ [snd (os_remove F t w6)])"
        using 2 by (simp add: File_Save_def Let_def t(1) w2 w3 w4 w5 w6)
      moreover have "\<forall>x \<in> {w5, snd (os_remove F t w6)} \<union> set [w6]. alike view t w5 x"
        using a6 step(8) by simp
      ultimately show ?thesis
        using saving_done [OF before _ r] by (metis (no_types))
    qed
  qed
qed

lemma file_save_views:
  assumes ok: "os_ok F view" and temp: "\<And>d v t v'. os_create_temp F d v = (Some t, v') \<Longrightarrow> t \<noteq> path"
    and save: "File_Save F path data w = (res, ws)"
  shows "(\<forall>w' \<in> set ws. view w' path \<in> {view w path, Some data}) \<and>
    (\<forall>w' \<in> set ws. \<forall>q. q \<noteq> path \<and> view w q \<noteq> None \<longrightarrow> view w' q = view w q) \<and>
    view (last ws) path = (if res = None then Some data else view w path)"
proof (cases "os_create_temp F (os_dir F path) w")
  case (Pair ot w1)
  show ?thesis
  proof (cases ot)
    case None
    then show ?thesis
      using save Pair os_facts(3) [OF ok, of "os_dir F path" w w1] by (auto simp: File_Save_def)
  next
    case (Some t)
    then have t: "t \<noteq> path" "view w t = None" and "saving view t path data w (res, ws)"
      using Pair temp os_facts(1) [OF ok] File_Save_saving [OF ok, of path w t w1 data] save by auto
    moreover have "q \<noteq> t" if "view w q = Some y" for q y
      using that t(2) by auto
    ultimately show ?thesis
      by (cases res) (auto simp: saving_def alike_def dest: last_in_set)
  qed
qed

text \<open>
  C25: a save is atomic. In every state the file system goes through, so wherever the process is killed, the file holds the old
  snapshot or the new one, whole, and no other file is touched; when \<open>Save\<close> succeeds it holds the new one, when it
  fails the old one. What is then loaded is the new snapshot, unless reading fails.
\<close>

theorem file_save_is_atomic:
  assumes ok: "os_ok F view" and temp: "\<And>d v t v'. os_create_temp F d v = (Some t, v') \<Longrightarrow> t \<noteq> path"
    and save: "File_Save F path data w = (res, ws)"
  shows "(\<forall>w' \<in> set ws. view w' path \<in> {view w path, Some data}) \<and>
    (\<forall>w' \<in> set ws. \<forall>q. q \<noteq> path \<and> view w q \<noteq> None \<longrightarrow> view w' q = view w q) \<and>
    view (last ws) path = (if res = None then Some data else view w path) \<and>
    (if res = None then File_Load F path (last ws) \<in> {Inr (Some data), Inl ReadFailed} else True)"
proof -
  note views = file_save_views [OF assms]
  have "File_Load F path v \<in> {Inr (Some data), Inl ReadFailed}" if "view v path = Some data" for v
    using os_facts(14,15) [OF ok] that by (force simp: File_Load_def split: read_result.split)
  then have "res = None \<Longrightarrow> File_Load F path (last ws) \<in> {Inr (Some data), Inl ReadFailed}"
    using views by simp
  then show ?thesis
    using views by simp
qed

text \<open>A file system in memory.\<close>

definition mem_os :: "(string \<Rightarrow> bytes option) os" where
  "mem_os =
     \<lparr>os_dir = (\<lambda>_. ''.''),
      os_create_temp = (\<lambda>_ w. if w ''tmp'' = None then (Some ''tmp'', w(''tmp'' \<mapsto> [])) else (None, w)),
      os_write = (\<lambda>t x w. (True, w(t \<mapsto> (case w t of None \<Rightarrow> [] | Some old \<Rightarrow> old) @ x))),
      os_sync = (\<lambda>_ w. (True, w)), os_close = (\<lambda>_ w. (True, w)),
      os_rename = (\<lambda>a b w. (True, w(b := w a, a := None))), os_remove = (\<lambda>t w. (True, w(t := None))),
      os_open = (\<lambda>_ w. (True, w)),
      os_read = (\<lambda>p w. case w p of None \<Rightarrow> NotExist | Some x \<Rightarrow> ReadOK x)\<rparr>"

lemma mem_os_ok: "os_ok mem_os (\<lambda>w. w)"
  by (auto simp: os_ok_def mem_os_def split: if_splits option.splits)

theorem file_save_is_atomic_witness:
  "\<exists>ws. File_Save mem_os ''state'' ''new'' [''state'' \<mapsto> ''old''] = (None, ws) \<and> last ws ''state'' = Some ''new'' \<and>
     list_all (\<lambda>w. w ''state'' = Some ''old'' \<or> w ''state'' = Some ''new'') ws"
proof -
  obtain ws where ws: "File_Save mem_os ''state'' ''new'' [''state'' \<mapsto> ''old''] = (None, ws)"
    by (simp add: File_Save_def mem_os_def)
  have "t \<noteq> ''state''" if "os_create_temp mem_os d v = (Some t, v')" for d v t v'
    using that by (auto simp: mem_os_def split: if_splits)
  then show ?thesis
    using file_save_is_atomic [OF mem_os_ok _ ws] ws by (auto simp: list_all_iff)
qed

end
