(* ===== verification/LP_Restore.thy ===== *)
theory LP_Restore
  imports LP_Keys LP_Json
begin

text \<open>
  What a restart does (\<open>Restore\<close> of node/persist.go): a node brought back from the snapshot it saved is the node that saved it, up to the
  texts that JSON forgets, and satisfies the invariant.
\<close>

section \<open>Maps rebuilt from lists\<close>

lemma foldl_mput: "map_of (foldl (\<lambda>m x. mput (f x) (g x) m) m0 xs) = map_of m0 ++ map_of (rev (map (\<lambda>x. (f x, g x)) xs))"
proof (induction xs arbitrary: m0)
  case (Cons x xs)
  then show ?case
    by (simp add: fun_eq_iff map_add_def split: option.split)
qed simp

lemma map_of_rev_distinct: "distinct (map fst kvs) \<Longrightarrow> map_of (rev kvs) = map_of kvs"
  by (metis distinct_rev map_of_inject_set rev_map set_rev)

lemma rebuilt: "distinct (map f xs) \<Longrightarrow> map_of (foldl (\<lambda>m x. mput (f x) (g x) m) [] xs) = map_of (map (\<lambda>x. (f x, g x)) xs)"
  using map_of_rev_distinct [of "map (\<lambda>x. (f x, g x)) xs"] by (simp add: foldl_mput comp_def)

section \<open>Nodes that can be restored\<close>

text \<open>
  The maps have one entry per key and entries carry the key they are under; every contact struct is found under its id (no
  proposal has taken over another contact's id); keys are 32 bytes with their seed stored.
\<close>

definition keyed :: "('v \<Rightarrow> string) \<Rightarrow> (string, 'v) gomap \<Rightarrow> bool" where
  "keyed f m \<longleftrightarrow> distinct (mkeys m) \<and> (\<forall>kv \<in> set m. f (snd kv) = fst kv)"

definition seeded :: "lib \<Rightarrow> ownKey \<Rightarrow> bool" where
  "seeded L k \<longleftrightarrow> (\<exists>seed. b64_decode (k_Seed k) = Some seed \<and> length seed = 32 \<and>
     k_priv k = NewKeyFromSeed L seed \<and> k_pub k = Public (k_priv k))"

definition restorable :: "lib \<Rightarrow> Node \<Rightarrow> bool" where
  "restorable L n \<longleftrightarrow> node_inv n \<and> keyed m_Name (n_members n) \<and> keyed t_ID (n_transfers n) \<and>
     distinct (mkeys (n_outSeq n)) \<and> distinct (mkeys (n_peerKeys n)) \<and> distinct (mkeys (n_contacts n)) \<and>
     (\<forall>kr \<in> set (n_contacts n). contact_ref n (fst kr) = Some (snd kr)) \<and>
     (\<forall>r < length (n_cells n). contact_ref n (c_ID (cell n r)) = Some r) \<and>
     (\<forall>kp \<in> set (n_peerKeys n). length (snd kp) = 32) \<and>
     list_all (seeded L) (n_ownKeys n) \<and> distinct (map k_LocalID (n_ownKeys n)) \<and>
     (\<exists>k \<in> set (n_ownKeys n). k_LocalID k = n_keyLocalID n \<and> k_priv k = n_priv n \<and> k_pub k = n_pub n) \<and>
     (\<forall>k \<in> set (n_ownKeys n). map_of (n_peerKeys n) (keyID (cfg_Base (n_cfg n)) (k_LocalID k)) = Some (k_pub k)) \<and>
     cfg_Transparency (n_cfg n) \<noteq> []"

lemma keyed_pairs: "keyed f m \<Longrightarrow> map (\<lambda>x. (f x, x)) (map snd m) = m"
  by (induction m) (auto simp: keyed_def mkeys_def)

lemma keyed_distinct: "keyed f m \<Longrightarrow> distinct (map f (map snd m))"
proof -
  assume "keyed f m"
  then have "map f (map snd m) = mkeys m"
    by (auto simp: keyed_def mkeys_def)
  then show ?thesis
    using \<open>keyed f m\<close> by (simp add: keyed_def)
qed

lemma keyed_rebuilt: "keyed f m \<Longrightarrow> map_of (foldl (\<lambda>m x. mput (f x) x m) [] (map snd m)) = map_of m"
  using rebuilt [of f "map snd m" "\<lambda>x. x"] keyed_distinct [of f m] keyed_pairs [of f m] by simp

section \<open>The parts of a snapshot\<close>

lemma restore_keys_seeded: "list_all (seeded L) ks \<Longrightarrow> restore_keys L ks = Inr ks"
  by (induction ks) (auto simp: seeded_def)

definition backfill :: "Contact \<Rightarrow> Contact" where
  "backfill c = (if int (length (c_Roots c)) \<le> sint (c_OpSeq c) then recordRoot c else c)"

lemma backfill_fields [simp]:
  "c_ID (backfill c) = c_ID c" "c_PeerHost (backfill c) = c_PeerHost c" "c_Active (backfill c) = c_Active c"
  "c_Closed (backfill c) = c_Closed c" "c_MyReserveOfPeer (backfill c) = c_MyReserveOfPeer c"
  "c_PendingAdjustDelta (backfill c) = c_PendingAdjustDelta c" "c_OpSeq (backfill c) = c_OpSeq c"
  "c_ChannelRoot (backfill c) = c_ChannelRoot c" "c_PeerReserveOfMe (backfill c) = c_PeerReserveOfMe c"
  by (simp_all add: backfill_def recordRoot_def Let_def)

lemma set_zip_fst: "length xs = length ys \<Longrightarrow> fst ` set (zip xs ys) = set xs"
  by (metis map_fst_zip set_map)

lemma restore_contacts:
  assumes "n_cells n = []" "n_contacts n = []" "n_contactByHost n = []"
  shows "distinct (map c_ID cs) \<Longrightarrow> distinct (map c_PeerHost cs) \<Longrightarrow>
    foldl (\<lambda>n c. restore_contact c n) n cs =
      n\<lparr>n_cells := map backfill cs, n_contacts := zip (map c_ID cs) [0..<length cs],
        n_contactByHost := zip (map c_PeerHost cs) [0..<length cs]\<rparr>"
proof (induction cs rule: rev_induct)
  case (snoc c cs)
  have "mput (c_ID c) (length cs) (zip (map c_ID cs) [0..<length cs]) = zip (map c_ID cs) [0..<length cs] @ [(c_ID c, length cs)]"
    using snoc.prems(1) by (intro mput_new) (simp add: set_zip_fst)
  moreover have "mput (c_PeerHost c) (length cs) (zip (map c_PeerHost cs) [0..<length cs]) =
      zip (map c_PeerHost cs) [0..<length cs] @ [(c_PeerHost c, length cs)]"
    using snoc.prems(2) by (intro mput_new) (simp add: set_zip_fst)
  ultimately show ?case
    using snoc by (simp add: restore_contact_def link_contact_def new_cell_def Let_def backfill_def [symmetric])
qed (use assms in simp)

lemma restored_peer_keys:
  assumes "distinct (mkeys ks)" "\<forall>kp \<in> set ks. length (snd kp) = 32"
  shows "map_of (restore_peer_keys (map (\<lambda>kp. (fst kp, b64_encode (snd kp))) ks)) = map_of ks"
proof -
  have "foldl (\<lambda>m kb. case b64_decode (snd kb) of None \<Rightarrow> m | Some pub \<Rightarrow> if length pub = 32 then mput (fst kb) pub m else m) m0
      (map (\<lambda>kp. (fst kp, b64_encode (snd kp))) ks) = foldl (\<lambda>m kp. mput (fst kp) (snd kp) m) m0 ks" for m0
    using assms(2) by (induction ks arbitrary: m0) (auto simp: b64_decode_encode)
  then show ?thesis
    using rebuilt [of fst ks snd] assms(1) by (simp add: restore_peer_keys_def mkeys_def)
qed

lemma own_keys_kept:
  assumes "\<forall>k \<in> set ks. map_of m (f k) = Some (g k)"
  shows "map_of (foldl (\<lambda>m k. mput (f k) (g k) m) m ks) = map_of m"
proof
  fix x
  have "map_of (rev (map (\<lambda>k. (f k, g k)) ks)) x = Some y \<Longrightarrow> map_of m x = Some y" for y
    using assms by (auto dest!: map_of_SomeD)
  then show "map_of (foldl (\<lambda>m k. mput (f k) (g k) m) m ks) x = map_of m x"
    by (cases "map_of (rev (map (\<lambda>k. (f k, g k)) ks)) x") (simp_all add: foldl_mput map_add_def)
qed

section \<open>Resuming\<close>

text \<open>
  What a restart keeps. The contacts have new addresses, a contact that never recorded a root has its first one filled in; integers
  inside envelopes and receipts come back as decoded numbers.
\<close>

definition resumes :: "Node \<Rightarrow> Node \<Rightarrow> bool" where
  "resumes n n' \<longleftrightarrow>
     n_led n' = n_led n \<and> map_of (n_members n') = map_of (n_members n) \<and> n_currentUD n' = n_currentUD n \<and>
     (\<forall>i. map_option (cell n') (contact_ref n' i) = map_option (\<lambda>r. backfill (cell n r)) (contact_ref n i)) \<and>
     (\<forall>h. map_option (cell n') (host_ref n' h) = map_option (\<lambda>r. backfill (cell n r)) (host_ref n h)) \<and>
     (\<forall>t. map_of (n_transfers n') t =
        map_option (\<lambda>x. x\<lparr>t_Receipt := map_option (map_obj unmarshal) (t_Receipt x)\<rparr>) (map_of (n_transfers n) t)) \<and>
     map_of (n_outSeq n') = map_of (n_outSeq n) \<and>
     (\<forall>h. map_of (n_inState n') h = map_option restore_inbound (map_of (n_inState n) h)) \<and>
     (\<forall>h. map_of (n_outbox n') h = map_option (map wire) (map_of (n_outbox n) h)) \<and>
     n_ownKeys n' = n_ownKeys n \<and> n_keyLocalID n' = n_keyLocalID n \<and> n_priv n' = n_priv n \<and> n_pub n' = n_pub n \<and>
     n_created n' = n_created n \<and> map_of (n_peerKeys n') = map_of (n_peerKeys n) \<and> n_cfg n' = n_cfg n"

lemma restorable_active:
  assumes "restorable L n"
  shows "\<exists>k. find (\<lambda>k. k_LocalID k = n_keyLocalID n) (rev (n_ownKeys n)) = Some k \<and>
    k_LocalID k = n_keyLocalID n \<and> k_priv k = n_priv n \<and> k_pub k = n_pub n"
proof -
  obtain k where k: "k \<in> set (n_ownKeys n)" "k_LocalID k = n_keyLocalID n" "k_priv k = n_priv n" "k_pub k = n_pub n"
    using assms by (auto simp: restorable_def)
  obtain k' where k': "find (\<lambda>k. k_LocalID k = n_keyLocalID n) (rev (n_ownKeys n)) = Some k'"
    using k by (metis (mono_tags, lifting) find_None_iff option.exhaust set_rev)
  then have "k' \<in> set (n_ownKeys n)" "k_LocalID k' = n_keyLocalID n"
    by (auto simp: find_Some_iff in_set_conv_nth) (metis in_set_conv_nth length_rev set_rev)
  then have "k' = k"
    using assms k by (metis (mono_tags, lifting) eq_key_imp_eq_value inj_onD distinct_map restorable_def)
  then show ?thesis
    using k k' by blast
qed

text \<open>The contacts of a snapshot, in the order of the map.\<close>

definition stored :: "Node \<Rightarrow> Contact list" where
  "stored n = map (\<lambda>kr. cell n (snd kr)) (n_contacts n)"

lemma contact_entry:
  assumes "restorable L n" "kr \<in> set (n_contacts n)"
  shows "snd kr < length (n_cells n)" "c_ID (cell n (snd kr)) = fst kr" "host_ref n (c_PeerHost (cell n (snd kr))) = Some (snd kr)"
proof -
  have inv: "node_inv n" and c: "contact_ref n (fst kr) = Some (snd kr)"
    using assms by (auto simp: restorable_def)
  show r: "snd kr < length (n_cells n)" "c_ID (cell n (snd kr)) = fst kr"
    using inv_contact [OF inv c] by simp_all
  show "host_ref n (c_PeerHost (cell n (snd kr))) = Some (snd kr)"
    using inv r(1) by (simp add: node_inv_def linked_def)
qed

lemma stored_ids: "restorable L n \<Longrightarrow> map c_ID (stored n) = mkeys (n_contacts n)"
  by (simp add: stored_def mkeys_def contact_entry(2))

lemma stored_distinct:
  assumes n: "restorable L n"
  shows "distinct (map c_ID (stored n))" "distinct (map c_PeerHost (stored n))"
proof -
  show ids: "distinct (map c_ID (stored n))"
    using n by (simp only: stored_ids [OF n]) (simp add: restorable_def)
  have "inj_on c_PeerHost (set (stored n))"
  proof (rule inj_onI)
    fix c d
    assume "c \<in> set (stored n)" "d \<in> set (stored n)" and h: "c_PeerHost c = c_PeerHost d"
    then obtain k l where "k \<in> set (n_contacts n)" "c = cell n (snd k)" "l \<in> set (n_contacts n)" "d = cell n (snd l)"
      by (auto simp: stored_def)
    then show "c = d"
      using contact_entry(3) [OF n] h by (metis option.inject)
  qed
  moreover have "distinct (stored n)"
    using ids by (simp only: distinct_map)
  ultimately show "distinct (map c_PeerHost (stored n))"
    by (simp add: distinct_map)
qed

text \<open>Looking a contact up among the rebuilt cells is looking it up among the entries.\<close>

lemma map_of_zip_map_snd: "map_option g (map_of (zip xs ys) x) = map_of (zip xs (map g ys)) x"
  by (induction xs ys rule: list_induct2') auto

lemma zip_lookup: "map_option (\<lambda>r. map f cs ! r) (map_of (zip xs [0..<length cs]) x) = map_of (zip xs (map f cs)) x"
proof -
  have "map (\<lambda>r. map f cs ! r) [0..<length cs] = map f cs"
    by (rule nth_equalityI) simp_all
  then show ?thesis
    by (simp only: map_of_zip_map_snd)
qed

lemma stored_by_id:
  assumes n: "restorable L n"
  shows "map_of (zip (map c_ID (stored n)) (map backfill (stored n))) i = map_option (\<lambda>r. backfill (cell n r)) (contact_ref n i)"
proof -
  have "zip (mkeys (n_contacts n)) (map backfill (stored n)) = map (\<lambda>kr. (fst kr, backfill (cell n (snd kr)))) (n_contacts n)"
    by (simp add: mkeys_def stored_def zip_map_map zip_same_conv_map comp_def)
  then show ?thesis
    by (simp only: stored_ids [OF n]) (simp add: contact_ref_def map_of_map_snd [of "\<lambda>r. backfill (cell n r)"])
qed

lemma stored_by_host:
  assumes n: "restorable L n"
  shows "map_of (zip (map c_PeerHost (stored n)) (map backfill (stored n))) h = map_option (\<lambda>r. backfill (cell n r)) (host_ref n h)"
proof -
  have inv: "node_inv n"
    using n by (simp add: restorable_def)
  let ?l = "map (\<lambda>c. (c_PeerHost c, backfill c)) (stored n)"
  have l: "zip (map c_PeerHost (stored n)) (map backfill (stored n)) = ?l"
    by (simp add: zip_map_map zip_same_conv_map)
  have d: "distinct (map fst ?l)"
    using stored_distinct(2) [OF n] by (simp add: comp_def)
  show ?thesis
  proof (cases "host_ref n h")
    case None
    have "h \<notin> fst ` set ?l"
      using contact_entry(3) [OF n] None by (auto simp: stored_def)
    then show ?thesis
      using None l by (simp add: map_of_eq_None_iff [THEN iffD2] del: map_map)
  next
    case (Some r)
    then have r: "r < length (n_cells n)" "c_PeerHost (cell n r) = h"
      using inv_host [OF inv] by auto
    then have "contact_ref n (c_ID (cell n r)) = Some r"
      using n by (simp add: restorable_def)
    then have "(c_ID (cell n r), r) \<in> set (n_contacts n)"
      by (simp add: contact_ref_def map_of_SomeD)
    then have "cell n r \<in> set (stored n)"
      by (force simp: stored_def)
    then have "(h, backfill (cell n r)) \<in> set ?l"
      using r(2) by force
    then show ?thesis
      using map_of_is_SomeI [OF d] Some l by simp
  qed
qed

lemma Load_Records: "wf_ledger l \<Longrightarrow> Load (Records l) = Inr l"
  by (auto simp: Load_def wf_ledger_def VerifyChain_def Records_def Let_def derived_def split: option.splits)

text \<open>The node that \<open>Restore\<close> makes of the snapshot of \<open>n\<close>.\<close>

definition resumed :: "store \<Rightarrow> int \<Rightarrow> nat \<Rightarrow> Node \<Rightarrow> Node" where
  "resumed s t i n =
     n\<lparr>n_clock := t, n_rand := i, n_store := Some s, n_pushed := [], n_panic := False,
       n_members := foldl (\<lambda>m x. mput (m_Name x) x m) [] (map snd (n_members n)),
       n_cells := map backfill (stored n),
       n_contacts := zip (map c_ID (stored n)) [0..<length (stored n)],
       n_contactByHost := zip (map c_PeerHost (stored n)) [0..<length (stored n)],
       n_transfers := foldl (\<lambda>m x. mput (t_ID x) (x\<lparr>t_Receipt := map_option (map_obj unmarshal) (t_Receipt x)\<rparr>) m) []
         (map snd (n_transfers n)),
       n_outSeq := foldl (\<lambda>m kv. mput (fst kv) (snd kv) m) [] (n_outSeq n),
       n_inState := map (\<lambda>hi. (fst hi, restore_inbound (snd hi))) (n_inState n),
       n_outbox := map (\<lambda>he. (fst he, map (map_obj redecode) (snd he))) (n_outbox n),
       n_peerKeys := foldl (\<lambda>m k. mput (keyID (cfg_Base (n_cfg n)) (k_LocalID k)) (k_pub k) m)
         (restore_peer_keys (map (\<lambda>kp. (fst kp, b64_encode (snd kp))) (n_peerKeys n))) (n_ownKeys n)\<rparr>"

lemma Restore_resumed:
  assumes n: "restorable L n" and s: "st_saved s = Some (snapshotLocked n)"
  shows "Restore L (n_cfg n) s t i = Inr (resumed s t i n)"
proof -
  obtain k where k: "find (\<lambda>k. k_LocalID k = n_keyLocalID n) (rev (n_ownKeys n)) = Some k"
    "k_LocalID k = n_keyLocalID n" "k_priv k = n_priv n" "k_pub k = n_pub n"
    using restorable_active [OF n] by blast
  have r: "list_all (seeded L) (n_ownKeys n)" "wf_ledger (n_led n)" "cfg_Transparency (n_cfg n) \<noteq> []"
    using n by (simp_all add: restorable_def node_inv_def)
  have d: "distinct (map c_ID (stored n))" "distinct (map c_PeerHost (stored n))"
    using stored_distinct [OF n] .
  show ?thesis
    using s k r restore_keys_seeded [OF r(1)] Load_Records [OF r(2)] restore_contacts [OF _ _ _ d]
    by (simp add: Restore_def restore_snapshot_def snapshotLocked_def stored_def [symmetric] empty_node_def Let_def resumed_def)
qed

lemma resumed_lookup:
  assumes n: "restorable L n"
  shows "map_option (cell (resumed s t i n)) (contact_ref (resumed s t i n) j) = map_option (\<lambda>r. backfill (cell n r)) (contact_ref n j)"
    "map_option (cell (resumed s t i n)) (host_ref (resumed s t i n) h) = map_option (\<lambda>r. backfill (cell n r)) (host_ref n h)"
proof -
  have c: "cell (resumed s t i n) = (\<lambda>r. map backfill (stored n) ! r)"
    by (simp add: cell_def resumed_def fun_eq_iff)
  have refs: "contact_ref (resumed s t i n) j = map_of (zip (map c_ID (stored n)) [0..<length (stored n)]) j"
    "host_ref (resumed s t i n) h = map_of (zip (map c_PeerHost (stored n)) [0..<length (stored n)]) h"
    by (simp_all add: contact_ref_def host_ref_def resumed_def)
  show "map_option (cell (resumed s t i n)) (contact_ref (resumed s t i n) j) = map_option (\<lambda>r. backfill (cell n r)) (contact_ref n j)"
    unfolding c refs zip_lookup by (rule stored_by_id [OF n])
  show "map_option (cell (resumed s t i n)) (host_ref (resumed s t i n) h) = map_option (\<lambda>r. backfill (cell n r)) (host_ref n h)"
    unfolding c refs zip_lookup by (rule stored_by_host [OF n])
qed

lemma resumed_resumes:
  assumes n: "restorable L n"
  shows "resumes n (resumed s t i n)"
proof -
  have k: "keyed m_Name (n_members n)" "keyed t_ID (n_transfers n)" "distinct (mkeys (n_outSeq n))" "distinct (mkeys (n_peerKeys n))"
    "\<forall>kp \<in> set (n_peerKeys n). length (snd kp) = 32"
    "\<forall>k \<in> set (n_ownKeys n). map_of (n_peerKeys n) (keyID (cfg_Base (n_cfg n)) (k_LocalID k)) = Some (k_pub k)"
    using n by (simp_all add: restorable_def)
  have t: "map_of (foldl (\<lambda>m x. mput (t_ID x) (f x) m) [] (map snd (n_transfers n))) j = map_option f (map_of (n_transfers n) j)" for f j
  proof -
    have "map (\<lambda>x. (t_ID x, f x)) (map snd (n_transfers n)) = map (\<lambda>kv. (fst kv, f (snd kv))) (map (\<lambda>x. (t_ID x, x)) (map snd (n_transfers n)))"
      by simp
    then show ?thesis
      using rebuilt [OF keyed_distinct [OF k(2)], of f] by (simp only: keyed_pairs [OF k(2)] map_of_map_snd)
  qed
  have "map_of (foldl (\<lambda>m kv. mput (fst kv) (snd kv) m) [] (n_outSeq n)) = map_of (n_outSeq n)"
    using rebuilt [of fst "n_outSeq n" snd] k(3) by (simp add: mkeys_def)
  moreover have "map_of (n_peerKeys (resumed s t i n)) = map_of (n_peerKeys n)"
    using own_keys_kept [of "n_ownKeys n" _ "\<lambda>k. keyID (cfg_Base (n_cfg n)) (k_LocalID k)" k_pub] k(6) restored_peer_keys [OF k(4,5)]
    by (simp add: resumed_def)
  ultimately show ?thesis
    using resumed_lookup [OF n] keyed_rebuilt [OF k(1)]
    by (simp add: resumes_def resumed_def t map_of_map_snd wire_def [abs_def])
qed

text \<open>What is found in the resumed node was found in the saved one, and the other way round.\<close>

lemma resumed_found:
  assumes n: "restorable L n"
  shows "contact_ref (resumed s t i n) j = Some r \<Longrightarrow>
      \<exists>r0. contact_ref n j = Some r0 \<and> cell (resumed s t i n) r = backfill (cell n r0) \<and> r < length (n_cells (resumed s t i n))"
    and "host_ref (resumed s t i n) h = Some r \<Longrightarrow>
      \<exists>r0. host_ref n h = Some r0 \<and> cell (resumed s t i n) r = backfill (cell n r0) \<and> r < length (n_cells (resumed s t i n))"
    and "contact_ref n j = Some r0 \<Longrightarrow>
      \<exists>r. contact_ref (resumed s t i n) j = Some r \<and> cell (resumed s t i n) r = backfill (cell n r0)"
    and "host_ref (resumed s t i n) h = None \<longleftrightarrow> host_ref n h = None"
proof -
  have below: "map_of (zip xs [0..<m]) x = Some r \<Longrightarrow> r < m" for xs :: "string list" and m x r
    by (auto dest!: map_of_SomeD set_zip_rightD)
  have len: "n_cells (resumed s t i n) = map backfill (stored n)"
    by (simp add: resumed_def)
  show "\<exists>r0. contact_ref n j = Some r0 \<and> cell (resumed s t i n) r = backfill (cell n r0) \<and> r < length (n_cells (resumed s t i n))"
    if "contact_ref (resumed s t i n) j = Some r"
    using resumed_lookup(1) [OF n, of s t i j] that below [of "map c_ID (stored n)" "length (stored n)" j r]
    by (cases "contact_ref n j") (simp_all add: len, simp add: contact_ref_def resumed_def)
  show "\<exists>r0. host_ref n h = Some r0 \<and> cell (resumed s t i n) r = backfill (cell n r0) \<and> r < length (n_cells (resumed s t i n))"
    if "host_ref (resumed s t i n) h = Some r"
    using resumed_lookup(2) [OF n, of s t i h] that below [of "map c_PeerHost (stored n)" "length (stored n)" h r]
    by (cases "host_ref n h") (simp_all add: len, simp add: host_ref_def resumed_def)
  show "\<exists>r. contact_ref (resumed s t i n) j = Some r \<and> cell (resumed s t i n) r = backfill (cell n r0)"
    if "contact_ref n j = Some r0"
    using resumed_lookup(1) [OF n, of s t i j] that by (cases "contact_ref (resumed s t i n) j") simp_all
  show "host_ref (resumed s t i n) h = None \<longleftrightarrow> host_ref n h = None"
    using resumed_lookup(2) [OF n, of s t i h] by (metis option.map_disc_iff)
qed

text \<open>Every rebuilt cell is a cell of the saved node, under its id and its host.\<close>

lemma resumed_cell:
  assumes n: "restorable L n" and r: "r < length (n_cells (resumed s t i n))"
  shows "\<exists>r0 < length (n_cells n). cell (resumed s t i n) r = backfill (cell n r0)"
    and "contact_ref (resumed s t i n) (c_ID (cell (resumed s t i n) r)) = Some r"
    and "host_ref (resumed s t i n) (c_PeerHost (cell (resumed s t i n) r)) = Some r"
proof -
  have r': "r < length (stored n)"
    using r by (simp add: resumed_def)
  have c: "cell (resumed s t i n) r = backfill (stored n ! r)"
    using r' by (simp add: cell_def resumed_def)
  have "n_contacts n ! r \<in> set (n_contacts n)"
    using r' by (simp add: stored_def)
  from contact_entry(1) [OF n this]
  show "\<exists>r0 < length (n_cells n). cell (resumed s t i n) r = backfill (cell n r0)"
    using c r' by (auto simp: stored_def)
  have nth: "map_of (zip xs [0..<length xs]) (xs ! r) = Some r" if "distinct xs" "r < length xs" for xs :: "string list"
    using that map_of_zip_nth [of xs "[0..<length xs]" r] by simp
  show "contact_ref (resumed s t i n) (c_ID (cell (resumed s t i n) r)) = Some r"
    using nth [OF stored_distinct(1) [OF n]] r' c by (simp add: contact_ref_def resumed_def)
  show "host_ref (resumed s t i n) (c_PeerHost (cell (resumed s t i n) r)) = Some r"
    using nth [OF stored_distinct(2) [OF n]] r' c by (simp add: host_ref_def resumed_def)
qed

lemma resumed_inv:
  assumes n: "restorable L n"
  shows "node_inv (resumed s t i n)"
proof -
  let ?n = "resumed s t i n"
  have inv: "node_inv n"
    using n by (simp add: restorable_def)
  then have wf: "wf_ledger (n_led n)" and li: "linked n" and mi: "mirrored n" and an: "anchored n"
    by (simp_all add: node_inv_def)
  have led: "n_led ?n = n_led n" "wallet ?n h = wallet n h" for h
    by (simp_all add: resumed_def wallet_def)
  note found = resumed_found [OF n, where s = s and t = t and i = i]
  note cell = resumed_cell [OF n, where s = s and t = t and i = i]
  have act: "active_id ?n j" if "active_id n j" for j
    using that found(3) by (fastforce simp: active_id_def)
  have "linked ?n"
    unfolding linked_def
  proof (intro conjI allI impI)
    show "r < length (n_cells ?n)" "c_PeerHost (cell ?n r) = h" if "host_ref ?n h = Some r" for h r
      using found(2) [OF that] inv_host [OF inv] by auto
    show "r < length (n_cells ?n)" if "contact_ref ?n j = Some r" for j r
      using found(1) [OF that] by blast
    show "host_ref ?n (c_PeerHost (cell ?n r)) = Some r" if "r < length (n_cells ?n)" for r
      using cell(3) [OF that] .
  qed
  moreover have "mirrored ?n"
    unfolding mirrored_def led
  proof (intro conjI allI impI)
    show "wallet n (c_PeerHost (cell ?n r)) = c_MyReserveOfPeer (cell ?n r)"
      if "r < length (n_cells ?n)" "\<not> c_Closed (cell ?n r)" for r
      using cell(1) [OF that(1)] that(2) mi by (auto simp: mirrored_def)
    show "wallet n h = 0" if "host_ref ?n h = None" for h
      using that found(4) mi by (simp add: mirrored_def)
    show "c_MyReserveOfPeer (cell ?n r) = 0" if "r < length (n_cells ?n)" "\<not> c_Active (cell ?n r)" for r
      using cell(1) [OF that(1)] that(2) mi by (auto simp: mirrored_def)
  qed
  moreover have "anchored ?n"
    unfolding anchored_def
  proof (intro conjI allI impI)
    show "c_ID (cell ?n r) = j" if "contact_ref ?n j = Some r" for j r
      using found(1) [OF that] inv_contact [OF inv] by auto
    show "active_id ?n (c_ID (cell ?n r))" if "r < length (n_cells ?n)" "c_Active (cell ?n r)" for r
      using cell(2) [OF that(1)] that(2) by (auto simp: active_id_def)
    show "active_id ?n (t_ContactID x)" if "map_of (n_transfers ?n) tid = Some x" for tid x
    proof -
      have "map_of (n_transfers ?n) tid = map_option (\<lambda>x. x\<lparr>t_Receipt := map_option (map_obj unmarshal) (t_Receipt x)\<rparr>) (map_of (n_transfers n) tid)"
        using resumed_resumes [OF n, of s t i] unfolding resumes_def by blast
      with that have "map_option t_ContactID (map_of (n_transfers n) tid) = Some (t_ContactID x)"
        by (cases "map_of (n_transfers n) tid") auto
      then obtain y where "map_of (n_transfers n) tid = Some y" "t_ContactID x = t_ContactID y"
        by auto
      then show ?thesis
        using act inv_transfer_id [OF inv] by simp
    qed
    show "c_PendingAdjustDelta (cell ?n r) = 0" if "r < length (n_cells ?n)" "\<not> c_Active (cell ?n r)" for r
      using cell(1) [OF that(1)] that(2) an by (auto simp: anchored_def)
  qed
  ultimately show ?thesis
    using wf led by (simp add: node_inv_def resumed_def)
qed


definition demo_seed :: bytes where
  "demo_seed = replicate 32 (CHR ''s'')"

definition demo_key :: ownKey where
  "demo_key = \<lparr>k_LocalID = ''#nk1'', k_Seed = b64_encode demo_seed, k_Created = [], k_Revoked = [],
     k_priv = NewKeyFromSeed demo demo_seed, k_pub = Public (NewKeyFromSeed demo demo_seed)\<rparr>"

definition keeper :: Node where
  "keeper = empty_node (demo_cfg ''https://a.example'' ''ann'') (k_priv demo_key) 0 0
     \<lparr>n_ownKeys := [demo_key], n_peerKeys := [(keyID ''https://a.example'' ''#nk1'', k_pub demo_key)],
       n_members := [(''ann'', new_member ''ann'' [])],
       n_cells := [empty_contact ''c1'' ''https://b.example'' ''b.example'' True 1000 0],
       n_contacts := [(''c1'', 0)], n_contactByHost := [(''b.example'', 0)],
       n_outbox := [(''b.example'', [[(''seq'', GInt 1)]])], n_outSeq := [(''b.example'', 1)]\<rparr>"

lemmas keeper_defs = keeper_def empty_node_def demo_cfg_def demo_key_def empty_contact_def new_member_def

lemma keeper_inv: "node_inv keeper"
  by (auto simp: inv_defs active_id_def wallet_def cell_def host_ref_def contact_ref_def wf_ledger_New [unfolded New_def] keeper_defs Balance_def New_def mget0_def)

lemma keeper_restorable: "restorable demo keeper"
proof -
  have "length (k_pub demo_key) = 32" "seeded demo demo_key"
    by (simp_all add: demo_key_def demo_seed_def seeded_def NewKeyFromSeed_def Public_def demo_def b64_decode_encode)
  then show ?thesis
    using keeper_inv by (simp add: restorable_def keyed_def mkeys_def keeper_def empty_node_def demo_cfg_def new_member_def
      contact_ref_def cell_def empty_contact_def) (simp add: demo_key_def)
qed


end
