(* ===== verification/LP_Host.thy ===== *)
theory LP_Host
  imports LP_Client LP_Restore
begin

text \<open>
  Many nodes in one process (gae/host.go): the groups of a clearing house. A group is a node under its host name; two groups
  trade through their contact as any two nodes do, their envelopes handed over in the process.
\<close>

section \<open>The host\<close>

text \<open>
  \<open>h_nodes\<close> is the map from host names to running nodes. The configuration of a group and what its store holds when
  it is opened are arguments of \<open>Open\<close>.
\<close>

record Host =
  h_groupDomain :: string
  h_nodes :: "(string, Node) gomap"

datatype host_error =
    BadGroupID string
  | NotBothOpen string string
  | NoGroup string
  | OfNode node_error
  | OfGroup string node_error
  | NoNodeHere string
  | Refused string string

definition NewHost :: "string \<Rightarrow> Host" where
  "NewHost domain = \<lparr>h_groupDomain = domain, h_nodes = []\<rparr>"

definition gid_first :: "char \<Rightarrow> bool" where
  "gid_first c \<longleftrightarrow> c \<in> set ''abcdefghijklmnopqrstuvwxyz0123456789''"

text \<open>\<open>^[a-z0-9][a-z0-9-]{1,30}$\<close>.\<close>

definition gidRE :: "string \<Rightarrow> bool" where
  "gidRE s \<longleftrightarrow>
     (case s of [] \<Rightarrow> False
      | c # cs \<Rightarrow> gid_first c \<and> 1 \<le> length cs \<and> length cs \<le> 30 \<and> list_all (\<lambda>d. gid_first d \<or> d = CHR ''-'') cs)"

definition group_host :: "string \<Rightarrow> Host \<Rightarrow> string" where
  "group_host gid h = gid @ ''.'' @ h_groupDomain h"

definition Base :: "string \<Rightarrow> Host \<Rightarrow> string" where
  "Base gid h = ''https://'' @ gid @ ''.'' @ h_groupDomain h"

definition Group :: "string \<Rightarrow> Host \<Rightarrow> Node option" where
  "Group gid h = map_of (h_nodes h) (group_host gid h)"

definition Groups :: "Host \<Rightarrow> string list" where
  "Groups h = map (\<lambda>k. TrimSuffix k (''.'' @ h_groupDomain h)) (mkeys (h_nodes h))"

text \<open>An operation on the node that runs under a key changes it in place.\<close>

definition put_node :: "string \<Rightarrow> Node \<Rightarrow> Host \<Rightarrow> Host" where
  "put_node k n h = h\<lparr>h_nodes := mput k n (h_nodes h)\<rparr>"

text \<open>
  \<open>Open\<close> gives back the key of the node that runs. \<open>s\<close> is the store of the group, \<open>cfg\<close> its configuration, and
  \<open>t\<close>, \<open>i\<close> the clock and the position of the random source when its node starts.
\<close>

definition Open :: "lib \<Rightarrow> (string \<Rightarrow> string \<Rightarrow> Config) \<Rightarrow> store \<Rightarrow> int \<Rightarrow> nat \<Rightarrow> string \<Rightarrow> string \<Rightarrow> Host \<Rightarrow> (host_error + string) \<times> Host" where
  "Open L cfg s t i gid name h =
     (if \<not> gidRE gid then (Inl (BadGroupID gid), h)
      else if Group gid h \<noteq> None then (Inr (group_host gid h), h)
      else case Restore L ((cfg gid name)\<lparr>cfg_Base := Base gid h\<rparr>) s t i of
          Inl e \<Rightarrow> (Inl (OfNode e), h)
        | Inr n \<Rightarrow>
            if map_of (h_nodes h) (HostOf L n) \<noteq> None then (Inr (HostOf L n), h)
            else (Inr (HostOf L n), put_node (HostOf L n) n h))"

definition Link :: "lib \<Rightarrow> string \<Rightarrow> string \<Rightarrow> i64 \<Rightarrow> Host \<Rightarrow> (host_error + unit) \<times> Host" where
  "Link L a b seed h =
     (case (Group a h, Group b h) of
        (Some na, Some _) \<Rightarrow>
          (case OpenContact L (Base b h) seed ''linked on Kafumu'' na of
             (Inl e, na) \<Rightarrow> (Inl (OfNode e), put_node (group_host a h) na h)
           | (Inr _, na) \<Rightarrow> (Inr (), put_node (group_host a h) na h))
      | _ \<Rightarrow> (Inl (NotBothOpen a b), h))"

text \<open>\<open>RunUD\<close> stops at the first node that fails; the dividends paid before stay paid.\<close>

fun run_all :: "lib \<Rightarrow> string list \<Rightarrow> Host \<Rightarrow> (host_error + unit) \<times> Host" where
  "run_all L [] h = (Inr (), h)"
| "run_all L (k # ks) h =
     (case map_of (h_nodes h) k of
        None \<Rightarrow> run_all L ks h
      | Some n \<Rightarrow>
          (case RunUD L n of
             (Inl e, n) \<Rightarrow> (Inl (OfGroup (HostOf L n) e), put_node k n h)
           | (Inr _, n) \<Rightarrow> run_all L ks (put_node k n h)))"

definition RunUD_host :: "lib \<Rightarrow> Host \<Rightarrow> (host_error + nat) \<times> Host" where
  "RunUD_host L h =
     (case run_all L (mkeys (h_nodes h)) h of
        (Inl e, h') \<Rightarrow> (Inl e, h')
      | (Inr _, h') \<Rightarrow> (Inr (length (h_nodes h)), h'))"

section \<open>Delivery in the process\<close>

definition inproc_node :: "string \<Rightarrow> Host \<Rightarrow> (string \<times> Node) option" where
  "inproc_node base h = find (\<lambda>kn. base = ''https://'' @ fst kn \<or> base = ''https://'' @ fst kn @ ''/'') (h_nodes h)"

text \<open>The documents the nodes ask each other for; each node sends through this.\<close>

definition inproc :: "lib \<Rightarrow> Host \<Rightarrow> sender" where
  "inproc L h =
     \<lparr>FetchIdentity = (\<lambda>base. map_option (\<lambda>kn. IdentityDoc (snd kn)) (inproc_node base h)),
      FetchOutbox = (\<lambda>base me. map_option (\<lambda>kn. OutboxFor me (snd kn)) (inproc_node base h)),
      FetchCheckpoint = (\<lambda>base. case inproc_node base h of None \<Rightarrow> None | Some kn \<Rightarrow> Checkpoint L (snd kn))\<rparr>"

definition inproc_Deliver :: "lib \<Rightarrow> string \<Rightarrow> obj \<Rightarrow> Host \<Rightarrow> host_error option \<times> Host" where
  "inproc_Deliver L peerBase env h =
     (case inproc_node peerBase h of
        None \<Rightarrow> (Some (NoNodeHere peerBase), h)
      | Some (k, n) \<Rightarrow>
          (case ProcessInbound L (Some (inproc L h)) env n of
             (v, _, n) \<Rightarrow>
               (if v \<noteq> VerdictOK \<and> v \<noteq> VerdictDuplicate then Some (Refused peerBase v) else None, put_node k n h)))"

section \<open>Removing a group\<close>

text \<open>\<open>ContactByPeer\<close> of node/accessors.go.\<close>

record ContactView =
  cv_ID :: string
  cv_OpSeq :: i64
  cv_ChannelRoot :: string
  cv_MyReserveOfPeer :: i64
  cv_PeerReserveOfMe :: i64
  cv_Active :: bool
  cv_Busy :: bool
  cv_Diverged :: bool

definition ContactByPeer :: "lib \<Rightarrow> string \<Rightarrow> Node \<Rightarrow> ContactView option" where
  "ContactByPeer L peerBase n =
     map_option (\<lambda>r. let c = cell n r in
        \<lparr>cv_ID = c_ID c, cv_OpSeq = c_OpSeq c, cv_ChannelRoot = channelRootB64 c, cv_MyReserveOfPeer = c_MyReserveOfPeer c,
         cv_PeerReserveOfMe = c_PeerReserveOfMe c, cv_Active = c_Active c,
         cv_Busy = c_Busy c, cv_Diverged = c_Diverged c\<rparr>)
       (host_ref n (host L peerBase))"

text \<open>One round of the loop of \<open>Remove\<close>: a group that knows the one that goes.\<close>

definition part :: "lib \<Rightarrow> string \<Rightarrow> string \<Rightarrow> Host \<Rightarrow> (host_error + unit) \<times> Host" where
  "part L gid other h =
     (case Group other h of
        None \<Rightarrow> (Inr (), h)
      | Some o' \<Rightarrow>
          if other = gid \<or> ContactByPeer L (Base gid h) o' = None then (Inr (), h)
          else
            let h = (case Group gid h of
                       None \<Rightarrow> h
                     | Some d \<Rightarrow> put_node (group_host gid h) (snd (CloseContact L (Base other h) ''group deleted'' d)) h);
                o' = snd (CloseContact L (Base gid h) ''group deleted'' o')
            in (case RetireReserve L (Base gid h) o' of
                  (Inl e, o') \<Rightarrow> (Inl (OfGroup other e), put_node (group_host other h) o' h)
                | (Inr (_, Some e), o') \<Rightarrow> (Inl (OfGroup other e), put_node (group_host other h) o' h)
                | (Inr (_, None), o') \<Rightarrow> (Inr (), put_node (group_host other h) o' h)))"

fun part_all :: "lib \<Rightarrow> string \<Rightarrow> string list \<Rightarrow> Host \<Rightarrow> (host_error + unit) \<times> Host" where
  "part_all L gid [] h = (Inr (), h)"
| "part_all L gid (g # gs) h =
     (case part L gid g h of (Inl e, h) \<Rightarrow> (Inl e, h) | (Inr _, h) \<Rightarrow> part_all L gid gs h)"

definition Remove :: "lib \<Rightarrow> string \<Rightarrow> Host \<Rightarrow> (host_error + unit) \<times> Host" where
  "Remove L gid h =
     (if Group gid h = None then (Inl (NoGroup gid), h)
      else case part_all L gid (Groups h) h of
          (Inl e, h) \<Rightarrow> (Inl e, h)
        | (Inr _, h) \<Rightarrow> (Inr (), h\<lparr>h_nodes := mdel (group_host gid h) (h_nodes h)\<rparr>))"

section \<open>What the operations keep\<close>

lemma put_node_simps [simp]:
  "map_of (h_nodes (put_node k n h)) k' = (if k' = k then Some n else map_of (h_nodes h) k')"
  "h_groupDomain (put_node k n h) = h_groupDomain h"
  "group_host g (put_node k n h) = group_host g h" "Base g (put_node k n h) = Base g h"
  by (simp_all add: put_node_def group_host_def Base_def)

lemma Group_put_node [simp]: "Group g (put_node k n h) = (if group_host g h = k then Some n else Group g h)"
  by (simp add: Group_def)

definition host_inv :: "Host \<Rightarrow> bool" where
  "host_inv h \<longleftrightarrow> (\<forall>kn \<in> set (h_nodes h). node_inv (snd kn))"

lemma host_invD: "host_inv h \<Longrightarrow> map_of (h_nodes h) k = Some n \<Longrightarrow> node_inv n"
  by (auto simp: host_inv_def dest!: map_of_SomeD)

lemma set_mput: "set (mput k v m) \<subseteq> insert (k, v) (set m)"
  unfolding mput_def by (induction m) auto

lemma host_inv_put: "host_inv h \<Longrightarrow> node_inv n \<Longrightarrow> host_inv (put_node k n h)"
  using set_mput [of k n "h_nodes h"] by (auto simp: host_inv_def put_node_def)

lemma Group_inv: "host_inv h \<Longrightarrow> Group g h = Some n \<Longrightarrow> node_inv n"
  unfolding Group_def by (rule host_invD)

text \<open>What a store may hold for a group: nothing, or what a node of this base in order saved.\<close>

definition disk_ok :: "lib \<Rightarrow> string \<Rightarrow> store \<Rightarrow> bool" where
  "disk_ok L base s \<longleftrightarrow>
     (case st_saved s of None \<Rightarrow> True
      | Some snap \<Rightarrow> \<exists>n. restorable L n \<and> cfg_Base (n_cfg n) = base \<and> snap = snapshotLocked n)"

lemma other_config:
  "node_inv (n\<lparr>n_cfg := c\<rparr>) = node_inv n" "snapshotLocked (n\<lparr>n_cfg := c\<rparr>) = snapshotLocked n"
  "cfg_Base c = cfg_Base (n_cfg n) \<Longrightarrow> cfg_Transparency c \<noteq> [] \<Longrightarrow> restorable L n \<Longrightarrow> restorable L (n\<lparr>n_cfg := c\<rparr>)"
proof -
  show inv: "node_inv (n\<lparr>n_cfg := c\<rparr>) = node_inv n"
    by (simp add: inv_defs active_id_def wallet_def cell_def host_ref_def contact_ref_def)
  show "snapshotLocked (n\<lparr>n_cfg := c\<rparr>) = snapshotLocked n"
    by (simp add: snapshotLocked_def cell_def)
  show "restorable L (n\<lparr>n_cfg := c\<rparr>)" if "cfg_Base c = cfg_Base (n_cfg n)" "cfg_Transparency c \<noteq> []" "restorable L n"
    using that by (simp add: restorable_def inv) (simp add: cell_def contact_ref_def)
qed

lemma default_transparency:
  "cfg_Transparency cfg = [] \<Longrightarrow>
     restore_snapshot L cfg s t i snap = restore_snapshot L (cfg\<lparr>cfg_Transparency := ''pseudonymous''\<rparr>) s t i snap"
  by (simp add: restore_snapshot_def)

lemma Restore_inv:
  assumes "disk_ok L (cfg_Base cfg) s" "Restore L cfg s t i = Inr n"
  shows "node_inv n"
proof (cases "st_saved s")
  case None
  then show ?thesis
    using assms(2) by (auto simp: Restore_def SetStore_def case_prod_beta split: sum.splits dest: NewNode_inv)
next
  case (Some snap)
  then obtain m where m: "restorable L m" "cfg_Base (n_cfg m) = cfg_Base cfg" "snap = snapshotLocked m"
    using assms(1) by (auto simp: disk_ok_def)
  define c where "c = (if cfg_Transparency cfg = [] then cfg\<lparr>cfg_Transparency := ''pseudonymous''\<rparr> else cfg)"
  have c: "cfg_Base c = cfg_Base (n_cfg m)" "cfg_Transparency c \<noteq> []"
    using m(2) by (simp_all add: c_def)
  have r: "restorable L (m\<lparr>n_cfg := c\<rparr>)"
    by (rule other_config(3) [OF c m(1)])
  have "Restore L c s t i = Inr (resumed s t i (m\<lparr>n_cfg := c\<rparr>))"
    using Restore_resumed [OF r, of s t i] Some m(3) by (simp add: other_config)
  moreover have "Restore L c s t i = Restore L cfg s t i"
    using Some default_transparency by (simp add: Restore_def c_def)
  ultimately show ?thesis
    using assms(2) resumed_inv [OF r, of s t i] by simp
qed

lemma Open_inv:
  assumes "host_inv h" "disk_ok L (Base gid h) s"
  shows "host_inv (snd (Open L cfg s t i gid name h))"
proof (cases "Restore L ((cfg gid name)\<lparr>cfg_Base := Base gid h\<rparr>) s t i")
  case (Inr n)
  then have "node_inv n"
    using assms(2) by (intro Restore_inv [of L "(cfg gid name)\<lparr>cfg_Base := Base gid h\<rparr>"]) simp_all
  then show ?thesis
    using assms(1) Inr by (simp add: Open_def host_inv_put)
qed (use assms(1) in \<open>simp add: Open_def\<close>)

lemma Link_node:
  "snd (Link L a b seed h) = h \<or>
     (\<exists>na. Group a h = Some na \<and>
        snd (Link L a b seed h) = put_node (group_host a h) (snd (OpenContact L (Base b h) seed ''linked on Kafumu'' na)) h)"
  by (simp add: Link_def case_prod_beta split: option.split sum.split)

lemma Link_inv:
  assumes "host_inv h" "\<And>na. Group a h = Some na \<Longrightarrow> contact_ref na (newID L (n_rand na)) = None"
  shows "host_inv (snd (Link L a b seed h))"
  using Link_node [of L a b seed h] assms OpenContact_inv Group_inv host_inv_put by metis

lemma run_all_inv: "host_inv h \<Longrightarrow> host_inv (snd (run_all L ks h))"
proof (induction ks arbitrary: h)
  case (Cons k ks)
  have "host_inv (put_node k (snd (RunUD L n)) h)" if "map_of (h_nodes h) k = Some n" for n
    using Cons.prems that by (simp add: host_inv_put host_invD RunUD_inv)
  then show ?case
    using Cons by (simp add: case_prod_beta split: option.split sum.split)
qed simp

lemma RunUD_host_inv: "host_inv h \<Longrightarrow> host_inv (snd (RunUD_host L h))"
  using run_all_inv by (simp add: RunUD_host_def case_prod_beta split: sum.split)

lemma find_in: "find P xs = Some x \<Longrightarrow> x \<in> set xs"
  by (induction xs) (auto split: if_splits)

lemma inproc_Deliver_node:
  "snd (inproc_Deliver L base env h) = h \<or>
     (\<exists>k n. inproc_node base h = Some (k, n) \<and>
        snd (inproc_Deliver L base env h) = put_node k (snd (snd (ProcessInbound L (Some (inproc L h)) env n))) h)"
  by (auto simp: inproc_Deliver_def case_prod_beta split: option.split)

lemma inproc_Deliver_inv: "host_inv h \<Longrightarrow> host_inv (snd (inproc_Deliver L base env h))"
proof -
  assume inv: "host_inv h"
  have "node_inv n" if "inproc_node base h = Some (k, n)" for k n
    using inv find_in [OF that [unfolded inproc_node_def]] by (auto simp: host_inv_def)
  then show ?thesis
    using inproc_Deliver_node [of L base env h] inv ProcessInbound_inv host_inv_put by metis
qed

text \<open>The two sides of one round of \<open>Remove\<close>.\<close>

definition left_behind :: "lib \<Rightarrow> string \<Rightarrow> Host \<Rightarrow> Node \<Rightarrow> (node_error + i64 \<times> node_error option) \<times> Node" where
  "left_behind L gid h o' = RetireReserve L (Base gid h) (snd (CloseContact L (Base gid h) ''group deleted'' o'))"

definition let_go :: "lib \<Rightarrow> string \<Rightarrow> string \<Rightarrow> Host \<Rightarrow> Host" where
  "let_go L gid other h =
     (case Group gid h of None \<Rightarrow> h
      | Some d \<Rightarrow> put_node (group_host gid h) (snd (CloseContact L (Base other h) ''group deleted'' d)) h)"

lemma let_go_simps [simp]:
  "h_groupDomain (let_go L gid other h) = h_groupDomain h" "group_host g (let_go L gid other h) = group_host g h"
  "Base g (let_go L gid other h) = Base g h"
  by (simp_all add: let_go_def split: option.split)

lemma let_go_other: "k \<noteq> group_host gid h \<Longrightarrow> map_of (h_nodes (let_go L gid other h)) k = map_of (h_nodes h) k"
  by (simp add: let_go_def split: option.split)

lemma part_eq:
  "part L gid other h =
     (case Group other h of None \<Rightarrow> (Inr (), h)
      | Some o' \<Rightarrow>
          if other = gid \<or> ContactByPeer L (Base gid h) o' = None then (Inr (), h)
          else (case fst (left_behind L gid h o') of Inl e \<Rightarrow> Inl (OfGroup other e) | Inr (_, Some e) \<Rightarrow> Inl (OfGroup other e) | _ \<Rightarrow> Inr (),
                put_node (group_host other h) (snd (left_behind L gid h o')) (let_go L gid other h)))"
  by (auto simp: part_def left_behind_def let_go_def Let_def case_prod_beta split: option.split sum.split)

lemma let_go_inv: "host_inv h \<Longrightarrow> host_inv (let_go L gid other h)"
  using CloseContact_inv Group_inv host_inv_put by (simp add: let_go_def split: option.split)

lemma left_behind_inv: "node_inv o' \<Longrightarrow> node_inv (snd (left_behind L gid h o'))"
  by (simp add: left_behind_def RetireReserve_inv CloseContact_inv)

lemma part_inv: "host_inv h \<Longrightarrow> host_inv (snd (part L gid other h))"
  using host_inv_put let_go_inv left_behind_inv Group_inv by (auto simp: part_eq split: option.split)

lemma part_all_inv: "host_inv h \<Longrightarrow> host_inv (snd (part_all L gid gs h))"
proof (induction gs arbitrary: h)
  case (Cons g gs)
  then show ?case
    using part_inv [OF Cons.prems, of L gid g] by (simp add: case_prod_beta split: sum.split)
qed simp

lemma set_mdel: "set (mdel k m) \<subseteq> set m"
  unfolding mdel_def by (induction m) auto

lemma host_inv_remove: "host_inv h \<Longrightarrow> host_inv (h\<lparr>h_nodes := mdel k (h_nodes h)\<rparr>)"
  using set_mdel [of k "h_nodes h"] by (auto simp: host_inv_def)

lemma Remove_inv: "host_inv h \<Longrightarrow> host_inv (snd (Remove L gid h))"
  using part_all_inv host_inv_remove by (simp add: Remove_def case_prod_beta split: sum.split)

section \<open>The states a host can reach\<close>

text \<open>
  The operations of the host, and between them any step of any of its nodes. A contact needs a fresh random id, and a
  group is opened from its own store.
\<close>

inductive host_step :: "lib \<Rightarrow> (string \<Rightarrow> string \<Rightarrow> Config) \<Rightarrow> Host \<Rightarrow> Host \<Rightarrow> bool" for L cfg where
  opens: "disk_ok L (Base gid h) s \<Longrightarrow> host_step L cfg h (snd (Open L cfg s t i gid name h))"
| links: "(\<And>na. Group a h = Some na \<Longrightarrow> contact_ref na (newID L (n_rand na)) = None) \<Longrightarrow> host_step L cfg h (snd (Link L a b seed h))"
| delivers: "host_step L cfg h (snd (inproc_Deliver L base env h))"
| dividends: "host_step L cfg h (snd (RunUD_host L h))"
| removes: "host_step L cfg h (snd (Remove L gid h))"
| acts: "map_of (h_nodes h) k = Some n \<Longrightarrow> node_step L n n' \<Longrightarrow> host_step L cfg h (put_node k n' h)"

inductive host_reachable :: "lib \<Rightarrow> (string \<Rightarrow> string \<Rightarrow> Config) \<Rightarrow> Host \<Rightarrow> bool" for L cfg where
  fresh: "host_reachable L cfg (NewHost domain)"
| stepped: "host_reachable L cfg h \<Longrightarrow> host_step L cfg h h' \<Longrightarrow> host_reachable L cfg h'"

lemma host_step_inv: "host_step L cfg h h' \<Longrightarrow> host_inv h \<Longrightarrow> host_inv h'"
proof (induction rule: host_step.induct)
  case (acts h k n n')
  then show ?case
    by (intro host_inv_put node_step_inv [OF acts(2)] host_invD)
qed (simp_all add: Open_inv Link_inv inproc_Deliver_inv RunUD_host_inv Remove_inv)

lemma host_reachable_inv: "host_reachable L cfg h \<Longrightarrow> host_inv h"
proof (induction rule: host_reachable.induct)
  case (stepped h h')
  then show ?case
    using host_step_inv by blast
qed (simp add: NewHost_def host_inv_def)

section \<open>A group that is removed\<close>

text \<open>What a group that knew the removed one is left with: the contact closed, nothing held for it, and every other account untouched.\<close>

definition settled_with :: "string \<Rightarrow> Node \<Rightarrow> Node \<Rightarrow> bool" where
  "settled_with H o0 o' \<longleftrightarrow> node_inv o' \<and> (\<exists>r. host_ref o' H = Some r \<and> c_Closed (cell o' r)) \<and>
     Balance (n_led o') (NodeWalletPrefix @ H) = 0 \<and>
     (\<forall>a. a \<noteq> NodeWalletPrefix @ H \<and> a \<noteq> AcctIssuance \<longrightarrow> Balance (n_led o') a = Balance (n_led o0) a)"

lemma CloseContact_closes:
  assumes "node_inv o'" "host_ref o' (host L b) = Some r"
  shows "host_ref (snd (CloseContact L b note o')) (host L b) = Some r"
    "c_Closed (cell (snd (CloseContact L b note o')) r)"
    "n_led (snd (CloseContact L b note o')) = n_led o'"
proof -
  have r: "r < length (n_cells o')"
    using inv_host [OF assms] by simp
  show "host_ref (snd (CloseContact L b note o')) (host L b) = Some r" "n_led (snd (CloseContact L b note o')) = n_led o'"
    using assms(2) by (simp_all add: CloseContact_def case_prod_beta Let_def)
  show "c_Closed (cell (snd (CloseContact L b note o')) r)"
    using assms(2) r by (simp add: CloseContact_def case_prod_beta Let_def cell_set_cell)
qed

lemma RetireReserve_retires:
  assumes inv: "node_inv n" and r: "host_ref n (host L b) = Some r" and H: "host L b \<noteq> []"
    and ok: "RetireReserve L b n = (Inr (x, None), n')"
  shows "host_ref n' (host L b) = Some r" "cell n' r = cell n r" "Balance (n_led n') (NodeWalletPrefix @ host L b) = 0"
    "a \<noteq> NodeWalletPrefix @ host L b \<Longrightarrow> a \<noteq> AcctIssuance \<Longrightarrow> Balance (n_led n') a = Balance (n_led n) a"
proof -
  let ?w = "NodeWalletPrefix @ host L b"
  let ?bal = "Balance (n_led n) ?w"
  let ?es = "[mk_entry ?w (- ?bal), mk_entry AcctIssuance ?bal]"
  have wf: "wf_ledger (n_led n)"
    using inv by (simp add: node_inv_def)
  have nn: "0 \<le> sint ?bal"
    using wf_ledger_wallets [OF wf, of ?w] H by simp
  have "host_ref n' (host L b) = Some r \<and> cell n' r = cell n r \<and> Balance (n_led n') ?w = 0 \<and>
    (a \<noteq> ?w \<longrightarrow> a \<noteq> AcctIssuance \<longrightarrow> Balance (n_led n') a = Balance (n_led n) a)"
  proof (cases "sint ?bal \<le> 0")
    case True
    then have "?bal = 0"
      using nn by (simp add: order_antisym_conv signed_eq_0_iff)
    then show ?thesis
      using ok r True by (simp add: RetireReserve_def Let_def split: if_splits)
  next
    case False
    consider e where "append_tx L ''reserve.retire'' [] ?es n = (Inl e, n\<lparr>n_rand := Suc (n_rand n)\<rparr>)"
      | "can_append (Balance (n_led n)) ?es"
      by (rule append_tx_cases [of L "''reserve.retire''" "[]" ?es n]) (auto intro: that)
    then show ?thesis
    proof cases
      case 2
      show ?thesis
        using ok r False append_tx_posted [OF 2, of L "''reserve.retire''" "[]"]
        by (auto simp: RetireReserve_def Let_def case_prod_beta split: if_splits sum.splits)
    qed (use ok r False in \<open>auto simp: RetireReserve_def Let_def split: if_splits\<close>)
  qed
  then show "host_ref n' (host L b) = Some r" "cell n' r = cell n r" "Balance (n_led n') ?w = 0"
    "a \<noteq> ?w \<Longrightarrow> a \<noteq> AcctIssuance \<Longrightarrow> Balance (n_led n') a = Balance (n_led n) a"
    by auto
qed

text \<open>A group that has a contact with the one that goes, while others are dealt with.\<close>

definition linked_to :: "string \<Rightarrow> Node \<Rightarrow> Node \<Rightarrow> bool" where
  "linked_to H o0 o' \<longleftrightarrow> node_inv o' \<and> host_ref o' H \<noteq> None \<and>
     (\<forall>a. a \<noteq> NodeWalletPrefix @ H \<and> a \<noteq> AcctIssuance \<longrightarrow> Balance (n_led o') a = Balance (n_led o0) a)"

lemma settled_linked: "settled_with H o0 o' \<Longrightarrow> linked_to H o0 o'"
  by (auto simp: settled_with_def linked_to_def)

lemma group_host_eq [simp]: "group_host g h = group_host g' h \<longleftrightarrow> g = g'"
  by (simp add: group_host_def)

lemma part_domain [simp]:
  "h_groupDomain (snd (part L gid other h)) = h_groupDomain h"
  "Base g (snd (part L gid other h)) = Base g h"
  by (simp_all add: part_eq Base_def split: option.split)

lemma Group_let_go: "g \<noteq> gid \<Longrightarrow> Group g (let_go L gid other h) = Group g h"
  by (simp add: Group_def let_go_other)

lemma part_other: "g \<noteq> other \<Longrightarrow> g \<noteq> gid \<Longrightarrow> Group g (snd (part L gid other h)) = Group g h"
  by (simp add: part_eq Group_let_go split: option.split)

lemma part_unlinked:
  "Group g h = Some n \<Longrightarrow> host_ref n (host L (Base gid h)) = None \<Longrightarrow> g \<noteq> gid \<Longrightarrow> Group g (snd (part L gid other h)) = Some n"
  by (cases "g = other") (simp_all add: part_other, simp add: part_eq ContactByPeer_def)

lemma left_behind_settles:
  assumes "node_inv o'" "host_ref o' (host L (Base gid h)) = Some r" "host L (Base gid h) \<noteq> []"
    and ok: "fst (left_behind L gid h o') = Inr (x, None)"
  shows "settled_with (host L (Base gid h)) o' (snd (left_behind L gid h o'))"
proof -
  let ?c = "snd (CloseContact L (Base gid h) ''group deleted'' o')" and ?n = "snd (left_behind L gid h o')"
  note c = CloseContact_closes [OF assms(1,2)]
  have inv: "node_inv ?c"
    using CloseContact_inv assms(1) .
  have "RetireReserve L (Base gid h) ?c = (Inr (x, None), ?n)"
    using ok by (simp add: left_behind_def prod_eq_iff)
  note r = RetireReserve_retires [OF inv c(1) assms(3) this]
  show ?thesis
    unfolding settled_with_def using r c left_behind_inv [OF assms(1)] by simp
qed

lemma part_settles:
  assumes inv: "host_inv h" and o': "Group other h = Some o'" "other \<noteq> gid" "linked_to (host L (Base gid h)) o0 o'"
    and H: "host L (Base gid h) \<noteq> []" and ok: "part L gid other h = (Inr (), h')"
  shows "\<exists>o''. Group other h' = Some o'' \<and> settled_with (host L (Base gid h)) o0 o''"
proof -
  let ?l = "left_behind L gid h o'"
  obtain r where r: "host_ref o' (host L (Base gid h)) = Some r"
    using o'(3) by (auto simp: linked_to_def)
  have h': "h' = put_node (group_host other h) (snd ?l) (let_go L gid other h)" and "\<exists>x. fst ?l = Inr (x, None)"
    using ok o' r by (auto simp: part_eq ContactByPeer_def split: sum.splits option.splits)
  then obtain x where "fst ?l = Inr (x, None)"
    by blast
  then have "settled_with (host L (Base gid h)) o' (snd ?l)"
    using o'(3) r H by (intro left_behind_settles) (auto simp: linked_to_def)
  then have "settled_with (host L (Base gid h)) o0 (snd ?l)"
    using o'(3) by (simp add: settled_with_def linked_to_def)
  moreover have "Group other h' = Some (snd ?l)"
    by (simp add: h')
  ultimately show ?thesis
    by blast
qed

lemma part_all_settles:
  "host_inv h \<Longrightarrow> Group other h = Some o' \<Longrightarrow> other \<noteq> gid \<Longrightarrow> linked_to (host L (Base gid h)) o0 o' \<Longrightarrow> host L (Base gid h) \<noteq> [] \<Longrightarrow>
   other \<in> set gs \<or> settled_with (host L (Base gid h)) o0 o' \<Longrightarrow> part_all L gid gs h = (Inr (), h') \<Longrightarrow>
     \<exists>o''. Group other h' = Some o'' \<and> settled_with (host L (Base gid h)) o0 o''"
proof (induction gs arbitrary: h o')
  case (Cons g gs)
  obtain h1 where h1: "part L gid g h = (Inr (), h1)" "part_all L gid gs h1 = (Inr (), h')"
    using Cons.prems(7) by (auto simp: case_prod_beta prod_eq_iff split: sum.splits)
  then have h1_eq: "h1 = snd (part L gid g h)"
    by simp
  have inv: "host_inv h1" and base: "Base gid h1 = Base gid h"
    using part_inv [OF Cons.prems(1)] by (simp_all add: h1_eq)
  show ?case
  proof (cases "g = other")
    case True
    obtain o1 where o1: "Group other h1 = Some o1" "settled_with (host L (Base gid h)) o0 o1"
      using part_settles [OF Cons.prems(1-5)] h1(1) True by blast
    then show ?thesis
      using Cons.IH [OF inv o1(1) Cons.prems(3)] Cons.prems(5) settled_linked h1(2) unfolding base by blast
  next
    case False
    then have "Group other h1 = Some o'"
      using Cons.prems(2,3) by (simp add: h1_eq part_other)
    then show ?thesis
      using Cons.IH [OF inv _ Cons.prems(3)] Cons.prems(4,5,6) False h1(2) unfolding base by auto
  qed
qed simp

lemma part_all_unlinked:
  "Group g h = Some n \<Longrightarrow> host_ref n (host L (Base gid h)) = None \<Longrightarrow> g \<noteq> gid \<Longrightarrow> Group g (snd (part_all L gid gs h)) = Some n"
proof (induction gs arbitrary: h)
  case (Cons x gs)
  then show ?case
    using part_unlinked [OF Cons.prems] by (simp add: case_prod_beta split: sum.split)
qed simp

lemma part_all_domain [simp]: "h_groupDomain (snd (part_all L gid gs h)) = h_groupDomain h"
  by (induction gs arbitrary: h) (simp_all add: case_prod_beta split: sum.split)

lemma Group_listed: "Group g h = Some n \<Longrightarrow> g \<in> set (Groups h)"
proof -
  assume "Group g h = Some n"
  then have "group_host g h \<in> set (mkeys (h_nodes h))"
    by (auto simp: Group_def mkeys_def intro: map_of_SomeD [THEN image_eqI [rotated]])
  then have "TrimSuffix (group_host g h) (''.'' @ h_groupDomain h) \<in> set (Groups h)"
    unfolding Groups_def by simp
  then show ?thesis
    by (simp add: group_host_def)
qed

text \<open>
  C21: a removed group leaves nothing behind. When \<open>Remove\<close> succeeds the group is no longer reachable, and every other group is
  still there. One that had a contact with the removed group has it closed, holds no reserve for it any more, and no
  balance other than that reserve's and the issuance account's has moved; one that had none is as it was.
\<close>

theorem removed_group_settled:
  assumes "host_inv h" "Remove L gid h = (Inr (), h')" "host L (Base gid h) \<noteq> []" "Group g h = Some n" "g \<noteq> gid"
  shows "Group gid h' = None \<and>
    (if ContactByPeer L (Base gid h) n = None then Group g h' = Some n
     else \<exists>n'. Group g h' = Some n' \<and> \<not> ContactActive L (Base gid h) n' \<and>
       Balance (n_led n') (NodeWalletPrefix @ host L (Base gid h)) = 0 \<and>
       (\<forall>a. a \<noteq> NodeWalletPrefix @ host L (Base gid h) \<and> a \<noteq> AcctIssuance \<longrightarrow> Balance (n_led n') a = Balance (n_led n) a))"
proof -
  obtain h1 where h1: "part_all L gid (Groups h) h = (Inr (), h1)" "h' = h1\<lparr>h_nodes := mdel (group_host gid h1) (h_nodes h1)\<rparr>"
    using assms(2) by (auto simp: Remove_def case_prod_beta prod_eq_iff split: if_splits sum.splits)
  have "group_host x h' = group_host x h1" for x
    by (simp add: h1(2) group_host_def)
  then have group: "Group x h' = (if x = gid then None else Group x h1)" for x
    by (simp add: Group_def) (simp add: h1(2))
  show ?thesis
  proof (cases "host_ref n (host L (Base gid h))")
    case None
    then show ?thesis
      using part_all_unlinked [OF assms(4) None assms(5), of "Groups h"] h1(1) assms(5) by (simp add: group ContactByPeer_def)
  next
    case (Some r)
    then have "linked_to (host L (Base gid h)) n n"
      using Group_inv [OF assms(1,4)] by (simp add: linked_to_def)
    then obtain n' where "Group g h1 = Some n'" "settled_with (host L (Base gid h)) n n'"
      using part_all_settles [OF assms(1,4,5) _ assms(3) _ h1(1)] Group_listed [OF assms(4)] by blast
    then show ?thesis
      using assms(5) Some by (auto simp: group ContactByPeer_def ContactActive_def contact_open_def settled_with_def)
  qed
qed

text \<open>Two groups, one of which knows the other.\<close>

definition two_groups :: Host where
  "two_groups = \<lparr>h_groupDomain = ''example'', h_nodes = [(''a.example'', keeper), (''b.example'', demo_b)]\<rparr>"

lemma two_groups_inv: "host_inv two_groups"
  by (simp add: two_groups_def host_inv_def keeper_inv)

lemma two_groups_remove:
  "Group ''a'' two_groups = Some keeper" "ContactByPeer demo (Base ''b'' two_groups) keeper \<noteq> None"
  "host demo (Base ''b'' two_groups) = ''b.example''"
  "fst (Remove demo ''b'' two_groups) = Inr ()"
proof -
  show a: "Group ''a'' two_groups = Some keeper"
    by (simp add: two_groups_def Group_def group_host_def)
  show b: "host demo (Base ''b'' two_groups) = ''b.example''"
    by (simp add: two_groups_def Base_def demo_def host_def HasPrefix_def)
  have r: "host_ref keeper ''b.example'' = Some 0"
    by (simp add: keeper_def host_ref_def)
  then show "ContactByPeer demo (Base ''b'' two_groups) keeper \<noteq> None"
    by (simp add: ContactByPeer_def b)
  have bal: "Balance (n_led keeper) (NodeWalletPrefix @ ''b.example'') = 0"
    by (simp add: keeper_def empty_node_def Balance_def New_def mget0_def)
  note c = CloseContact_closes [of keeper demo "Base ''b'' two_groups" 0, OF keeper_inv r [folded b]]
  have "fst (left_behind demo ''b'' two_groups keeper) = Inr (0, None)"
    using c bal by (simp add: left_behind_def RetireReserve_def Let_def b)
  then have "fst (part demo ''b'' ''a'' two_groups) = Inr ()"
    using r b by (simp add: part_eq a ContactByPeer_def)
  moreover have "fst (part demo ''b'' ''b'' h) = Inr ()" for h
    by (simp add: part_eq split: option.split)
  moreover have "Groups two_groups = [''a'', ''b'']" "Group ''b'' two_groups \<noteq> None"
    by (simp_all add: two_groups_def Groups_def mkeys_def TrimSuffix_def TrimPrefix_def HasPrefix_def Group_def group_host_def)
  ultimately show "fst (Remove demo ''b'' two_groups) = Inr ()"
    by (simp add: Remove_def case_prod_beta split: sum.split)
qed

theorem removed_group_settled_witness:
  "\<exists>h' n'. Remove demo ''b'' two_groups = (Inr (), h') \<and> Group ''b'' h' = None \<and> Group ''a'' h' = Some n' \<and>
     \<not> ContactActive demo ''https://b.example'' n'"
proof -
  obtain h' where h': "Remove demo ''b'' two_groups = (Inr (), h')"
    using two_groups_remove(4) by (metis prod.collapse)
  have "host demo (Base ''b'' two_groups) \<noteq> []" "Base ''b'' two_groups = ''https://b.example''"
    using two_groups_remove(3) by (simp_all add: two_groups_def Base_def)
  then show ?thesis
    using removed_group_settled [OF two_groups_inv h' _ two_groups_remove(1)] two_groups_remove(2) h' by auto
qed



end
