(* ===== verification/LP_Admin.thy ===== *)
theory LP_Admin
  imports LP_Host LP_DSStore LP_Reachable
begin

text \<open>
  The App Engine host: the API that administers its groups, their registry (gae/admin.go) and the process around them
  (gae/main.go). A handler is a function from the host and the Datastore to an answer, a host and a Datastore.
\<close>

section \<open>Texts\<close>

text \<open>\<open>len([]rune(s))\<close>: a byte that starts no rune counts for one.\<close>

function runes :: "string \<Rightarrow> nat" where
  "runes [] = 0"
| "runes (c # cs) = Suc (runes (drop (rune_size (c # cs) - 1) cs))"
  by pat_completeness auto
termination
  by (relation "measure length") auto

declare runes.simps [simp del]

text \<open>\<open>strings.Map\<close> of \<open>clean\<close>: control characters go, a byte that starts no rune becomes the replacement rune.\<close>

function drop_controls :: "string \<Rightarrow> string" where
  "drop_controls [] = []"
| "drop_controls (c # cs) =
     (case rune_size (c # cs) of
        0 \<Rightarrow> rune_error @ drop_controls cs
      | Suc k \<Rightarrow>
          (if k = 0 \<and> (of_char c < (32 :: int) \<or> c = CHR 0x7F) then [] else c # take k cs) @ drop_controls (drop k cs))"
  by pat_completeness auto
termination
  by (relation "measure length") auto

declare drop_controls.simps [simp del]

text \<open>\<open>strings.TrimSpace\<close>: the white space of Unicode, in UTF-8.\<close>

definition spaces :: "string list" where
  "spaces =
     map (\<lambda>c. [c]) [CHR 0x20, CHR 0x09, CHR 0x0A, CHR 0x0B, CHR 0x0C, CHR 0x0D] @
     [[CHR 0xC2, CHR 0x85], [CHR 0xC2, CHR 0xA0], [CHR 0xE1, CHR 0x9A, CHR 0x80], [CHR 0xE2, CHR 0x80, CHR 0xA8],
      [CHR 0xE2, CHR 0x80, CHR 0xA9], [CHR 0xE2, CHR 0x80, CHR 0xAF], [CHR 0xE2, CHR 0x81, CHR 0x9F], [CHR 0xE3, CHR 0x80, CHR 0x80]] @
     map (\<lambda>i. [CHR 0xE2, CHR 0x80, char_of (128 + i)]) [0..<(11 :: nat)]"

function trim_left :: "string list \<Rightarrow> string \<Rightarrow> string" where
  "trim_left ps s =
     (case find (\<lambda>p. p \<noteq> [] \<and> HasPrefix s p) ps of None \<Rightarrow> s | Some p \<Rightarrow> trim_left ps (drop (length p) s))"
  by pat_completeness auto
termination
proof (relation "measure (\<lambda>(ps, s). length s)")
  show "((ps, drop (length p) s), ps, s) \<in> measure (\<lambda>(ps, s). length s)"
    if "find (\<lambda>p. p \<noteq> [] \<and> HasPrefix s p) ps = Some p" for ps s p
  proof -
    have "p \<noteq> []" "HasPrefix s p"
      using that by (auto simp: find_Some_iff)
    then show ?thesis
      by (cases s) (auto simp: HasPrefix_def)
  qed
qed simp

declare trim_left.simps [simp del]

definition TrimSpace :: "string \<Rightarrow> string" where
  "TrimSpace s = rev (trim_left (map rev spaces) (rev (trim_left spaces s)))"

definition clean :: "string \<Rightarrow> string" where
  "clean s = TrimSpace (drop_controls s)"

section \<open>The registry of groups\<close>

definition GroupGrace :: int where
  "GroupGrace = 90 * 24 * 3600 * 1000000000"

text \<open>The zero \<open>time.Time\<close>, in nanoseconds from 1970.\<close>

definition zero_time :: int where
  "zero_time = - 62135596800 * 1000000000"

definition no_group :: lpGroup where
  "no_group = \<lparr>lg_Name = [], lg_CreatedAt = zero_time, lg_Currency = [], lg_Symbol = [], lg_EmptySince = None\<rparr>"

definition groupKey :: "string \<Rightarrow> ds_key" where
  "groupKey gid = (''LPGroup'', gid)"

text \<open>
  The Datastore client with the query \<open>GetAll\<close> over the groups: their names and entries. \<open>Put\<close> and \<open>Delete\<close> of one key are the
  batch operations on it.
\<close>

record 'd registry =
  rg_store :: "'d datastore"
  rg_all :: "'d \<Rightarrow> store_error + (string \<times> lpGroup) list"

definition group_of :: "entity option \<Rightarrow> store_error + lpGroup option" where
  "group_of ent = (case ent of None \<Rightarrow> Inr None | Some (EGroup g) \<Rightarrow> Inr (Some g) | _ \<Rightarrow> Inl (Datastore ''type mismatch''))"

definition read_group :: "string \<Rightarrow> (ds_key \<Rightarrow> store_error + entity option) \<Rightarrow> store_error + lpGroup option" where
  "read_group gid get = (case get (groupKey gid) of Inl e \<Rightarrow> Inl e | Inr ent \<Rightarrow> group_of ent)"

definition mark_body :: "string \<Rightarrow> bool \<Rightarrow> int \<Rightarrow> tx_body" where
  "mark_body gid nobody now get =
     (case read_group gid get of
        Inl e \<Rightarrow> Inl e
      | Inr None \<Rightarrow> Inl (Datastore ''no such entity'')
      | Inr (Some g) \<Rightarrow>
          if nobody \<and> lg_EmptySince g = None
          then Inr ([Put (groupKey gid) (EGroup (g\<lparr>lg_EmptySince := Some now\<rparr>))], EGroup (g\<lparr>lg_EmptySince := Some now\<rparr>))
          else if \<not> nobody \<and> lg_EmptySince g \<noteq> None
          then Inr ([Put (groupKey gid) (EGroup (g\<lparr>lg_EmptySince := None\<rparr>))], EGroup (g\<lparr>lg_EmptySince := None\<rparr>))
          else Inr ([], EGroup g))"

definition markEmpty :: "'d registry option \<Rightarrow> string \<Rightarrow> Node \<Rightarrow> int \<Rightarrow> 'd \<Rightarrow> 'd" where
  "markEmpty db gid n now d =
     (case db of None \<Rightarrow> d
      | Some R \<Rightarrow> snd (ds_transact (rg_store R) (mark_body gid (activeCountLocked n = 0) now) d))"

definition rename_body :: "string \<Rightarrow> string \<Rightarrow> string \<Rightarrow> string \<Rightarrow> tx_body" where
  "rename_body gid name currency symbol get =
     (case read_group gid get of
        Inl e \<Rightarrow> Inl e
      | Inr og \<Rightarrow>
          let g = (case og of None \<Rightarrow> no_group | Some g \<Rightarrow> g);
              g = (if name \<noteq> [] then g\<lparr>lg_Name := name\<rparr> else g);
              g = (if currency \<noteq> [] then g\<lparr>lg_Currency := currency\<rparr> else g);
              g = (if symbol \<noteq> [] then g\<lparr>lg_Symbol := symbol\<rparr> else g)
          in Inr ([Put (groupKey gid) (EGroup g)], EGroup g))"

section \<open>Opening and sweeping the groups\<close>

datatype admin_error =
    BadBody
  | GroupExists string
  | NoSuchGroup string
  | HostError host_error
  | NodeFailed node_error
  | StoreFailed store_error
  | NotLinked
  | BadAmount
  | PriceFailed price_error
  | TooLong
  | NothingToRename
  | NoAccount string string
  | NotSettled string
  | Panicked

text \<open>
  What the process has around the host: the platform, the configuration of a group, what each group's store holds, the clock, the
  position of the random source, the Datastore, the admin token, and what happens to the host while a request waits.
\<close>

record 'd world =
  w_lib :: lib
  w_cfg :: "string \<Rightarrow> string \<Rightarrow> Config"
  w_store :: "string \<Rightarrow> store"
  w_now :: int
  w_rand :: nat
  w_db :: "'d registry option"
  w_token :: string
  w_wait :: "Host \<Rightarrow> Host"

definition open_group :: "'d world \<Rightarrow> string \<Rightarrow> string \<Rightarrow> Host \<Rightarrow> (host_error + string) \<times> Host" where
  "open_group W gid name h = Open (w_lib W) (w_cfg W) (w_store W gid) (w_now W) (w_rand W) gid name h"

fun open_all :: "'d world \<Rightarrow> (string \<times> lpGroup) list \<Rightarrow> Host \<Rightarrow> (host_error + unit) \<times> Host" where
  "open_all W [] h = (Inr (), h)"
| "open_all W ((gid, g) # gs) h =
     (case open_group W gid (lg_Name g) h of
        (Inl e, h) \<Rightarrow> (Inl e, h)
      | (Inr k, h) \<Rightarrow>
          open_all W gs
            (case map_of (h_nodes h) k of None \<Rightarrow> h
             | Some n \<Rightarrow> put_node k (SetIdentity [] (lg_Currency g) (lg_Symbol g) n) h))"

definition openGroups :: "'d world \<Rightarrow> 'd registry \<Rightarrow> Host \<Rightarrow> 'd \<Rightarrow> (admin_error + unit) \<times> Host" where
  "openGroups W R h d =
     (case rg_all R d of
        Inl e \<Rightarrow> (Inl (StoreFailed e), h)
      | Inr gs \<Rightarrow> (case open_all W gs h of (Inl e, h) \<Rightarrow> (Inl (HostError e), h) | (Inr _, h) \<Rightarrow> (Inr (), h)))"

text \<open>A group is due when it has been empty for longer than the grace.\<close>

definition due :: "int \<Rightarrow> lpGroup \<Rightarrow> bool" where
  "due now g = (case lg_EmptySince g of None \<Rightarrow> False | Some t \<Rightarrow> t < now - GroupGrace)"

fun sweep_groups :: "'d world \<Rightarrow> 'd registry \<Rightarrow> string list \<Rightarrow> nat \<Rightarrow> Host \<times> 'd \<Rightarrow> nat \<times> admin_error option \<times> Host \<times> 'd" where
  "sweep_groups W R [] gone st = (gone, None, st)"
| "sweep_groups W R (gid # gids) gone (h, d) =
     (if (case Group gid h of None \<Rightarrow> False | Some n \<Rightarrow> 0 < sint (activeCountLocked n)) then sweep_groups W R gids gone (h, d)
      else case (if Group gid h = None then (Inr (), h) else Remove (w_lib W) gid h) of
          (Inl e, h) \<Rightarrow> (gone, Some (HostError e), h, d)
        | (Inr _, h) \<Rightarrow>
            (case Delete (rg_store R) (NewDSStore (''g-'' @ gid)) d of
               (Some e, d) \<Rightarrow> (gone, Some (StoreFailed e), h, d)
             | (None, d) \<Rightarrow>
                 (case ds_delete_multi (rg_store R) [groupKey gid] d of
                    (Some e, d) \<Rightarrow> (gone, Some (StoreFailed e), h, d)
                  | (None, d) \<Rightarrow> sweep_groups W R gids (Suc gone) (h, d))))"

definition sweepGroups :: "'d world \<Rightarrow> 'd registry \<Rightarrow> int \<Rightarrow> Host \<times> 'd \<Rightarrow> nat \<times> admin_error option \<times> Host \<times> 'd" where
  "sweepGroups W R now st =
     (case rg_all R (snd st) of
        Inl e \<Rightarrow> (0, Some (StoreFailed e), st)
      | Inr gs \<Rightarrow> sweep_groups W R (map fst (filter (\<lambda>kg. due now (snd kg)) gs)) 0 st)"

section \<open>The handlers\<close>

record areq =
  aq_Method :: string
  aq_Path :: string
  aq_Header :: "string \<Rightarrow> string"
  aq_Query :: "(string \<times> string) list"
  aq_Body :: "bytes option"

definition FormValue :: "areq \<Rightarrow> string \<Rightarrow> string" where
  "FormValue r k = (case map_of (aq_Query r) k of None \<Rightarrow> [] | Some v \<Rightarrow> v)"

type_synonym 'd api = "'d world \<Rightarrow> areq \<Rightarrow> Host \<times> 'd \<Rightarrow> (admin_error + gval) \<times> Host \<times> 'd"

definition ok_true :: gval where
  "ok_true = GMap [(''ok'', GBool True)]"

text \<open>A handler that decodes its body, at most 64 KiB of it.\<close>

definition body_of :: "(string \<times> kind) list \<Rightarrow> ((string, field) gomap \<Rightarrow> 'd api) \<Rightarrow> 'd api" where
  "body_of fs f W r st =
     (case decode_struct fs (map_option (take 65536) (aq_Body r)) of None \<Rightarrow> (Inl BadBody, st) | Some q \<Rightarrow> f q W r st)"

text \<open>An operation on the node of a group, and what is answered from its result.\<close>

definition on_group :: "string \<Rightarrow> (Node \<Rightarrow> (admin_error + gval) \<times> Node) \<Rightarrow> Host \<Rightarrow> (admin_error + gval) \<times> Host" where
  "on_group gid f h =
     (case Group gid h of
        None \<Rightarrow> (Inl (NoSuchGroup gid), h)
      | Some n \<Rightarrow> (case f n of (res, n) \<Rightarrow> (res, put_node (group_host gid h) n h)))"

definition answer :: "('a \<Rightarrow> gval) \<Rightarrow> (node_error + 'a) \<times> Node \<Rightarrow> (admin_error + gval) \<times> Node" where
  "answer f rn = (case rn of (Inl e, n) \<Rightarrow> (Inl (NodeFailed e), n) | (Inr x, n) \<Rightarrow> (Inr (f x), n))"

definition then_mark :: "string \<Rightarrow> 'd world \<Rightarrow> (admin_error + gval) \<times> Host \<times> 'd \<Rightarrow> (admin_error + gval) \<times> Host \<times> 'd" where
  "then_mark gid W res =
     (case res of (out, h, d) \<Rightarrow>
        (out, h, case Group gid h of None \<Rightarrow> d | Some n \<Rightarrow> markEmpty (w_db W) gid n (w_now W) d))"

definition api_group :: "'d api" where
  "api_group = body_of [(''Gid'', KString), (''Name'', KString)] (\<lambda>q W r (h, d).
     let gid = fstr q ''Gid''; name = fstr q ''Name'' in
     if Group gid h \<noteq> None then (Inl (GroupExists gid), h, d)
     else case open_group W gid name h of
         (Inl e, h) \<Rightarrow> (Inl (HostError e), h, d)
       | (Inr _, h) \<Rightarrow>
           let done' = GMap [(''gid'', GStr gid), (''base'', GStr (Base gid h))] in
           (case w_db W of
              None \<Rightarrow> (Inr done', h, d)
            | Some R \<Rightarrow>
                (case ds_put_multi (rg_store R) [(groupKey gid, EGroup (no_group\<lparr>lg_Name := name, lg_CreatedAt := w_now W\<rparr>))] d of
                   (Some e, d) \<Rightarrow> (Inl (StoreFailed e), h, d)
                 | (None, d) \<Rightarrow> (Inr done', h, d))))"

definition join_member :: "lib \<Rightarrow> string \<Rightarrow> Node \<Rightarrow> (admin_error + gval) \<times> Node" where
  "join_member L mem n =
     (if MemberKnown mem n \<and> \<not> MemberActive mem n
      then answer (\<lambda>_. GMap [(''ok'', GBool True), (''rejoined'', GBool True)]) (Reactivate mem n)
      else answer (\<lambda>_. ok_true) (AddMember L mem [] 0 n))"

definition api_member :: "'d api" where
  "api_member = body_of [(''Gid'', KString), (''Member'', KString)] (\<lambda>q W r (h, d).
     let gid = fstr q ''Gid'' in
     case on_group gid (join_member (w_lib W) (fstr q ''Member'')) h of (out, h) \<Rightarrow> then_mark gid W (out, h, d))"

definition balance_doc :: "lib \<Rightarrow> string \<Rightarrow> Node \<Rightarrow> (admin_error + gval) \<times> Node" where
  "balance_doc L m n =
     ((case Checkpoint L n of
         None \<Rightarrow> Inl Panicked
       | Some cp \<Rightarrow>
           Inr (GMap [(''member'', GStr m), (''active'', GBool (MemberActive m n)), (''balance'', GInt (NodeBalance (MemberPrefix @ m) n)),
             (''current_ud'', obj_get cp ''current_ud''), (''members'', GInt (activeCountLocked n)),
             (''money_supply'', obj_get cp ''money_supply'')])), n)"

definition api_balance :: "'d api" where
  "api_balance W r = (\<lambda>(h, d).
     case on_group (FormValue r ''gid'') (balance_doc (w_lib W) (FormValue r ''member'')) h of (out, h) \<Rightarrow> (out, h, d))"

text \<open>A payment whose record could not be persisted is an error, though the record is written.\<close>

definition pay_doc :: "lib \<Rightarrow> string \<Rightarrow> string \<Rightarrow> i64 \<Rightarrow> Node \<Rightarrow> (admin_error + gval) \<times> Node" where
  "pay_doc L from' to amount n =
     (case Pay L from' to amount n of
        (Inl e, n) \<Rightarrow> (Inl (NodeFailed e), n)
      | (Inr (_, Some e), n) \<Rightarrow> (Inl (NodeFailed e), n)
      | (Inr (rec, None), n) \<Rightarrow> (Inr (GMap [(''log_seq'', GInt (r_Seq rec))]), n))"

definition api_pay :: "'d api" where
  "api_pay = body_of [(''Gid'', KString), (''From'', KString), (''To'', KString), (''Amount'', KInt64)] (\<lambda>q W r (h, d).
     case on_group (fstr q ''Gid'') (pay_doc (w_lib W) (fstr q ''From'') (fstr q ''To'') (fint q ''Amount'')) h of
       (out, h) \<Rightarrow> (out, h, d))"

definition api_link :: "'d api" where
  "api_link = body_of [(''A'', KString), (''B'', KString), (''Seed'', KInt64)] (\<lambda>q W r (h, d).
     let seed = (if sint (fint q ''Seed'') \<le> 0 then 100000000 else fint q ''Seed'') in
     case Link (w_lib W) (fstr q ''A'') (fstr q ''B'') seed h of
       (Inl e, h) \<Rightarrow> (Inl (HostError e), h, d)
     | (Inr _, h) \<Rightarrow> (Inr ok_true, h, d))"

text \<open>A transfer between two groups, from a member of the one to a member of the other.\<close>

definition between ::
  "lib \<Rightarrow> string \<Rightarrow> string \<Rightarrow> string \<Rightarrow> string \<Rightarrow> i64 \<Rightarrow> Host \<Rightarrow> (admin_error + string) \<times> Host" where
  "between L from_gid from' to_gid to amount h =
     (case Group from_gid h of
        None \<Rightarrow> (Inl (NoSuchGroup from_gid), h)
      | Some a \<Rightarrow>
          (case Group to_gid h of
             None \<Rightarrow> (Inl (NoSuchGroup to_gid), h)
           | Some b \<Rightarrow>
               (case StartTransfer L (Base to_gid h) (from' @ ''@'' @ HostOf L a) (to @ ''@'' @ HostOf L b) amount [] a of
                  (Inl e, a) \<Rightarrow> (Inl (NodeFailed e), put_node (group_host from_gid h) a h)
                | (Inr tid, a) \<Rightarrow> (Inr tid, put_node (group_host from_gid h) a h))))"

definition api_transfer :: "'d api" where
  "api_transfer = body_of [(''from_gid'', KString), (''From'', KString), (''to_gid'', KString), (''To'', KString), (''Amount'', KInt64)]
     (\<lambda>q W r (h, d).
        case between (w_lib W) (fstr q ''from_gid'') (fstr q ''From'') (fstr q ''to_gid'') (fstr q ''To'') (fint q ''Amount'') h of
          (Inl e, h) \<Rightarrow> (Inl e, h, d)
        | (Inr tid, h) \<Rightarrow> (Inr (GMap [(''id'', GStr tid)]), h, d))"

definition api_transfer_state :: "'d api" where
  "api_transfer_state W r = (\<lambda>(h, d).
     case on_group (FormValue r ''gid'') (\<lambda>n. (Inr (GMap [(''state'', GStr (TransferState (FormValue r ''id'') n))]), n)) h of
       (out, h) \<Rightarrow> (out, h, d))"

text \<open>\<open>nodeName\<close>: the name in the identity document.\<close>

definition nodeName :: "Node option \<Rightarrow> string" where
  "nodeName on =
     (case on of None \<Rightarrow> []
      | Some n \<Rightarrow> (case as_obj (obj_get (IdentityDoc n) ''node'') of None \<Rightarrow> [] | Some nd \<Rightarrow> fst (asString (obj_get nd ''name''))))"

definition links_doc :: "lib \<Rightarrow> string \<Rightarrow> Node \<Rightarrow> Host \<Rightarrow> gval" where
  "links_doc L gid n h =
     GArr (map (\<lambda>other. GMap [(''gid'', GStr other), (''name'', GStr (nodeName (Group other h)))])
       (filter (\<lambda>other. other \<noteq> gid \<and> ContactActive L (Base other h) n) (Groups h)))"

definition api_links :: "'d api" where
  "api_links W r = (\<lambda>(h, d).
     let gid = FormValue r ''gid'' in
     case Group gid h of
       None \<Rightarrow> (Inl (NoSuchGroup gid), h, d)
     | Some n \<Rightarrow> (Inr (links_doc (w_lib W) gid n h), h, d))"

definition quote_doc :: "ContactView option \<Rightarrow> string \<Rightarrow> admin_error + gval" where
  "quote_doc cv amount =
     (case cv of
        None \<Rightarrow> Inl NotLinked
      | Some v \<Rightarrow>
          if \<not> cv_Active v then Inl NotLinked
          else case ParseInt amount of
              (a, ok) \<Rightarrow>
                if \<not> ok then Inl BadAmount
                else (case PoolPrice (cv_MyReserveOfPeer v) (cv_PeerReserveOfMe v) a of
                    Inl e \<Rightarrow> Inl (PriceFailed e)
                  | Inr dst \<Rightarrow>
                      Inr (GMap [(''amount'', GInt a), (''dst'', GInt dst), (''r_src'', GInt (cv_MyReserveOfPeer v)),
                        (''r_dst'', GInt (cv_PeerReserveOfMe v))])))"

definition api_quote :: "'d api" where
  "api_quote W r = (\<lambda>(h, d).
     case Group (FormValue r ''from_gid'') h of
       None \<Rightarrow> (Inl (NoSuchGroup (FormValue r ''from_gid'')), h, d)
     | Some a \<Rightarrow> (quote_doc (ContactByPeer (w_lib W) (Base (FormValue r ''to_gid'') h) a) (FormValue r ''amount''), h, d))"

text \<open>The group is renamed in the registry first; when that fails the node keeps its names.\<close>

definition api_rename :: "'d api" where
  "api_rename = body_of [(''Gid'', KString), (''Name'', KString), (''Currency'', KString), (''Symbol'', KString)] (\<lambda>q W r (h, d).
     let gid = fstr q ''Gid''; name = clean (fstr q ''Name''); currency = clean (fstr q ''Currency''); symbol = clean (fstr q ''Symbol'');
         set_names = (\<lambda>h. case Group gid h of None \<Rightarrow> h
           | Some n \<Rightarrow> put_node (group_host gid h) (SetIdentity name currency symbol n) h)
     in if Group gid h = None then (Inl (NoSuchGroup gid), h, d)
        else if 60 < runes name \<or> 30 < runes currency \<or> 5 < runes symbol then (Inl TooLong, h, d)
        else if name = [] \<and> currency = [] \<and> symbol = [] then (Inl NothingToRename, h, d)
        else (case w_db W of
            None \<Rightarrow> (Inr ok_true, set_names h, d)
          | Some R \<Rightarrow>
              (case ds_transact (rg_store R) (rename_body gid name currency symbol) d of
                 (Inl e, d) \<Rightarrow> (Inl (StoreFailed e), h, d)
               | (Inr _, d) \<Rightarrow> (Inr ok_true, set_names h, d))))"

definition api_leave :: "'d api" where
  "api_leave = body_of [(''Gid'', KString), (''Member'', KString), (''Mode'', KString), (''To'', KString)] (\<lambda>q W r (h, d).
     let gid = fstr q ''Gid'' in
     case on_group gid (\<lambda>n. answer (\<lambda>_. ok_true) (Leave (w_lib W) (fstr q ''Member'') (fstr q ''Mode'') (fstr q ''To'') n)) h of
       (out, h) \<Rightarrow> then_mark gid W (out, h, d))"

text \<open>
  \<open>move\<close>: the balance is sent to the other group, and the member leaves once it has settled. \<open>w_wait\<close> is what happens to the host
  in the at most twenty seconds of waiting; a group that was removed meanwhile counts as not settled.
\<close>

definition leave_moved :: "string \<Rightarrow> string \<Rightarrow> string \<Rightarrow> i64 \<Rightarrow> 'd world \<Rightarrow> Host \<times> 'd \<Rightarrow> (admin_error + gval) \<times> Host \<times> 'd" where
  "leave_moved from_gid to_gid mem moved W st =
     (case on_group from_gid (\<lambda>n. answer (\<lambda>_. GMap [(''moved'', GInt moved)]) (Leave (w_lib W) mem ''keep'' [] n)) (fst st) of
        (out, h) \<Rightarrow> then_mark from_gid W (then_mark to_gid W (out, h, snd st)))"

definition settled_at :: "string \<Rightarrow> string \<Rightarrow> Host \<Rightarrow> bool" where
  "settled_at gid tid h = (case Group gid h of None \<Rightarrow> False | Some n \<Rightarrow> TransferState tid n = ''SETTLED'')"

definition api_move :: "'d api" where
  "api_move = body_of [(''from_gid'', KString), (''Member'', KString), (''to_gid'', KString), (''To'', KString)] (\<lambda>q W r (h, d).
     let from_gid = fstr q ''from_gid''; mem = fstr q ''Member''; to_gid = fstr q ''to_gid''; to = fstr q ''To'' in
     case Group from_gid h of
       None \<Rightarrow> (Inl (NoSuchGroup from_gid), h, d)
     | Some a \<Rightarrow>
         (case Group to_gid h of
            None \<Rightarrow> (Inl (NoSuchGroup to_gid), h, d)
          | Some b \<Rightarrow>
              if \<not> MemberActive to b then (Inl (NoAccount to to_gid), h, d)
              else
                let moved = NodeBalance (MemberPrefix @ mem) a in
                if sint moved \<le> 0 then leave_moved from_gid to_gid mem moved W (h, d)
                else (case between (w_lib W) from_gid mem to_gid to moved h of
                    (Inl e, h) \<Rightarrow> (Inl e, h, d)
                  | (Inr tid, h) \<Rightarrow>
                      let h = w_wait W h in
                      if settled_at from_gid tid h then leave_moved from_gid to_gid mem moved W (h, d)
                      else (Inl (NotSettled tid), h, d))))"

section \<open>The API\<close>

definition api_table :: "((string \<times> string) \<times> 'd api) list" where
  "api_table =
     [((''POST'', ''/lp/admin/group''), api_group), ((''POST'', ''/lp/admin/member''), api_member),
      ((''GET'', ''/lp/admin/balance''), api_balance), ((''POST'', ''/lp/admin/pay''), api_pay),
      ((''POST'', ''/lp/admin/link''), api_link), ((''POST'', ''/lp/admin/transfer''), api_transfer),
      ((''GET'', ''/lp/admin/transfer''), api_transfer_state), ((''GET'', ''/lp/admin/links''), api_links),
      ((''GET'', ''/lp/admin/quote''), api_quote), ((''POST'', ''/lp/admin/rename''), api_rename),
      ((''POST'', ''/lp/admin/leave''), api_leave), ((''POST'', ''/lp/admin/move''), api_move)]"

text \<open>Answers: 200, 400, 401, 404, 405, a refused cron, and the closed connection after a panic.\<close>

datatype admin_response =
    Answer gval
  | Failed admin_error
  | Unauthorized
  | NotFound
  | MethodNotAllowed
  | PanicClosed

text \<open>An authorised request carries the token, with or without \<open>Bearer\<close>; without a configured token there is none.\<close>

definition authorized :: "string \<Rightarrow> areq \<Rightarrow> bool" where
  "authorized token r \<longleftrightarrow> token \<noteq> [] \<and> TrimPrefix (aq_Header r ''Authorization'') ''Bearer '' = token"

definition auth :: "'d api \<Rightarrow> 'd world \<Rightarrow> areq \<Rightarrow> Host \<times> 'd \<Rightarrow> admin_response \<times> Host \<times> 'd" where
  "auth f W r st =
     (if \<not> authorized (w_token W) r then (Unauthorized, st)
      else case f W r st of
          (Inl e, st) \<Rightarrow> (if e = Panicked then PanicClosed else Failed e, st)
        | (Inr v, st) \<Rightarrow> (Answer v, st))"

text \<open>The router of methods and paths: a pattern for GET also takes HEAD.\<close>

definition adminAPI :: "'d world \<Rightarrow> areq \<Rightarrow> Host \<times> 'd \<Rightarrow> admin_response \<times> Host \<times> 'd" where
  "adminAPI W r st =
     (let m = (if aq_Method r = ''HEAD'' then ''GET'' else aq_Method r) in
      case map_of api_table (m, aq_Path r) of
        Some f \<Rightarrow> auth f W r st
      | None \<Rightarrow> (if aq_Path r \<in> snd ` set (map fst (api_table :: ((string \<times> string) \<times> 'd api) list)) then MethodNotAllowed else NotFound, st))"

text \<open>The public documents of a group under its own path.\<close>

definition cut_slash :: "string \<Rightarrow> string \<times> string" where
  "cut_slash s = (takeWhile (\<lambda>c. c \<noteq> CHR ''/'') s, drop 1 (dropWhile (\<lambda>c. c \<noteq> CHR ''/'') s))"

definition groupReads :: "lib \<Rightarrow> request \<Rightarrow> Host \<Rightarrow> response \<times> Host" where
  "groupReads L r h =
     (case cut_slash (TrimPrefix (rq_Path r) ''/lp/g/'') of
        (gid, path) \<Rightarrow>
          (case Group gid h of
             None \<Rightarrow> (not_found, h)
           | Some n \<Rightarrow>
               if rq_Method r \<noteq> ''GET'' then (not_found, h)
               else (case serve L (Some (inproc L h)) (r\<lparr>rq_Path := ''/'' @ path\<rparr>) n of
                   (resp, n) \<Rightarrow> (resp, put_node (group_host gid h) n h))))"

section \<open>The process\<close>

text \<open>The configuration of the node and of a group, from the environment.\<close>

definition env :: "(string \<Rightarrow> string) \<Rightarrow> string \<Rightarrow> string \<Rightarrow> string" where
  "env get k def = (if get k \<noteq> [] then get k else def)"

definition gae_config :: "(string \<Rightarrow> string) \<Rightarrow> string \<Rightarrow> Config" where
  "gae_config get token =
     \<lparr>cfg_Base = env get ''LP_BASE'' (''http://localhost:'' @ env get ''PORT'' ''8080''), cfg_Name = env get ''LP_NAME'' ''CoffeeBucks'',
      cfg_Description = env get ''LP_DESC'' ''CoffeeBucks (K$): Kafumu's local currency, a Universal Dividend for every member'',
      cfg_CurrencyName = env get ''LP_CURRENCY'' ''CoffeeBucks'', cfg_CurrencySymbol = env get ''LP_SYMBOL'' ''K$'',
      cfg_CPeriodPpm = 11, cfg_UDPeriod = ''PT1H'', cfg_GenesisUD = 1000000 div 24, cfg_Transparency = ''pseudonymous'',
      cfg_AutoAcceptSeed = 0, cfg_Members = [], cfg_AdminToken = token, cfg_BatchUD = True, cfg_PrivKey = None\<rparr>"

definition groupCfg :: "Config \<Rightarrow> string \<Rightarrow> string \<Rightarrow> Config" where
  "groupCfg cfg gid name =
     cfg\<lparr>cfg_Name := name, cfg_Description := name @ '': a CoffeeBucks group on Kafumu'', cfg_CurrencyName := ''CoffeeBucks '' @ name,
         cfg_AutoAcceptSeed := 100 * 1000000\<rparr>"

text \<open>The hourly dividend, for the node and every group; then the empty groups are swept. A failed sweep is only logged.\<close>

datatype cron_response = CronOK | CronNotFound | CronFailed

definition cron_ud :: "'d world \<Rightarrow> (string \<Rightarrow> string) \<Rightarrow> Node \<times> Host \<times> 'd \<Rightarrow> cron_response \<times> Node \<times> Host \<times> 'd" where
  "cron_ud W header st =
     (case st of (n, h, d) \<Rightarrow>
        if header ''X-Appengine-Cron'' \<noteq> ''true'' then (CronNotFound, n, h, d)
        else case RunUD (w_lib W) n of
            (Inl _, n) \<Rightarrow> (CronFailed, n, h, d)
          | (Inr _, n) \<Rightarrow>
              (case RunUD_host (w_lib W) h of
                 (Inl _, h) \<Rightarrow> (CronFailed, n, h, d)
               | (Inr _, h) \<Rightarrow>
                   (case w_db W of
                      None \<Rightarrow> (CronOK, n, h, d)
                    | Some R \<Rightarrow> (CronOK, n, snd (snd (sweepGroups W R (w_now W) (h, d)))))))"

text \<open>\<open>exitOnConflict\<close>: \<open>None\<close> is the exit of the process.\<close>

definition Save_or_exit :: "'d datastore \<Rightarrow> bytes \<Rightarrow> int \<Rightarrow> DSStore \<Rightarrow> 'd \<Rightarrow> ((store_error + unit) \<times> DSStore) option \<times> 'd" where
  "Save_or_exit D data now s d =
     (case Save D data now s d of
        (res, s, d) \<Rightarrow> (if res = Inl ErrConflict then None else Some (res, s), d))"

section \<open>What the API does to the host\<close>

abbreviation steps :: "'d world \<Rightarrow> Host \<Rightarrow> Host \<Rightarrow> bool" where
  "steps W \<equiv> (host_step (w_lib W) (w_cfg W))\<^sup>*\<^sup>*"

lemma put_same [simp]: "Group gid h = Some n \<Longrightarrow> put_node (group_host gid h) n h = h"
  by (simp add: put_node_def Group_def mput_def update_triv)

lemma act_run:
  assumes "Group gid h = Some n" "n' = n \<or> node_step (w_lib W) n n'"
  shows "steps W h (put_node (group_host gid h) n' h)"
  using assms host_step.acts [of h "group_host gid h" n "w_lib W" n' "w_cfg W"] by (auto simp: Group_def [symmetric] intro: r_into_rtranclp)

lemma on_group_run:
  assumes "\<And>n. snd (f n) = n \<or> node_step (w_lib W) n (snd (f n))"
  shows "steps W h (snd (on_group gid f h))"
  using assms act_run [of gid h _ "snd (f _)" W] by (auto simp: on_group_def case_prod_beta split: option.split)

lemma answer_node [simp]: "snd (answer f rn) = snd rn"
  by (simp add: answer_def case_prod_beta split: sum.split)

lemma then_mark_host [simp]: "fst (snd (then_mark gid W res)) = fst (snd res)"
  by (simp add: then_mark_def case_prod_beta)

lemma body_of_run:
  assumes "\<And>q. steps W (fst st) (fst (snd (f q W r st)))"
  shows "steps W (fst st) (fst (snd (body_of fs f W r st)))"
  using assms by (simp add: body_of_def split: option.split)

text \<open>What the steps of the API rely on: fresh ids, stores of their own group, and that waiting is nothing but more steps.\<close>

definition world_ok :: "'d world \<Rightarrow> Host \<Rightarrow> bool" where
  "world_ok W h \<longleftrightarrow>
     (\<forall>gid n. Group gid h = Some n \<longrightarrow> contact_ref n (newID (w_lib W) (n_rand n)) = None) \<and>
     (\<forall>gid. disk_ok (w_lib W) (Base gid h) (w_store W gid)) \<and>
     (\<forall>h'. steps W h' (w_wait W h'))"

lemma open_group_run:
  assumes "disk_ok (w_lib W) (Base gid h) (w_store W gid)"
  shows "steps W h (snd (open_group W gid name h))"
  unfolding open_group_def by (intro r_into_rtranclp host_step.opens assms)

lemma api_group_run:
  assumes "world_ok W (fst st)"
  shows "steps W (fst st) (fst (snd (api_group W r st)))"
  unfolding api_group_def
proof (rule body_of_run)
  fix q
  have "steps W (fst st) (snd (open_group W (fstr q ''Gid'') (fstr q ''Name'') (fst st)))"
    using assms by (intro open_group_run) (simp add: world_ok_def)
  then show "steps W (fst st) (fst (snd (case st of (h, d) \<Rightarrow>
     let gid = fstr q ''Gid''; name = fstr q ''Name'' in
     if Group gid h \<noteq> None then (Inl (GroupExists gid), h, d)
     else case open_group W gid name h of
         (Inl e, h) \<Rightarrow> (Inl (HostError e), h, d)
       | (Inr _, h) \<Rightarrow>
           let done' = GMap [(''gid'', GStr gid), (''base'', GStr (Base gid h))] in
           (case w_db W of
              None \<Rightarrow> (Inr done', h, d)
            | Some R \<Rightarrow>
                (case ds_put_multi (rg_store R) [(groupKey gid, EGroup (no_group\<lparr>lg_Name := name, lg_CreatedAt := w_now W\<rparr>))] d of
                   (Some e, d) \<Rightarrow> (Inl (StoreFailed e), h, d)
                 | (None, d) \<Rightarrow> (Inr done', h, d))))))"
    by (simp add: case_prod_beta Let_def split: sum.split option.split)
qed

lemma join_member_step: "node_step L n (snd (join_member L mem n))"
  by (simp add: join_member_def node_step.intros)

lemma pay_doc_step: "node_step L n (snd (pay_doc L from' to amount n))"
proof -
  have "snd (pay_doc L from' to amount n) = snd (Pay L from' to amount n)"
    by (simp add: pay_doc_def case_prod_beta split: sum.split option.split)
  then show ?thesis
    by (simp add: node_step.pay)
qed

lemma between_run: "steps W h (snd (between (w_lib W) from_gid from' to_gid to amount h))"
proof (cases "Group from_gid h")
  case (Some a)
  have "steps W h (put_node (group_host from_gid h) (snd (StartTransfer (w_lib W) b f t amount [] a)) h)" for b f t
    by (rule act_run [OF Some]) (simp add: node_step.start_transfer)
  then show ?thesis
    using Some by (simp add: between_def case_prod_beta split: sum.split option.split)
qed (simp add: between_def)

lemma Link_run: "world_ok W h \<Longrightarrow> steps W h (snd (Link (w_lib W) a b seed h))"
  by (intro r_into_rtranclp host_step.links) (auto simp: world_ok_def)

lemma leave_moved_run: "steps W (fst st) (fst (snd (leave_moved from_gid to_gid mem moved W st)))"
proof -
  have "steps W (fst st) (snd (on_group from_gid (\<lambda>n. answer (\<lambda>_. GMap [(''moved'', GInt moved)]) (Leave (w_lib W) mem ''keep'' [] n)) (fst st)))"
    by (rule on_group_run) (simp add: node_step.leave)
  then show ?thesis
    by (simp add: leave_moved_def case_prod_beta)
qed

lemma simple_runs:
  "steps W (fst st) (fst (snd (api_member W r st)))" "steps W (fst st) (fst (snd (api_balance W r st)))"
  "steps W (fst st) (fst (snd (api_pay W r st)))" "steps W (fst st) (fst (snd (api_transfer W r st)))"
  "steps W (fst st) (fst (snd (api_transfer_state W r st)))" "steps W (fst st) (fst (snd (api_links W r st)))"
  "steps W (fst st) (fst (snd (api_quote W r st)))" "steps W (fst st) (fst (snd (api_leave W r st)))"
proof -
  have joins: "steps W h (snd (on_group gid (join_member (w_lib W) m) h))" for gid m h
    by (rule on_group_run) (simp add: join_member_step)
  have pays: "steps W h (snd (on_group gid (pay_doc (w_lib W) a b x) h))" for gid a b x h
    by (rule on_group_run) (simp add: pay_doc_step)
  have leaves: "steps W h (snd (on_group gid (\<lambda>n. answer f (Leave (w_lib W) a b c n)) h))" for gid f a b c h
    by (rule on_group_run) (simp add: node_step.leave)
  have reads: "steps W h (snd (on_group gid (\<lambda>n. (f n, n)) h))" for gid f h
    by (rule on_group_run) simp
  show "steps W (fst st) (fst (snd (api_member W r st)))"
    unfolding api_member_def by (rule body_of_run) (simp add: case_prod_beta Let_def joins)
  show "steps W (fst st) (fst (snd (api_balance W r st)))"
    using reads by (simp add: api_balance_def case_prod_beta balance_doc_def [abs_def])
  show "steps W (fst st) (fst (snd (api_pay W r st)))"
    unfolding api_pay_def by (rule body_of_run) (simp add: case_prod_beta pays)
  show "steps W (fst st) (fst (snd (api_transfer W r st)))"
    unfolding api_transfer_def
  proof (rule body_of_run)
    show "steps W (fst st) (fst (snd (case st of (h, d) \<Rightarrow>
        case between (w_lib W) (fstr q ''from_gid'') (fstr q ''From'') (fstr q ''to_gid'') (fstr q ''To'') (fint q ''Amount'') h of
          (Inl e, h) \<Rightarrow> (Inl e, h, d)
        | (Inr tid, h) \<Rightarrow> (Inr (GMap [(''id'', GStr tid)]), h, d))))" for q
      by (simp add: between_run case_prod_beta split: sum.split)
  qed
  show "steps W (fst st) (fst (snd (api_transfer_state W r st)))"
    using reads by (simp add: api_transfer_state_def case_prod_beta)
  show "steps W (fst st) (fst (snd (api_links W r st)))" "steps W (fst st) (fst (snd (api_quote W r st)))"
    by (simp_all add: api_links_def api_quote_def case_prod_beta Let_def split: option.split)
  show "steps W (fst st) (fst (snd (api_leave W r st)))"
    unfolding api_leave_def by (rule body_of_run) (simp add: case_prod_beta Let_def leaves)
qed

lemma api_link_run:
  assumes "world_ok W (fst st)"
  shows "steps W (fst st) (fst (snd (api_link W r st)))"
  unfolding api_link_def
proof (rule body_of_run)
  show "steps W (fst st) (fst (snd (case st of (h, d) \<Rightarrow>
     let seed = (if sint (fint q ''Seed'') \<le> 0 then 100000000 else fint q ''Seed'') in
     case Link (w_lib W) (fstr q ''A'') (fstr q ''B'') seed h of
       (Inl e, h) \<Rightarrow> (Inl (HostError e), h, d)
     | (Inr _, h) \<Rightarrow> (Inr ok_true, h, d))))" for q
    using Link_run [OF assms] by (simp add: case_prod_beta Let_def split: sum.split)
qed

lemma set_names_run:
  "Group gid h = Some n \<Longrightarrow> steps W h (put_node (group_host gid h) (SetIdentity a b c n) h)"
  by (rule act_run, assumption, rule disjI2, rule node_step.set_identity)

lemma api_rename_run: "steps W (fst st) (fst (snd (api_rename W r st)))"
proof -
  obtain h d where st: "st = (h, d)"
    by (rule prod.exhaust)
  show ?thesis
    unfolding api_rename_def
    by (rule body_of_run) (simp add: st case_prod_beta Let_def set_names_run split: option.split sum.split)
qed

lemma api_move_run:
  assumes "world_ok W (fst st)"
  shows "steps W (fst st) (fst (snd (api_move W r st)))"
  unfolding api_move_def
proof (rule body_of_run)
  fix q
  obtain h d where st: "st = (h, d)"
    by (rule prod.exhaust)
  let ?f = "fstr q ''from_gid''" and ?m = "fstr q ''Member''" and ?t = "fstr q ''to_gid''" and ?to = "fstr q ''To''"
  have leaves: "steps W h' (fst (snd (leave_moved ?f ?t ?m x W (h', d))))" for x h'
    using leave_moved_run [of W "(h', d)"] by simp
  have sent: "steps W h (w_wait W (snd (between (w_lib W) ?f ?m ?t ?to x h)))" for x
    using between_run [of W h ?f ?m ?t ?to x] assms unfolding world_ok_def by (meson rtranclp_trans)
  have moves: "steps W h (fst (snd (leave_moved ?f ?t ?m x W (w_wait W (snd (between (w_lib W) ?f ?m ?t ?to x h)), d))))" for x
    using sent [of x] leaves by (rule rtranclp_trans)
  show "steps W (fst st) (fst (snd (case st of (h, d) \<Rightarrow>
     let from_gid = ?f; mem = ?m; to_gid = ?t; to = ?to in
     case Group from_gid h of
       None \<Rightarrow> (Inl (NoSuchGroup from_gid), h, d)
     | Some a \<Rightarrow>
         (case Group to_gid h of
            None \<Rightarrow> (Inl (NoSuchGroup to_gid), h, d)
          | Some b \<Rightarrow>
              if \<not> MemberActive to b then (Inl (NoAccount to to_gid), h, d)
              else
                let moved = NodeBalance (MemberPrefix @ mem) a in
                if sint moved \<le> 0 then leave_moved from_gid to_gid mem moved W (h, d)
                else (case between (w_lib W) from_gid mem to_gid to moved h of
                    (Inl e, h) \<Rightarrow> (Inl e, h, d)
                  | (Inr tid, h) \<Rightarrow>
                      let h = w_wait W h in
                      if settled_at from_gid tid h then leave_moved from_gid to_gid mem moved W (h, d)
                      else (Inl (NotSettled tid), h, d))))))"
    using leaves moves sent by (simp add: between_run st case_prod_beta Let_def split: option.split sum.split)
qed

lemma api_run:
  assumes "world_ok W (fst st)" "(k, f) \<in> set api_table"
  shows "steps W (fst st) (fst (snd (f W r st)))"
  using assms(2) simple_runs [of W st r] api_group_run [OF assms(1), of r] api_link_run [OF assms(1), of r] api_rename_run [of W st r]
    api_move_run [OF assms(1), of r]
  unfolding api_table_def by auto

lemma open_all_run:
  assumes "\<And>gid domain. disk_ok (w_lib W) (''https://'' @ gid @ ''.'' @ domain) (w_store W gid)"
  shows "steps W h (snd (open_all W gs h))"
proof (induction gs arbitrary: h)
  case (Cons kg gs)
  have put: "steps W h' (put_node k (SetIdentity a b c n) h')" if "map_of (h_nodes h') k = Some n" for h' k a b c n
    by (rule r_into_rtranclp, rule host_step.acts, rule that, rule node_step.set_identity)
  obtain gid g where kg: "kg = (gid, g)"
    by (rule prod.exhaust)
  let ?h = "snd (open_group W gid (lg_Name g) h)"
  have o: "steps W h ?h"
    using assms by (intro open_group_run) (simp add: Base_def)
  have s: "steps W ?h (case map_of (h_nodes ?h) k of None \<Rightarrow> ?h | Some n \<Rightarrow> put_node k (SetIdentity [] a b n) ?h)" for k a b
    using put by (simp split: option.split)
  have "steps W h (snd (open_all W gs (case map_of (h_nodes ?h) k of None \<Rightarrow> ?h | Some n \<Rightarrow> put_node k (SetIdentity [] a b n) ?h)))" for k a b
    using o s [of k a b] Cons.IH by (meson rtranclp_trans)
  then show ?case
    using o by (simp add: kg case_prod_beta split: sum.split)
qed simp

lemma sweep_groups_run: "steps W (fst st) (fst (snd (snd (sweep_groups W R gids gone st))))"
proof (induction gids arbitrary: gone st)
  case (Cons gid gids)
  obtain h d where st: "st = (h, d)"
    by (rule prod.exhaust)
  have rm: "steps W h (snd (Remove (w_lib W) gid h))"
    by (intro r_into_rtranclp host_step.removes)
  have stay: "steps W h (fst (snd (snd (sweep_groups W R gids g (h, d')))))" for g d'
    using Cons.IH [of "(h, d')" g] by simp
  have go: "steps W h (fst (snd (snd (sweep_groups W R gids g (snd (Remove (w_lib W) gid h), d')))))" for g d'
    using rtranclp_trans [OF rm] Cons.IH [of "(snd (Remove (w_lib W) gid h), d')" g] by simp
  show ?case
    using rm stay go by (cases "Group gid h") (simp_all add: st case_prod_beta split: sum.split option.split)
qed simp

text \<open>
  C22: an admin request is authorised or without effect. A request without the token leaves the host and the Datastore as they were, and
  so does one for no handler; any other takes the host through steps it can take, so all that is proved of the reachable
  states of a host holds after every request, whatever happens while a move waits.
\<close>

theorem admin_requests_are_steps:
  assumes "world_ok W h" "adminAPI W r (h, d) = (resp, h', d')"
  shows "(h', d') = (h, d) \<or> authorized (w_token W) r \<and> (host_step (w_lib W) (w_cfg W))\<^sup>*\<^sup>* h h'"
proof (cases "map_of api_table (if aq_Method r = ''HEAD'' then ''GET'' else aq_Method r, aq_Path r) :: 'a api option")
  case (Some f)
  then have f: "((if aq_Method r = ''HEAD'' then ''GET'' else aq_Method r, aq_Path r), f) \<in> set (api_table :: ((string \<times> string) \<times> 'a api) list)"
    by (rule map_of_SomeD)
  have "steps W h (fst (snd (f W r (h, d))))"
    using api_run [of W "(h, d)", OF _ f] assms(1) by simp
  then show ?thesis
    using assms(2) Some by (auto simp: adminAPI_def auth_def Let_def case_prod_beta split: if_splits sum.splits)
qed (use assms(2) in \<open>auto simp: adminAPI_def Let_def\<close>)

section \<open>Groups that stay\<close>

text \<open>A group keeps its members through what happens to the others.\<close>

definition stays :: "string \<Rightarrow> Host \<Rightarrow> Host \<Rightarrow> bool" where
  "stays g h h' \<longleftrightarrow> h_groupDomain h' = h_groupDomain h \<and> map_option n_members (Group g h') = map_option n_members (Group g h)"

lemma stays_refl: "stays g h h"
  by (simp add: stays_def)

lemma stays_trans: "stays g h h1 \<Longrightarrow> stays g h1 h2 \<Longrightarrow> stays g h h2"
  by (simp add: stays_def)

lemma CloseContact_members [simp]: "n_members (snd (CloseContact L b note n)) = n_members n"
  by (simp add: CloseContact_def case_prod_beta Let_def split: option.split)

lemma RetireReserve_members [simp]: "n_members (snd (RetireReserve L b n)) = n_members n"
  by (simp add: RetireReserve_def case_prod_beta Let_def split: option.split sum.split)

lemma stays_put: "map_option n_members (Group x h) = Some (n_members n) \<Longrightarrow> stays g h (put_node (group_host x h) n h)"
  by (auto simp: stays_def)

lemma let_go_stays: "stays g h (let_go L gid other h)"
  using stays_put [of gid h "snd (CloseContact L (Base other h) ''group deleted'' _)" g]
  by (simp add: let_go_def stays_refl split: option.split)

lemma part_stays: "stays g h (snd (part L gid other h))"
proof -
  have "stays g h (put_node (group_host other h) (snd (left_behind L gid h o')) (let_go L gid other h))"
    if "Group other h = Some o'" "other \<noteq> gid" for o'
  proof (rule stays_trans [OF let_go_stays [of g h L gid other]])
    show "stays g (let_go L gid other h) (put_node (group_host other h) (snd (left_behind L gid h o')) (let_go L gid other h))"
      using stays_put [of other "let_go L gid other h" "snd (left_behind L gid h o')" g] that
      by (simp add: Group_let_go left_behind_def)
  qed
  then show ?thesis
    by (simp add: part_eq stays_refl split: option.split)
qed

lemma part_all_stays: "stays g h (snd (part_all L gid gs h))"
proof (induction gs arbitrary: h)
  case (Cons x gs)
  have "stays g h (snd (part_all L gid gs (snd (part L gid x h))))"
    using part_stays Cons.IH by (rule stays_trans)
  then show ?case
    using part_stays [of g h L gid x] by (simp add: case_prod_beta split: sum.split)
qed (simp add: stays_refl)

lemma Remove_stays:
  assumes "g \<noteq> gid"
  shows "stays g h (snd (Remove L gid h))"
proof -
  let ?h = "snd (part_all L gid (Groups h) h)"
  have "Group g (?h\<lparr>h_nodes := mdel (group_host gid ?h) (h_nodes ?h)\<rparr>) = Group g ?h"
    using assms by (simp add: Group_def group_host_def)
  then have "stays g h (?h\<lparr>h_nodes := mdel (group_host gid ?h) (h_nodes ?h)\<rparr>)"
    using part_all_stays [of g h L gid "Groups h"] by (simp add: stays_def)
  then show ?thesis
    using part_all_stays [of g h L gid "Groups h"] by (simp add: Remove_def stays_refl case_prod_beta split: sum.split)
qed

definition peopled :: "string \<Rightarrow> Host \<Rightarrow> bool" where
  "peopled gid h \<longleftrightarrow> (\<exists>n. Group gid h = Some n \<and> 0 < sint (activeCountLocked n))"

lemma peopled_stays: "stays g h h' \<Longrightarrow> peopled g h \<Longrightarrow> peopled g h'"
  by (auto simp: stays_def peopled_def activeCountLocked_def split: option.splits)

lemma sweep_groups_stays:
  "g \<notin> set gids \<or> peopled g (fst st) \<Longrightarrow> stays g (fst st) (fst (snd (snd (sweep_groups W R gids gone st))))"
proof (induction gids arbitrary: gone st)
  case (Cons gid gids)
  obtain h d where st: "st = (h, d)"
    by (rule prod.exhaust)
  have skip: "stays g h (fst (snd (snd (sweep_groups W R gids n (h, d')))))" for n d'
    using Cons.IH [of "(h, d')" n] Cons.prems st by auto
  have rm: "stays g h (snd (Remove (w_lib W) gid h))" if "\<not> peopled gid h"
    using Cons.prems that st by (intro Remove_stays) auto
  have go: "stays g h (fst (snd (snd (sweep_groups W R gids n (snd (Remove (w_lib W) gid h), d')))))" if "\<not> peopled gid h" for n d'
    using stays_trans [OF rm [OF that]] Cons.IH [of "(snd (Remove (w_lib W) gid h), d')" n] Cons.prems st
      peopled_stays [OF rm [OF that]] by auto
  have p: "peopled gid h \<longleftrightarrow> (case Group gid h of None \<Rightarrow> False | Some n \<Rightarrow> 0 < sint (activeCountLocked n))"
    by (simp add: peopled_def split: option.split)
  show ?case
  proof (cases "peopled gid h")
    case True
    then show ?thesis
      using skip by (simp add: st p)
  next
    case False
    note f = rm [OF False] go [OF False] skip False [unfolded p]
    show ?thesis
    proof (cases "Group gid h")
      case None
      then show ?thesis
        by (simp add: st f(3) stays_refl case_prod_beta split: option.split)
    next
      case (Some n)
      then show ?thesis
        using f(4) by (simp add: st f(1,2) case_prod_beta split: option.split sum.split)
    qed
  qed
qed (simp add: stays_refl)


text \<open>A process without Datastore around two groups, and a Datastore that is down.\<close>

definition local_world :: "unit world" where
  "local_world =
     \<lparr>w_lib = demo, w_cfg = groupCfg (demo_cfg [] ''ann''), w_store = (\<lambda>_. \<lparr>st_up = True, st_saved = None\<rparr>), w_now = 0, w_rand = 0,
      w_db = None, w_token = ''secret'', w_wait = (\<lambda>h. h)\<rparr>"

definition down :: "unit datastore" where
  "down = (let e = Datastore ''unavailable'' in
     \<lparr>ds_get = (\<lambda>_ _. Inl e), ds_get_multi = (\<lambda>_ _. Inl e), ds_put_multi = (\<lambda>_ _. (Some e, ())), ds_delete_multi = (\<lambda>_ _. (Some e, ())),
      ds_transact = (\<lambda>_ _. (Inl e, ()))\<rparr>)"

lemma local_world_ok: "world_ok local_world two_groups"
proof -
  have "n = keeper \<or> n = demo_b" if "Group gid two_groups = Some n" for gid n
    using map_of_SomeD [OF that [unfolded Group_def]] by (auto simp: two_groups_def)
  moreover have "contact_ref keeper (newID demo (n_rand keeper)) = None"
    by (simp add: keeper_def contact_ref_def newID_def format_uuid_def Let_def)
  moreover have "contact_ref demo_b (newID demo (n_rand demo_b)) = None"
    by (rule demo_node_facts(7)) simp_all
  ultimately have "contact_ref n (newID demo (n_rand n)) = None" if "Group gid two_groups = Some n" for gid n
    using that by blast
  then show ?thesis
    by (simp add: world_ok_def local_world_def disk_ok_def)
qed

theorem admin_requests_are_steps_witness: "\<forall>r. host_inv (fst (snd (adminAPI local_world r (two_groups, ()))))"
proof
  fix r
  obtain resp h' d' where eq: "adminAPI local_world r (two_groups, ()) = (resp, h', d')"
    by (metis prod.exhaust)
  have "host_inv h2" if "(host_step L cfg)\<^sup>*\<^sup>* h1 h2" "host_inv h1" for L cfg h1 h2
    using that by (induction rule: rtranclp_induct) (auto intro: host_step_inv)
  then show "host_inv (fst (snd (adminAPI local_world r (two_groups, ()))))"
    using admin_requests_are_steps [OF local_world_ok eq] two_groups_inv by (auto simp: eq)
qed


end
