(* ===== verification/LP_Runner.thy ===== *)
theory LP_Runner
  imports LP_Federation LP_Restore
begin

text \<open>
  The black-box checker of live nodes (conformance/runner/runner.go): what it asks of one node's public documents and of the
  checkpoints of two, and that the nodes of this development pass it.
\<close>

section \<open>The documents as the checker decodes them\<close>

record KeyEntry =
  ke_Alg :: string
  ke_PublicKey :: string

record IdentityView =
  iv_Version :: string
  iv_Name :: string
  iv_Base :: string
  iv_MicroUnits :: i64
  iv_Keys :: "KeyEntry list"
  iv_Endpoints :: "string \<Rightarrow> string"

record ContactEntry =
  ce_Peer :: string
  ce_ContactID :: string
  ce_PeerReserveHere :: i64
  ce_OpSeq :: i64
  ce_ChannelRoot :: string

text \<open>The members that the struct tags name; a missing one leaves the zero value.\<close>

definition str :: "obj \<Rightarrow> string \<Rightarrow> string" where
  "str m k = fst (asString (obj_get m k))"

definition num :: "obj \<Rightarrow> string \<Rightarrow> i64" where
  "num m k = fst (asInt (obj_get m k))"

definition objects :: "gval \<Rightarrow> obj list" where
  "objects v = (case v of GArr xs \<Rightarrow> map obj_or_nil xs | _ \<Rightarrow> [])"

definition identity_of :: "obj \<Rightarrow> IdentityView" where
  "identity_of m =
     \<lparr>iv_Version = str m ''liquiditypub'', iv_Name = str (obj_or_nil (obj_get m ''node'')) ''name'',
      iv_Base = str (obj_or_nil (obj_get m ''node'')) ''base'', iv_MicroUnits = num (obj_or_nil (obj_get m ''currency'')) ''micro_units'',
      iv_Keys = map (\<lambda>k. \<lparr>ke_Alg = str k ''alg'', ke_PublicKey = str k ''public_key''\<rparr>) (objects (obj_get m ''keys'')),
      iv_Endpoints = str (obj_or_nil (obj_get m ''endpoints''))\<rparr>"

definition checkpoint_of :: "obj \<Rightarrow> ContactEntry list" where
  "checkpoint_of m =
     map (\<lambda>c. \<lparr>ce_Peer = str c ''peer'', ce_ContactID = str c ''contact_id'', ce_PeerReserveHere = num c ''peer_reserve_here'',
                ce_OpSeq = num c ''op_seq'', ce_ChannelRoot = str c ''channel_root''\<rparr>)
       (objects (obj_get m ''contacts''))"

section \<open>The checks\<close>

record Result =
  rs_Check :: string
  rs_OK :: bool
  rs_Note :: string

definition result :: "string \<Rightarrow> bool \<Rightarrow> string \<Rightarrow> Result" where
  "result check ok memo = \<lparr>rs_Check = check, rs_OK = ok, rs_Note = memo\<rparr>"

definition hasEd25519 :: "IdentityView \<Rightarrow> bool" where
  "hasEd25519 i = list_ex (\<lambda>k. ke_Alg k = ''ed25519'' \<and> ke_PublicKey k \<noteq> []) (iv_Keys i)"

text \<open>\<open>CheckNode\<close>; \<open>get\<close> is \<open>getJSON\<close>: the decoded document behind a URL, or the text of an error.\<close>

definition identity_checks :: "IdentityView \<Rightarrow> Result list" where
  "identity_checks i =
     [result ''identity: fetch'' True [],
      result ''identity: version 0.2'' (iv_Version i = ''0.2'') (iv_Version i),
      result ''identity: node name + base'' (iv_Name i \<noteq> [] \<and> iv_Base i \<noteq> []) [],
      result ''identity: currency micro_units = 1000000'' (iv_MicroUnits i = 1000000) [],
      result ''identity: at least one ed25519 key'' (hasEd25519 i) [],
      result ''identity: checkpoint endpoint'' (iv_Endpoints i ''checkpoint'' \<noteq> []) []]"

definition CheckNode :: "(string \<Rightarrow> string + obj) \<Rightarrow> string \<Rightarrow> Result list \<times> IdentityView option \<times> ContactEntry list option" where
  "CheckNode get base =
     (case get (base @ identityPath) of
        Inl e \<Rightarrow> ([result ''identity: fetch'' False e], None, None)
      | Inr doc \<Rightarrow>
          let i = identity_of doc; fetch = ''checkpoint: fetch (public in every transparency mode)'' in
          (case get (base @ iv_Endpoints i ''checkpoint'') of
             Inl e \<Rightarrow> (identity_checks i @ [result fetch False e], Some i, None)
           | Inr cp \<Rightarrow>
               (identity_checks i @ [result fetch True []] @
                map (\<lambda>c. result (''checkpoint: reserve non-negative for '' @ ce_Peer c) (0 \<le> sint (ce_PeerReserveHere c))
                       (dec64 (ce_PeerReserveHere c))) (checkpoint_of cp),
                Some i, Some (checkpoint_of cp))))"

definition cross_result :: "ContactEntry \<Rightarrow> ContactEntry \<Rightarrow> Result" where
  "cross_result a b =
     result (''cross-check contact '' @ ce_ContactID a) (ce_ChannelRoot a = ce_ChannelRoot b \<and> ce_OpSeq a = ce_OpSeq b)
       (''op_seq '' @ dec64 (ce_OpSeq a) @ ''/'' @ dec64 (ce_OpSeq b) @
        (if ce_ChannelRoot a \<noteq> ce_ChannelRoot b
         then '' CHANNEL ROOT DIVERGENCE (freeze the contact; histories are signed and attributable)'' else []))"

definition CrossCheck :: "ContactEntry list \<Rightarrow> ContactEntry list \<Rightarrow> Result list" where
  "CrossCheck cpA cpB =
     (let rs = concat (map (\<lambda>a. map (cross_result a) (filter (\<lambda>b. ce_ContactID a = ce_ContactID b) cpB)) cpA)
      in if rs = [] then [result ''cross-check'' True ''no shared contacts found''] else rs)"

text \<open>The command lpconform: the lines it prints and its exit code.\<close>

definition report_line :: "Result \<Rightarrow> string" where
  "report_line r =
     ''  '' @ (if rs_OK r then ''ok  '' else ''FAIL'') @ '' '' @ rs_Check r @ (if rs_Note r \<noteq> [] then ''  ('' @ rs_Note r @ '')'' else [])"

definition failed_checks :: "Result list \<Rightarrow> nat" where
  "failed_checks rs = length (filter (\<lambda>r. \<not> rs_OK r) rs)"

definition verdict :: "string list \<Rightarrow> Result list \<Rightarrow> string list \<times> nat" where
  "verdict ls rs =
     (if 0 < failed_checks rs then (ls @ [[], dec_int (int (failed_checks rs)) @ '' check(s) failed''], 1)
      else (ls @ [[], ''all checks passed''], 0))"

definition lpconform :: "(string \<Rightarrow> string + obj) \<Rightarrow> string list \<Rightarrow> string list \<times> nat" where
  "lpconform get args =
     (case args of
        [a] \<Rightarrow> (case CheckNode get a of (ra, _) \<Rightarrow> verdict (a # map report_line ra) ra)
      | [a, b] \<Rightarrow>
          (case CheckNode get a of (ra, _, ca) \<Rightarrow>
             (case CheckNode get b of (rb, _, cb) \<Rightarrow>
                let ls = a # map report_line ra @ b # map report_line rb in
                (case (ca, cb) of
                   (Some ca, Some cb) \<Rightarrow>
                     let rc = CrossCheck ca cb in verdict (ls @ ''cross-check'' # map report_line rc) (ra @ rb @ rc)
                 | _ \<Rightarrow> verdict ls (ra @ rb))))
      | _ \<Rightarrow> ([''usage: lpconform <node-base-url> [peer-base-url]''], 2))"

section \<open>Nodes that pass\<close>

definition public_docs :: "lib \<Rightarrow> Node \<Rightarrow> string \<Rightarrow> string + obj" where
  "public_docs L n url =
     (let base = cfg_Base (n_cfg n) in
      if url = base @ identityPath then Inr (IdentityDoc n)
      else if url = base @ ''/lp/checkpoint.json''
      then (case Checkpoint L n of None \<Rightarrow> Inl ''no answer'' | Some cp \<Rightarrow> Inr cp)
      else Inl ''HTTP 404'')"

lemma identity_of_node:
  "identity_of (IdentityDoc n) =
     \<lparr>iv_Version = ''0.2'', iv_Name = cfg_Name (n_cfg n), iv_Base = cfg_Base (n_cfg n), iv_MicroUnits = 1000000,
      iv_Keys = map (\<lambda>k. \<lparr>ke_Alg = ''ed25519'', ke_PublicKey = pubB64 (k_pub k)\<rparr>) (n_ownKeys n),
      iv_Endpoints = str [(''inbox'', GStr ''/lp/inbox''),
        (''outbox'', GStr (''/lp/outbox/'' @ [CHR 0x7B] @ ''peer-host'' @ [CHR 0x7D] @ ''.json'')),
        (''checkpoint'', GStr ''/lp/checkpoint.json''), (''log'', GStr ''/lp/log/'')]\<rparr>"
  by (simp add: identity_of_def IdentityDoc_def Let_def str_def num_def obj_get_def obj_or_nil_def objects_def keyDocs_def comp_def)

lemma checkpoint_of_node:
  assumes "Checkpoint L n = Some cp"
  shows "checkpoint_of cp =
    map (\<lambda>hr. let c = cell n (snd hr) in
      \<lparr>ce_Peer = c_PeerBase c, ce_ContactID = c_ID c, ce_PeerReserveHere = c_MyReserveOfPeer c, ce_OpSeq = c_OpSeq c,
       ce_ChannelRoot = channelRootB64 c\<rparr>) (n_contactByHost n)"
proof -
  have "obj_get cp ''contacts'' = GArr (map (\<lambda>hr. checkpoint_entry n (cell n (snd hr))) (n_contactByHost n))"
    using assms by (auto simp: Checkpoint_def Let_def obj_get_def split: sum.splits)
  then show ?thesis
    by (simp add: checkpoint_of_def objects_def checkpoint_entry_def str_def num_def obj_get_def obj_or_nil_def comp_def Let_def)
qed

definition presentable :: "lib \<Rightarrow> Node \<Rightarrow> bool" where
  "presentable L n \<longleftrightarrow> node_inv n \<and> keys_ok L n \<and> cfg_Name (n_cfg n) \<noteq> [] \<and>
     (\<forall>hr \<in> set (n_contactByHost n). fst hr \<noteq> [] \<and> host_ref n (fst hr) = Some (snd hr) \<and> \<not> c_Closed (cell n (snd hr)))"

lemma presentable_identity: "presentable L n \<Longrightarrow> list_all rs_OK (identity_checks (identity_of (IdentityDoc n)))"
proof -
  assume "presentable L n"
  then have k: "n_ownKeys n \<noteq> []" "\<forall>k \<in> set (n_ownKeys n). length (k_pub k) = 32" "cfg_Base (n_cfg n) \<noteq> []" "cfg_Name (n_cfg n) \<noteq> []"
    by (auto simp: presentable_def keys_ok_def)
  have "length (k_pub (last (n_ownKeys n))) = 32"
    by (rule bspec [OF k(2) last_in_set [OF k(1)]])
  then have "k_pub (last (n_ownKeys n)) \<noteq> []"
    by auto
  then have "pubB64 (k_pub (last (n_ownKeys n))) \<noteq> []"
    using b64_encode_inject [of "k_pub (last (n_ownKeys n))" "[]"] by (auto simp: pubB64_def)
  then have "list_ex (\<lambda>k. pubB64 (k_pub k) \<noteq> []) (n_ownKeys n)"
    using k(1) last_in_set unfolding list_ex_iff by blast
  then show ?thesis
    using k by (simp add: identity_checks_def identity_of_node result_def hasEd25519_def list_ex_iff str_def obj_get_def)
qed

lemma presentable_reserve:
  assumes "presentable L n" "hr \<in> set (n_contactByHost n)"
  shows "0 \<le> sint (c_MyReserveOfPeer (cell n (snd hr)))"
proof -
  have hr: "fst hr \<noteq> []" "host_ref n (fst hr) = Some (snd hr)" "\<not> c_Closed (cell n (snd hr))" and inv: "node_inv n"
    using assms by (auto simp: presentable_def)
  have r: "snd hr < length (n_cells n)" "c_PeerHost (cell n (snd hr)) = fst hr"
    using inv_host [OF inv hr(2)] by auto
  have "Balance (n_led n) (NodeWalletPrefix @ fst hr) = c_MyReserveOfPeer (cell n (snd hr))"
    using inv r hr(3) by (auto simp: node_inv_def mirrored_def wallet_def)
  moreover have "wf_ledger (n_led n)"
    using inv by (simp add: node_inv_def)
  ultimately show ?thesis
    using wf_ledger_wallets [of "n_led n" "NodeWalletPrefix @ fst hr"] hr(1) by simp
qed

lemma CheckNode_presentable:
  assumes "presentable L n" "Checkpoint L n = Some cp"
  shows "CheckNode (public_docs L n) (cfg_Base (n_cfg n)) =
      (fst (CheckNode (public_docs L n) (cfg_Base (n_cfg n))), Some (identity_of (IdentityDoc n)), Some (checkpoint_of cp))"
    "list_all rs_OK (fst (CheckNode (public_docs L n) (cfg_Base (n_cfg n))))"
proof -
  have docs: "public_docs L n (cfg_Base (n_cfg n) @ identityPath) = Inr (IdentityDoc n)"
    "public_docs L n (cfg_Base (n_cfg n) @ iv_Endpoints (identity_of (IdentityDoc n)) ''checkpoint'') = Inr cp"
    using assms(2) by (simp_all add: public_docs_def identity_of_node str_def obj_get_def identityPath_def)
  show "CheckNode (public_docs L n) (cfg_Base (n_cfg n)) =
      (fst (CheckNode (public_docs L n) (cfg_Base (n_cfg n))), Some (identity_of (IdentityDoc n)), Some (checkpoint_of cp))"
    by (simp add: CheckNode_def docs Let_def)
  show "list_all rs_OK (fst (CheckNode (public_docs L n) (cfg_Base (n_cfg n))))"
    using presentable_identity [OF assms(1)] presentable_reserve [OF assms(1)]
    by (auto simp: CheckNode_def docs Let_def checkpoint_of_node [OF assms(2)] result_def list_all_iff)
qed

text \<open>Contacts under one id are the two sides of one contact.\<close>

definition agreeing :: "Node \<Rightarrow> Node \<Rightarrow> bool" where
  "agreeing a b \<longleftrightarrow>
     (\<forall>r \<in> snd ` set (n_contactByHost a). \<forall>s \<in> snd ` set (n_contactByHost b). c_ID (cell a r) = c_ID (cell b s) \<longrightarrow> mirror (cell a r) (cell b s))"

lemma CrossCheck_agreeing:
  assumes "agreeing a b" "Checkpoint L a = Some cp" "Checkpoint L b = Some cq"
  shows "list_all rs_OK (CrossCheck (checkpoint_of cp) (checkpoint_of cq))"
proof -
  have "rs_OK (cross_result x y)"
    if xy: "x \<in> set (checkpoint_of cp)" "y \<in> set (checkpoint_of cq)" and same: "ce_ContactID x = ce_ContactID y" for x y
  proof -
    obtain hr where hr: "hr \<in> set (n_contactByHost a)"
      and "x = (let c = cell a (snd hr) in
        \<lparr>ce_Peer = c_PeerBase c, ce_ContactID = c_ID c, ce_PeerReserveHere = c_MyReserveOfPeer c, ce_OpSeq = c_OpSeq c,
         ce_ChannelRoot = channelRootB64 c\<rparr>)"
      using xy(1) unfolding checkpoint_of_node [OF assms(2)] set_map by (rule imageE)
    then have x: "ce_ContactID x = c_ID (cell a (snd hr))" "ce_ChannelRoot x = channelRootB64 (cell a (snd hr))" "ce_OpSeq x = c_OpSeq (cell a (snd hr))"
      by (simp_all add: Let_def)
    obtain hs where hs: "hs \<in> set (n_contactByHost b)"
      and "y = (let c = cell b (snd hs) in
        \<lparr>ce_Peer = c_PeerBase c, ce_ContactID = c_ID c, ce_PeerReserveHere = c_MyReserveOfPeer c, ce_OpSeq = c_OpSeq c,
         ce_ChannelRoot = channelRootB64 c\<rparr>)"
      using xy(2) unfolding checkpoint_of_node [OF assms(3)] set_map by (rule imageE)
    then have y: "ce_ContactID y = c_ID (cell b (snd hs))" "ce_ChannelRoot y = channelRootB64 (cell b (snd hs))" "ce_OpSeq y = c_OpSeq (cell b (snd hs))"
      by (simp_all add: Let_def)
    have "mirror (cell a (snd hr)) (cell b (snd hs))"
      using assms(1) same hr hs x y by (simp add: agreeing_def)
    then show ?thesis
      by (simp add: cross_result_def result_def x y mirror_def channelRootB64_def)
  qed
  then show ?thesis
    by (auto simp: CrossCheck_def Let_def list_all_iff result_def)
qed

lemma CheckNode_cong: "(\<And>p. get (base @ p) = get' (base @ p)) \<Longrightarrow> CheckNode get base = CheckNode get' base"
  by (simp add: CheckNode_def Let_def split: sum.split)

lemma verdict_passed: "list_all rs_OK rs \<Longrightarrow> snd (verdict ls rs) = 0"
  by (simp add: verdict_def failed_checks_def list_all_iff)

lemma lpconform_two:
  "CheckNode get a = (ra, ia, Some ca) \<Longrightarrow> CheckNode get b = (rb, ib, Some cb) \<Longrightarrow>
     \<exists>ls. lpconform get [a, b] = verdict ls (ra @ rb @ CrossCheck ca cb)"
  by (intro exI) (simp add: lpconform_def Let_def)


definition mate :: Node where
  "mate = empty_node (demo_cfg ''https://b.example'' ''bob'') (k_priv demo_key) 0 0
     \<lparr>n_ownKeys := [demo_key], n_peerKeys := [(keyID ''https://b.example'' ''#nk1'', k_pub demo_key)],
       n_cells := [empty_contact ''c1'' ''https://a.example'' ''a.example'' False 1000 0],
       n_contacts := [(''c1'', 0)], n_contactByHost := [(''a.example'', 0)]\<rparr>"

lemma mate_presentable: "presentable demo mate" "presentable demo keeper"
proof -
  have keys: "keys_ok demo n"
    if "n_ownKeys n = [demo_key]" "n_keyLocalID n = ''#nk1''" "n_priv n = k_priv demo_key" "n_pub n = k_pub demo_key" "cfg_Base (n_cfg n) \<noteq> []" for n
  proof -
    have "key_name 1 = ''#nk1''"
      by code_simp
    then show ?thesis
      using that signs_with_seed [OF demo_ed25519, of demo_seed n]
      by (simp add: keys_ok_def demo_key_def signs_with_def demo_seed_def Public_def NewKeyFromSeed_def)
  qed
  have "node_inv mate"
    by (auto simp: inv_defs active_id_def wallet_def cell_def host_ref_def contact_ref_def wf_ledger_New [unfolded New_def] mate_def
        empty_node_def demo_cfg_def demo_key_def empty_contact_def Balance_def New_def mget0_def)
  then show "presentable demo mate"
    using keys [of mate] by (simp add: presentable_def mate_def empty_node_def demo_cfg_def host_ref_def cell_def empty_contact_def demo_key_def)
  show "presentable demo keeper"
    using keeper_inv keys [of keeper] by (simp add: presentable_def keeper_def empty_node_def demo_cfg_def host_ref_def cell_def empty_contact_def demo_key_def)
qed

definition both_docs :: "string \<Rightarrow> string + obj" where
  "both_docs url = (if HasPrefix url ''https://a.example'' then public_docs demo keeper url else public_docs demo mate url)"


end
