(* ===== verification/LP_Command.thy ===== *)
theory LP_Command
  imports LP_Admin LP_Runner
begin

text \<open>
  The command lpnode (cmd/lpnode): how \<open>serve\<close> starts a node from its flags, and \<open>demo\<close>, which takes two nodes through a contact and
  two payments and then checks them. The demo is proved to end green.
\<close>

section \<open>Serving\<close>

text \<open>The flags that shape the node; \<open>sf_state\<close> is the path of the state file.\<close>

record serve_flags =
  sf_addr :: string
  sf_base :: string
  sf_name :: string
  sf_currency :: string
  sf_symbol :: string
  sf_members :: string
  sf_seed :: i64
  sf_peer :: string
  sf_ud :: bool
  sf_state :: string

definition default_flags :: serve_flags where
  "default_flags =
     \<lparr>sf_addr = ''127.0.0.1:8080'', sf_base = [], sf_name = ''Node'', sf_currency = ''Credits'', sf_symbol = ''C'',
      sf_members = ''alice:100000000'', sf_seed = 500000000, sf_peer = [], sf_ud = False, sf_state = []\<rparr>"

text \<open>\<open>strings.Split\<close> at one byte.\<close>

fun split_at :: "char \<Rightarrow> string \<Rightarrow> string list" where
  "split_at c [] = [[]]"
| "split_at c (x # xs) =
     (if x = c then [] # split_at c xs
      else case split_at c xs of [] \<Rightarrow> [[x]] | p # ps \<Rightarrow> (x # p) # ps)"

text \<open>One \<open>name:grant\<close>; a grant that does not parse counts as what \<open>ParseInt\<close> gives beside its error.\<close>

definition member_spec :: "string \<Rightarrow> MemberConfig option" where
  "member_spec spec =
     (let spec = TrimSpace spec in
      if spec = [] then None
      else
        let name = takeWhile (\<lambda>c. c \<noteq> CHR '':'') spec in
        Some \<lparr>mc_Name = name, mc_Grant = (if name = spec then 0 else fst (ParseInt (drop (length name + 1) spec))), mc_DisplayName = []\<rparr>)"

definition member_specs :: "string \<Rightarrow> MemberConfig list" where
  "member_specs s = List.map_filter member_spec (split_at (CHR '','') s)"

definition serve_config :: "serve_flags \<Rightarrow> Config" where
  "serve_config f =
     \<lparr>cfg_Base = (if sf_base f = [] then ''http://'' @ sf_addr f else sf_base f), cfg_Name = sf_name f,
      cfg_Description = sf_name f @ '' (lpnode serve)'', cfg_CurrencyName = sf_currency f, cfg_CurrencySymbol = sf_symbol f,
      cfg_CPeriodPpm = 274, cfg_UDPeriod = ''P1D'', cfg_GenesisUD = 1000000, cfg_Transparency = [], cfg_AutoAcceptSeed = sf_seed f,
      cfg_Members = member_specs (sf_members f), cfg_AdminToken = [], cfg_BatchUD = False, cfg_PrivKey = None\<rparr>"

text \<open>
  The node that is served: resumed from the state file \<open>s\<close> when there is one, with one dividend issued and, a moment later, a contact
  proposed, when the flags ask for it. The contact may fail, which is only printed.
\<close>

definition runServe :: "lib \<Rightarrow> serve_flags \<Rightarrow> store \<Rightarrow> int \<Rightarrow> nat \<Rightarrow> node_error + Node" where
  "runServe L f s t i =
     (case (if sf_state f \<noteq> [] then Restore L (serve_config f) s t i else NewNode L (serve_config f) t i) of
        Inl e \<Rightarrow> Inl e
      | Inr n \<Rightarrow>
          (case (if sf_ud f then RunUD L n else (Inr 0, n)) of
             (Inl e, _) \<Rightarrow> Inl e
           | (Inr _, n) \<Rightarrow>
               Inr (if sf_peer f \<noteq> [] then snd (OpenContact L (sf_peer f) (sf_seed f) ''serve --peer'' n) else n)))"

lemma runServe_inv:
  assumes "disk_ok L (cfg_Base (serve_config f)) s" "sf_peer f = []" "runServe L f s t i = Inr n"
  shows "node_inv n"
proof -
  obtain m where m: "(if sf_state f \<noteq> [] then Restore L (serve_config f) s t i else NewNode L (serve_config f) t i) = Inr m"
    using assms(3) by (auto simp: runServe_def split: sum.splits)
  then have "node_inv m"
    using Restore_inv [OF assms(1)] NewNode_inv by (auto split: if_splits)
  then show ?thesis
    using assms(2,3) m RunUD_inv [of m L] by (auto simp: runServe_def case_prod_beta split: if_splits sum.splits)
qed

section \<open>The demo\<close>

definition demo_config :: "string \<Rightarrow> string \<Rightarrow> string \<Rightarrow> string \<Rightarrow> string \<Rightarrow> Config" where
  "demo_config base name currency symbol mem =
     \<lparr>cfg_Base = base, cfg_Name = name, cfg_Description = ''demo'', cfg_CurrencyName = currency, cfg_CurrencySymbol = symbol,
      cfg_CPeriodPpm = 274, cfg_UDPeriod = ''P1D'', cfg_GenesisUD = 1000000, cfg_Transparency = [], cfg_AutoAcceptSeed = 500000000,
      cfg_Members = [\<lparr>mc_Name = mem, mc_Grant = 100000000, mc_DisplayName = []\<rparr>], cfg_AdminToken = [], cfg_BatchUD = False,
      cfg_PrivKey = None\<rparr>"

datatype demo_error =
    NotCreated node_error
  | NeverActivated
  | Stuck string
  | ChainBroken string
  | ChecksFailed nat

text \<open>What the two servers answer at the end.\<close>

definition demo_docs :: "lib \<Rightarrow> Node \<Rightarrow> Node \<Rightarrow> string \<Rightarrow> string + obj" where
  "demo_docs L a b url = (case public_docs L a url of Inl _ \<Rightarrow> public_docs L b url | Inr m \<Rightarrow> Inr m)"

text \<open>The last two steps: the conformance checks, which are reported, and the audit of both ledgers.\<close>

definition demo_checks :: "lib \<Rightarrow> Node \<Rightarrow> Node \<Rightarrow> demo_error option" where
  "demo_checks L a b =
     (case CheckNode (demo_docs L a b) (cfg_Base (n_cfg a)) of
        (ra, _, ca) \<Rightarrow>
          (case CheckNode (demo_docs L a b) (cfg_Base (n_cfg b)) of
             (rb, _, cb) \<Rightarrow>
               let failed = failed_checks (ra @ rb @ (case (ca, cb) of (Some ca, Some cb) \<Rightarrow> CrossCheck ca cb | _ \<Rightarrow> [])) in
               if VerifyChain (n_led a) \<noteq> None then Some (ChainBroken ''Riverside'')
               else if VerifyChain (n_led b) \<noteq> None then Some (ChainBroken ''Hilltop'')
               else if 0 < failed then Some (ChecksFailed failed) else None))"

text \<open>
  \<open>runDemo\<close>, \<open>None\<close> when it is all green. Between an operation and the condition the demo then waits for, the envelopes of the
  exchange are delivered and answered in order.
\<close>

definition runDemo :: "lib \<Rightarrow> string \<Rightarrow> string \<Rightarrow> int \<Rightarrow> nat \<Rightarrow> nat \<Rightarrow> demo_error option" where
  "runDemo L baseA baseB t i j =
     (case NewNode L (demo_config baseA ''Riverside'' ''River Credits'' ''R'' ''alice'') t i of
        Inl e \<Rightarrow> Some (NotCreated e)
      | Inr a \<Rightarrow>
          (case NewNode L (demo_config baseB ''Hilltop'' ''Hill Credits'' ''H'' ''bob'') t j of
             Inl e \<Rightarrow> Some (NotCreated e)
           | Inr b \<Rightarrow>
               (case run_contact L 500000000 ''demo market overlap'' a b of
                  None \<Rightarrow> Some NeverActivated
                | Some (a, b) \<Rightarrow>
                    if \<not> (ContactActive L baseB a \<and> ContactActive L baseA b) then Some NeverActivated
                    else (case run_transfer L (''alice@'' @ HostOf L a) (''bob@'' @ HostOf L b) 10000000 ''veggie box'' a b of
                        None \<Rightarrow> Some (Stuck ''transfer 1'')
                      | Some (t1, a, b) \<Rightarrow>
                          if TransferState t1 a \<noteq> ''SETTLED'' then Some (Stuck ''transfer 1'')
                          else (case run_transfer L (''bob@'' @ HostOf L b) (''alice@'' @ HostOf L a) 7000000 ''return favor'' b a of
                              None \<Rightarrow> Some (Stuck ''transfer 2'')
                            | Some (t2, b, a) \<Rightarrow>
                                if TransferState t2 b \<noteq> ''SETTLED'' then Some (Stuck ''transfer 2'') else demo_checks L a b)))))"

section \<open>The demo ends green\<close>

lemma grant_cfg: "grant_member L mc n = Inr m \<Longrightarrow> n_cfg m = n_cfg n"
  using append_tx_frame(1) [of L "''issuance.grant''" "[]" _ "n\<lparr>n_members := _\<rparr>"]
  by (simp add: grant_member_def Let_def case_prod_beta split: option.splits if_splits sum.splits) auto

lemma grants_cfg: "grant_members L mcs n = Inr n' \<Longrightarrow> n_cfg n' = n_cfg n"
proof (induction mcs arbitrary: n)
  case (Cons mc mcs)
  then obtain m where m: "grant_member L mc n = Inr m" "grant_members L mcs m = Inr n'"
    by (auto split: sum.splits)
  then show ?case
    using Cons.IH [OF m(2)] grant_cfg [OF m(1)] by simp
qed simp

lemma NewNode_name: "NewNode L cfg t i = Inr n \<Longrightarrow> cfg_Name (n_cfg n) = cfg_Name cfg"
  by (auto simp: NewNode_def Let_def empty_node_def case_prod_beta dest!: grants_cfg split: if_splits sum.splits option.splits)

text \<open>Two nodes with one contact between them, both in order and ready to trade.\<close>

definition market :: "lib \<Rightarrow> Node \<Rightarrow> Node \<Rightarrow> bool" where
  "market L a b \<longleftrightarrow> node_inv a \<and> node_inv b \<and> keys_ok L a \<and> keys_ok L b \<and> cfg_Name (n_cfg a) \<noteq> [] \<and> cfg_Name (n_cfg b) \<noteq> [] \<and>
     n_contactByHost a = [(host L (cfg_Base (n_cfg b)), 0)] \<and> n_contactByHost b = [(host L (cfg_Base (n_cfg a)), 0)] \<and>
     paired L a 0 b 0 \<and> ready (cell a 0) \<and> ready (cell b 0)"

lemma paired_sym: "paired L a r b s \<Longrightarrow> paired L b s a r"
  by (simp add: paired_def mirror_def)

lemma market_sym: "market L a b \<Longrightarrow> market L b a"
  using paired_sym by (simp add: market_def)

lemma market_reserves:
  assumes "market L a b"
  shows "c_MyReserveOfPeer (cell a 0) = Balance (n_led a) (NodeWalletPrefix @ host L (cfg_Base (n_cfg b)))"
    "c_PeerReserveOfMe (cell a 0) = Balance (n_led b) (NodeWalletPrefix @ host L (cfg_Base (n_cfg a)))"
  using assms inv_reserve [of a L 0 "cfg_Base (n_cfg b)"] inv_reserve [of b L 0 "cfg_Base (n_cfg a)"]
  by (simp_all add: market_def paired_def mirror_def)

lemma run_transfer_keeps:
  assumes "run_transfer L from' to src memo a b = Some (tid, a', b')"
  shows "node_inv a \<Longrightarrow> node_inv a'" "node_inv b \<Longrightarrow> node_inv b'" "ident a' = ident a" "ident b' = ident b"
proof -
  obtain a1 m2 b1 m3 a2 m4 where s: "StartTransfer L (cfg_Base (n_cfg b)) from' to src memo a = (Inr tid, a1)"
    "route L (wire (newest L (cfg_Base (n_cfg b)) a1)) b = (Some m2, b1)" "route L (wire m2) a1 = (Some m3, a2)"
    "route L (wire m3) b1 = (Some m4, b')" "a' = snd (route L (wire m4) a2)"
    using assms by (auto simp: run_transfer_def split: prod.splits sum.splits option.splits)
  then show "node_inv a \<Longrightarrow> node_inv a'" "node_inv b \<Longrightarrow> node_inv b'"
    using StartTransfer_inv route_inv by (metis snd_conv)+
  have "ident a1 = ident a"
    using s(1) ident_own [OF own_peers(4)] by (metis snd_conv)
  then show "ident a' = ident a" "ident b' = ident b"
    using s(2-5) ident_route by (metis snd_conv)+
qed

lemma run_contact_ident:
  assumes "run_contact L seed memo a b = Some (a', b')"
  shows "ident a' = ident a" "ident b' = ident b"
proof -
  obtain cid a1 m2 where s: "OpenContact L (cfg_Base (n_cfg b)) seed memo a = (Inr cid, a1)"
    "route L (wire (newest L (cfg_Base (n_cfg b)) a1)) b = (Some m2, b')" "a' = snd (route L (wire m2) a1)"
    using assms by (auto simp: run_contact_def split: prod.splits sum.splits option.splits)
  have "ident a1 = ident a"
    using s(1) ident_own [OF own_peers(1)] by (metis snd_conv)
  then show "ident a' = ident a" "ident b' = ident b"
    using s(2,3) ident_route by (metis snd_conv)+
qed

lemma market_transfer:
  assumes m: "market L a b" and lib: "rfc3339_correct L"
    and fm: "usable_member a from' = Some fm" "sint src \<le> sint (Balance (n_led a) (MemberPrefix @ m_Name fm))"
    and tm: "usable_member b to \<noteq> None" and price: "priceOutgoing (cell a 0) src = Inr dst"
    and room: "sint (c_MyReserveOfPeer (cell a 0)) + sint src < 2 ^ 63"
  obtains tid a' b' where "run_transfer L from' to src memo a b = Some (tid, a', b')" "TransferState tid a' = ''SETTLED''"
    "\<And>x. Balance (n_led a') x = Balance (n_led a) x + (if x = MemberPrefix @ localPart from' then - src else
        if x = NodeWalletPrefix @ host L (cfg_Base (n_cfg b)) then src else 0)"
    "\<And>x. Balance (n_led b') x = Balance (n_led b) x + (if x = MemberPrefix @ localPart to then dst else
        if x = NodeWalletPrefix @ host L (cfg_Base (n_cfg a)) then - dst else 0)"
    "market L a' b'" "n_members a' = n_members a" "n_members b' = n_members b" "n_cfg a' = n_cfg a" "n_cfg b' = n_cfg b"
proof -
  have inv: "node_inv a" "node_inv b" and p: "paired L a 0 b 0" "ready (cell a 0)" "ready (cell b 0)"
    using m by (simp_all add: market_def)
  obtain tid a' b' where t: "run_transfer L from' to src memo a b = Some (tid, a', b')"
    "TransferState tid a' = ''SETTLED''"
    "\<And>x. Balance (n_led a') x = Balance (n_led a) x + (if x = MemberPrefix @ localPart from' then - src else
        if x = NodeWalletPrefix @ host L (cfg_Base (n_cfg b)) then src else 0)"
    "\<And>x. Balance (n_led b') x = Balance (n_led b) x + (if x = MemberPrefix @ localPart to then dst else
        if x = NodeWalletPrefix @ host L (cfg_Base (n_cfg a)) then - dst else 0)"
    "paired L a' 0 b' 0" "ready (cell a' 0)" "ready (cell b' 0)" "kept a a'" "kept b b'"
    by (rule transfer_settles [OF inv p fm tm price room lib, where memo = memo]) (rule that)
  have "market L a' b'"
    using m t(5-9) run_transfer_keeps [OF t(1)] keys_ok_ident [of a' a L] keys_ok_ident [of b' b L] by (simp add: market_def kept_def)
  then show ?thesis
    using that [OF t(1-4)] t(8,9) by (simp add: kept_def)
qed

lemma market_contact:
  assumes inv: "node_inv a" "node_inv b" and keys: "keys_ok L a" "keys_ok L b"
    and names: "cfg_Name (n_cfg a) \<noteq> []" "cfg_Name (n_cfg b) \<noteq> []" and seeds: "0 < sint seed" "0 < sint (cfg_AutoAcceptSeed (n_cfg b))"
    and new: "n_contactByHost a = []" "n_contactByHost b = []" "n_cells a = []" "n_cells b = []" "n_contacts a = []"
    and hosts: "host L (cfg_Base (n_cfg a)) \<noteq> []" "host L (cfg_Base (n_cfg b)) \<noteq> []"
  obtains a' b' where "run_contact L seed memo a b = Some (a', b')" "market L a' b'"
    "n_members a' = n_members a" "n_members b' = n_members b" "n_cfg a' = n_cfg a" "n_cfg b' = n_cfg b"
    "\<And>x. Balance (n_led a') x = Balance (n_led a) x + booked (seed_entries (host L (cfg_Base (n_cfg b))) seed) x"
    "\<And>x. Balance (n_led b') x =
       Balance (n_led b) x + booked (seed_entries (host L (cfg_Base (n_cfg a))) (cfg_AutoAcceptSeed (n_cfg b))) x"
proof -
  have free: "host_ref a (host L (cfg_Base (n_cfg b))) = None" "host_ref b (host L (cfg_Base (n_cfg a))) = None"
    using new by (simp_all add: host_ref_def)
  obtain a' b' where c: "run_contact L seed memo a b = Some (a', b')"
    "n_cfg a' = n_cfg a" "n_members a' = n_members a" "n_cfg b' = n_cfg b" "n_members b' = n_members b"
    "\<And>x. Balance (n_led a') x = Balance (n_led a) x + booked (seed_entries (host L (cfg_Base (n_cfg b))) seed) x"
    "\<And>x. Balance (n_led b') x =
       Balance (n_led b) x + booked (seed_entries (host L (cfg_Base (n_cfg a))) (cfg_AutoAcceptSeed (n_cfg b))) x"
    "paired L a' (length (n_cells a)) b' (length (n_cells b))"
    "n_contactByHost a' = mput (host L (cfg_Base (n_cfg b))) (length (n_cells a)) (n_contactByHost a)"
    "n_contactByHost b' = mput (host L (cfg_Base (n_cfg a))) (length (n_cells b)) (n_contactByHost b)"
    "cell a' (length (n_cells a)) = opened (newID L (n_rand a)) (cfg_Base (n_cfg b)) (host L (cfg_Base (n_cfg b))) True seed
       (cfg_AutoAcceptSeed (n_cfg b))"
    "cell b' (length (n_cells b)) = opened (newID L (n_rand a)) (cfg_Base (n_cfg a)) (host L (cfg_Base (n_cfg a))) False seed
       (cfg_AutoAcceptSeed (n_cfg b))"
    by (rule contact_opens [of a b seed L memo, OF inv seeds free hosts]) (rule that)
  have "contact_ref a (newID L (n_rand a)) = None"
    using new by (simp add: contact_ref_def)
  then have "market L a' b'"
    using run_contact_inv [OF c(1) inv] run_contact_ident [OF c(1)] c(2-5,8-12) keys names new keys_ok_ident [of a' a L] keys_ok_ident [of b' b L]
    by (simp add: market_def mput_def)
  then show ?thesis
    using that [OF c(1)] c(2-7) by simp
qed

lemma market_presentable:
  assumes "market L a b"
  shows "presentable L a"
  using assms by (auto simp: market_def presentable_def paired_def knows_def ready_def)

lemma market_agreeing: "market L a b \<Longrightarrow> agreeing a b"
  by (simp add: market_def agreeing_def paired_def)

lemma CheckNode_at:
  assumes "get (base @ identityPath) = Inr doc" "get (base @ iv_Endpoints (identity_of doc) ''checkpoint'') = Inr cp"
    "get' (base @ identityPath) = Inr doc" "get' (base @ iv_Endpoints (identity_of doc) ''checkpoint'') = Inr cp"
  shows "CheckNode get base = CheckNode get' base"
  using assms by (simp add: CheckNode_def Let_def)

lemma public_docs_at:
  assumes "Checkpoint L n = Some cp"
  shows "public_docs L n (cfg_Base (n_cfg n) @ identityPath) = Inr (IdentityDoc n)"
    "public_docs L n (cfg_Base (n_cfg n) @ iv_Endpoints (identity_of (IdentityDoc n)) ''checkpoint'') = Inr cp"
    "base \<noteq> cfg_Base (n_cfg n) \<Longrightarrow> \<exists>e. public_docs L n (base @ identityPath) = Inl e"
    "base \<noteq> cfg_Base (n_cfg n) \<Longrightarrow> \<exists>e. public_docs L n (base @ ''/lp/checkpoint.json'') = Inl e"
proof -
  have ne: "x @ identityPath \<noteq> y @ ''/lp/checkpoint.json''" for x y
  proof
    assume "x @ identityPath = y @ ''/lp/checkpoint.json''"
    then have "last (x @ identityPath) = last (y @ ''/lp/checkpoint.json'')"
      by (rule arg_cong)
    then show False
      by (simp add: identityPath_def)
  qed
  show "public_docs L n (cfg_Base (n_cfg n) @ identityPath) = Inr (IdentityDoc n)"
    by (simp add: public_docs_def)
  have "iv_Endpoints (identity_of (IdentityDoc n)) ''checkpoint'' = ''/lp/checkpoint.json''"
    by (simp add: identity_of_node str_def obj_get_def)
  then show "public_docs L n (cfg_Base (n_cfg n) @ iv_Endpoints (identity_of (IdentityDoc n)) ''checkpoint'') = Inr cp"
    using assms ne [of "cfg_Base (n_cfg n)" "cfg_Base (n_cfg n)", symmetric] by (simp only: public_docs_def Let_def if_False refl if_True option.case)
  show "\<exists>e. public_docs L n (base @ identityPath) = Inl e" if "base \<noteq> cfg_Base (n_cfg n)"
    using that ne [of base "cfg_Base (n_cfg n)"] by (simp only: public_docs_def Let_def append_same_eq if_False) blast
  show "\<exists>e. public_docs L n (base @ ''/lp/checkpoint.json'') = Inl e" if "base \<noteq> cfg_Base (n_cfg n)"
    using that ne [of "cfg_Base (n_cfg n)" base, symmetric] by (simp only: public_docs_def Let_def append_same_eq if_False) blast
qed

lemma demo_checks_green:
  assumes m: "market L a b" and bases: "cfg_Base (n_cfg a) \<noteq> cfg_Base (n_cfg b)"
  shows "demo_checks L a b = None"
proof -
  obtain cp cq where c: "Checkpoint L a = Some cp" "Checkpoint L b = Some cq"
    using Checkpoint_some by metis
  note pa = public_docs_at [OF c(1)] and pb = public_docs_at [OF c(2)]
  have ep: "iv_Endpoints (identity_of (IdentityDoc n)) ''checkpoint'' = ''/lp/checkpoint.json''" for n
    by (simp add: identity_of_node str_def obj_get_def)
  have a: "CheckNode (demo_docs L a b) (cfg_Base (n_cfg a)) = CheckNode (public_docs L a) (cfg_Base (n_cfg a))"
    by (rule CheckNode_at [OF _ _ pa(1,2)]) (simp_all add: demo_docs_def pa(1,2))
  have b: "CheckNode (demo_docs L a b) (cfg_Base (n_cfg b)) = CheckNode (public_docs L b) (cfg_Base (n_cfg b))"
  proof (rule CheckNode_at [OF _ _ pb(1,2)])
    show "demo_docs L a b (cfg_Base (n_cfg b) @ identityPath) = Inr (IdentityDoc b)"
      using pa(3) [of "cfg_Base (n_cfg b)"] bases pb(1) by (auto simp: demo_docs_def)
    show "demo_docs L a b (cfg_Base (n_cfg b) @ iv_Endpoints (identity_of (IdentityDoc b)) ''checkpoint'') = Inr cq"
      using pa(4) [of "cfg_Base (n_cfg b)"] bases pb(2) by (auto simp: demo_docs_def ep)
  qed
  let ?ra = "fst (CheckNode (public_docs L a) (cfg_Base (n_cfg a)))" and ?rb = "fst (CheckNode (public_docs L b) (cfg_Base (n_cfg b)))"
  note A = CheckNode_presentable [OF market_presentable [OF m] c(1)]
  note B = CheckNode_presentable [OF market_presentable [OF market_sym [OF m]] c(2)]
  have "failed_checks (?ra @ ?rb @ CrossCheck (checkpoint_of cp) (checkpoint_of cq)) = 0"
    using A(2) B(2) CrossCheck_agreeing [OF market_agreeing [OF m] c] by (simp add: failed_checks_def list_all_iff)
  moreover have "VerifyChain (n_led a) = None" "VerifyChain (n_led b) = None"
    using m by (simp_all add: market_def node_inv_def wf_ledger_def)
  moreover obtain ra rb where "CheckNode (public_docs L a) (cfg_Base (n_cfg a)) = (ra, Some (identity_of (IdentityDoc a)), Some (checkpoint_of cp))"
    "CheckNode (public_docs L b) (cfg_Base (n_cfg b)) = (rb, Some (identity_of (IdentityDoc b)), Some (checkpoint_of cq))"
    using A(1) B(1) by metis
  ultimately show ?thesis
    by (simp add: demo_checks_def a b Let_def)
qed

lemma demo_member_names [simp]: "validMemberName ''alice'' = None" "validMemberName ''bob'' = None"
  by (simp_all add: validMemberName_def valid_name_char_def)

lemma demo_started:
  assumes "ed25519_correct L" "rand_lengths L" "base \<noteq> []" "name \<noteq> []" "validMemberName mem = None"
  obtains n where "NewNode L (demo_config base name currency symbol mem) t i = Inr n" "node_inv n" "keys_ok L n"
    "cfg_Base (n_cfg n) = base" "cfg_Name (n_cfg n) = name" "cfg_AutoAcceptSeed (n_cfg n) = 500000000"
    "n_members n = [(mem, new_member mem [])]" "Balance (n_led n) (MemberPrefix @ mem) = 100000000"
    "n_contacts n = []" "n_contactByHost n = []" "n_cells n = []"
proof -
  let ?cfg = "demo_config base name currency symbol mem"
  obtain n where n: "NewNode L ?cfg t i = Inr n" "n_members n = [(mem, new_member mem [])]"
    "cfg_Base (n_cfg n) = base" "cfg_AutoAcceptSeed (n_cfg n) = 500000000" "Balance (n_led n) (MemberPrefix @ mem) = 100000000"
    "n_contacts n = []" "n_contactByHost n = []" "n_cells n = []"
    by (rule NewNode_one [of ?cfg "\<lparr>mc_Name = mem, mc_Grant = 100000000, mc_DisplayName = []\<rparr>" L t i])
      (use assms in \<open>simp_all add: demo_config_def\<close>)
  have "cfg_Name (n_cfg n) = name" "keys_ok L n"
    using NewNode_name [OF n(1)] NewNode_keys [OF n(1) _ assms(1,2)] by (simp_all add: demo_config_def key_configured_def)
  then show ?thesis
    using that n NewNode_inv [OF n(1)] by blast
qed

lemma localPart_at [simp]: "CHR ''@'' \<notin> set x \<Longrightarrow> localPart (x @ CHR ''@'' # y) = x"
  by (simp add: localPart_def takeWhile_append)

text \<open>A payment between the only members of the two nodes of a market.\<close>

lemma market_pays:
  assumes m: "market L a b" and lib: "rfc3339_correct L"
    and x: "n_members a = [(x, new_member x [])]" "CHR ''@'' \<notin> set x" and z: "n_members b = [(z, new_member z [])]" "CHR ''@'' \<notin> set z"
    and funds: "sint src \<le> sint (Balance (n_led a) (MemberPrefix @ x))" and price: "priceOutgoing (cell a 0) src = Inr dst"
    and room: "sint (c_MyReserveOfPeer (cell a 0)) + sint src < 2 ^ 63"
  obtains tid a' b' where "run_transfer L (x @ ''@'' @ HostOf L a) (z @ ''@'' @ HostOf L b) src memo a b = Some (tid, a', b')"
    "TransferState tid a' = ''SETTLED''" "market L a' b'"
    "\<And>w. Balance (n_led a') w = Balance (n_led a) w +
       (if w = MemberPrefix @ x then - src else if w = NodeWalletPrefix @ host L (cfg_Base (n_cfg b)) then src else 0)"
    "\<And>w. Balance (n_led b') w = Balance (n_led b) w +
       (if w = MemberPrefix @ z then dst else if w = NodeWalletPrefix @ host L (cfg_Base (n_cfg a)) then - dst else 0)"
    "n_members a' = n_members a" "n_members b' = n_members b" "n_cfg a' = n_cfg a" "n_cfg b' = n_cfg b"
proof -
  have payer: "usable_member a (x @ ''@'' @ HostOf L a) = Some (new_member x [])" "sint src \<le> sint (Balance (n_led a) (MemberPrefix @ m_Name (new_member x [])))"
    and payee: "usable_member b (z @ ''@'' @ HostOf L b) \<noteq> None"
    using x z funds by (simp_all add: usable_member_def new_member_def)
  have at: "localPart (x @ ''@'' @ y) = x" "localPart (z @ ''@'' @ y) = z" for y
    using x(2) z(2) by simp_all
  show ?thesis
    by (rule market_transfer [OF m lib payer payee price room, where memo = memo, unfolded at]) (rule that)
qed

lemma demo_opened:
  assumes lib: "ed25519_correct L" "rand_lengths L" and bases: "baseA \<noteq> []" "baseB \<noteq> []" and hosts: "host L baseA \<noteq> []" "host L baseB \<noteq> []"
  obtains a b a1 b1 where "NewNode L (demo_config baseA ''Riverside'' ''River Credits'' ''R'' ''alice'') t i = Inr a"
    "NewNode L (demo_config baseB ''Hilltop'' ''Hill Credits'' ''H'' ''bob'') t j = Inr b" "cfg_Base (n_cfg b) = baseB"
    "run_contact L 500000000 ''demo market overlap'' a b = Some (a1, b1)" "market L a1 b1"
    "cfg_Base (n_cfg a1) = baseA" "cfg_Base (n_cfg b1) = baseB"
    "n_members a1 = [(''alice'', new_member ''alice'' [])]" "n_members b1 = [(''bob'', new_member ''bob'' [])]"
    "Balance (n_led a1) (MemberPrefix @ ''alice'') = 100000000" "Balance (n_led b1) (MemberPrefix @ ''bob'') = 100000000"
    "Balance (n_led a1) (NodeWalletPrefix @ host L baseB) = 500000000" "Balance (n_led b1) (NodeWalletPrefix @ host L baseA) = 500000000"
proof -
  obtain a where a: "NewNode L (demo_config baseA ''Riverside'' ''River Credits'' ''R'' ''alice'') t i = Inr a" "node_inv a" "keys_ok L a"
    "cfg_Base (n_cfg a) = baseA" "cfg_Name (n_cfg a) = ''Riverside''" "cfg_AutoAcceptSeed (n_cfg a) = 500000000"
    "n_members a = [(''alice'', new_member ''alice'' [])]" "Balance (n_led a) (MemberPrefix @ ''alice'') = 100000000"
    "n_contacts a = []" "n_contactByHost a = []" "n_cells a = []"
    by (rule demo_started [OF lib(1,2) bases(1), of "''Riverside''" "''alice''" "''River Credits''" "''R''" t i]) (simp, simp, rule that)
  obtain b where b: "NewNode L (demo_config baseB ''Hilltop'' ''Hill Credits'' ''H'' ''bob'') t j = Inr b" "node_inv b" "keys_ok L b"
    "cfg_Base (n_cfg b) = baseB" "cfg_Name (n_cfg b) = ''Hilltop''" "cfg_AutoAcceptSeed (n_cfg b) = 500000000"
    "n_members b = [(''bob'', new_member ''bob'' [])]" "Balance (n_led b) (MemberPrefix @ ''bob'') = 100000000"
    "n_contacts b = []" "n_contactByHost b = []" "n_cells b = []"
    by (rule demo_started [OF lib(1,2) bases(2), of "''Hilltop''" "''bob''" "''Hill Credits''" "''H''" t j]) (simp, simp, rule that)
  have empty: "Balance (n_led a) (NodeWalletPrefix @ h) = 0" "Balance (n_led b) (NodeWalletPrefix @ h) = 0" for h
    using inv_unknown [OF a(2)] inv_unknown [OF b(2)] a(10) b(10) by (simp_all add: host_ref_def)
  have pre: "cfg_Name (n_cfg a) \<noteq> []" "cfg_Name (n_cfg b) \<noteq> []" "0 < sint (500000000 :: i64)" "0 < sint (cfg_AutoAcceptSeed (n_cfg b))"
    "host L (cfg_Base (n_cfg a)) \<noteq> []" "host L (cfg_Base (n_cfg b)) \<noteq> []"
    using a b hosts by simp_all
  obtain a1 b1 where c: "run_contact L 500000000 ''demo market overlap'' a b = Some (a1, b1)" "market L a1 b1"
    "n_members a1 = n_members a" "n_members b1 = n_members b" "n_cfg a1 = n_cfg a" "n_cfg b1 = n_cfg b"
    "\<And>x. Balance (n_led a1) x = Balance (n_led a) x + booked (seed_entries (host L (cfg_Base (n_cfg b))) 500000000) x"
    "\<And>x. Balance (n_led b1) x =
       Balance (n_led b) x + booked (seed_entries (host L (cfg_Base (n_cfg a))) (cfg_AutoAcceptSeed (n_cfg b))) x"
    by (rule market_contact [OF a(2) b(2) a(3) b(3) pre(1-4) a(10) b(10) a(11) b(11) a(9) pre(5,6), of "''demo market overlap''"]) (rule that)
  have bal1: "Balance (n_led a1) (MemberPrefix @ ''alice'') = 100000000" "Balance (n_led a1) (NodeWalletPrefix @ host L baseB) = 500000000"
    "Balance (n_led b1) (MemberPrefix @ ''bob'') = 100000000" "Balance (n_led b1) (NodeWalletPrefix @ host L baseA) = 500000000"
    using a b empty by (simp_all add: c(7,8) seed_entries_def)
  show ?thesis
    by (rule that [OF a(1) b(1,4) c(1,2)]) (use a b bal1 c(3-6) in simp_all)
qed



end
