(* ===== verification/Spec2Isabelle.thy ===== *)
theory Spec2Isabelle
  imports LP_Delivery LP_DSLaws LP_Federation LP_File LP_Command
begin

text \<open>
  A model of the Go implementation of LiquidityPub, a protocol by which the nodes of mutual-credit communities
  issue a dividend to their members, keep pools of each other's currency, and pay across them.

  \<^bold>\<open>The program.\<close> \<open>src/conformance\<close> holds what the protocol pins down: canonical JSON, envelope signing and
  validation, pool prices and the dividend, the channel hash, the transfer table. \<open>src/node/ledger\<close> is a
  double-entry ledger chained by hashes. \<open>src/node\<close> is the node: its members, its contacts with other nodes,
  the transfers and adjustments between them, inbound processing, pull, push and reconciliation, persistence.
  A node is one struct under one mutex; nodes talk by signed envelopes that \<open>ProcessInbound\<close> validates and
  \<open>route\<close> hands to a handler, whose reply is built and queued by \<open>buildSigned\<close>. \<open>src/node/httpapi\<close> and \<open>src/node/fed\<close> put
  a node on HTTP, \<open>src/node/store\<close> and \<open>src/gae/dsstore.go\<close> keep its snapshot, and \<open>src/gae\<close> runs many nodes in one process, the
  groups of a clearing house, behind an admin API.

  \<^bold>\<open>The theories.\<close>
  \<^item> \<open>LP_Prelude\<close>: Go's integers, strings and maps, and the lemmas about them that the rest shares.
  \<^item> \<open>LP_Text\<close>: decimal and hexadecimal text, \<open>strconv.ParseInt\<close>, UTF-8 and the string quoting of encoding/json.
  \<^item> \<open>LP_Crypto\<close>: SHA-256 and unpadded base64url, both executable.
  \<^item> \<open>LP_Canonical\<close> (reference.go): dynamic JSON values and the canonical writer.
  \<^item> \<open>LP_Json\<close> (reference.go): \<open>DecodeJSON\<close>, the reader of encoding/json, and what it makes of written values.
  \<^item> \<open>LP_Pricing\<close> (reference.go): \<open>PoolPrice\<close>, \<open>UDBase\<close>, \<open>RecipientUD\<close>.
  \<^item> \<open>LP_Transition\<close> (statemachine.go): the transfer table and its runs.
  \<^item> \<open>LP_HashChain\<close>: the locale of a hash chain, what equal ends say about equal histories. It is interpreted
    for the channel root (\<open>LP_Channel\<close>) and for the log (\<open>LP_LedgerLaws\<close>).
  \<^item> \<open>LP_Platform\<close> (config.go, envelope.go): what is not this repository's code (the record \<open>lib\<close>: ed25519,
    URL hosts, RFC 3339, random bytes), key ids, identifiers, payload readers, and a concrete \<open>demo\<close> instance.
  \<^item> \<open>LP_Envelope\<close> (reference.go, validate.go): signing, verification, validation.
  \<^item> \<open>LP_Ledger\<close>, \<open>LP_LedgerLaws\<close> (ledger.go): the ledger; the locale \<open>ledger_api\<close> states what its users rely on
    and is interpreted on it, so that the node's invariant uses only those laws.
  \<^item> \<open>LP_Node\<close> (node.go, persist.go, envelope.go): the state of a node, the snapshot, building an envelope.
  \<^item> \<open>LP_Members\<close> (node.go, members.go, pay.go, leave.go), \<open>LP_Contact\<close> (contact.go, expiry.go), \<open>LP_Transfer\<close>
    (transfer.go, reserve.go), \<open>LP_Inbound\<close> (handlers.go, keys.go, pull.go, reconcile.go), \<open>LP_Views\<close> (config.go,
    log.go, accessors.go, \<open>Restore\<close>): the operations, one definition per Go function under its name.
  \<^item> \<open>LP_Frame\<close>: what the building blocks leave alone. \<open>LP_Invariant\<close>: the invariant of a node.
    \<open>LP_Preserve\<close>, \<open>LP_PreserveOps\<close>: every operation keeps it. \<open>LP_Reachable\<close>: the step relation and the
    reachable states. \<open>LP_Effects\<close>: what each step of an exchange does. \<open>LP_Exchange\<close>: whole exchanges.
  \<^item> \<open>LP_Inbox\<close>, \<open>LP_Outbox\<close>, \<open>LP_Delivery\<close>: the inbound channels, the outboxes as an abstract mailbox, and
    delivery exactly once, in order. \<open>LP_Keys\<close>: keys, rotation and what a peer accepts.
  \<^item> \<open>LP_Restore\<close> (persist.go): what a restart from the saved snapshot gives. \<open>LP_File\<close> (store.go): the snapshot in a file.
    \<open>LP_DSStore\<close>, \<open>LP_DSLaws\<close> (dsstore.go): the snapshot in Datastore, split into records and chunks, and what its versions
    guarantee.
  \<^item> \<open>LP_Http\<close> (httpapi/server.go): the routes and handlers. \<open>LP_Client\<close> (fed/client.go): the client, and what requests can do to
    a node. \<open>LP_Federation\<close>: the client against a served node.
  \<^item> \<open>LP_Host\<close> (gae/host.go): the groups of one process and their reachable states. \<open>LP_Admin\<close> (gae/admin.go, gae/main.go): the
    admin API, the registry of groups, the sweep, the configuration and the cron handler.
  \<^item> \<open>LP_Runner\<close> (conformance/runner): the checker of live nodes, and that nodes of this model pass it.
    \<open>LP_Command\<close> (node/cmd/lpnode): how a served node starts, and the demo of two nodes, proved to end green.

  \<^bold>\<open>How the state corresponds.\<close> Every operation of the code holds the node's mutex from start to end (\<open>pushHost\<close>
  apart, which takes it per delivery), so an operation is a function from a node to a result and a node. The
  contacts are shared by pointer between two maps and live in a heap of cells; the other maps own their
  values. An \<open>int64\<close> is a 64-bit word with wrapping arithmetic, read by \<open>sint\<close>; intermediate values of
  \<open>math/big\<close> are integers. Errors are values of a sum type; the panic of \<open>buildSigned\<close> on a payload that
  cannot be written is a flag of the node. Maps are association lists, so an order of iteration is fixed
  where Go's is not; no property depends on it.

  \<^bold>\<open>What the lemmas show.\<close> The canonical writer is injective up to member order, so a signature binds every
  member; an envelope is accepted exactly when all checks pass and a key speaks for one origin only. The
  price is the largest that keeps the product of the reserves; splitting or reversing a payment never
  gains. Every ledger that arises audits, sums to zero and keeps node wallets non-negative; equal heads
  mean equal histories up to a collision of SHA-256, and the same holds of channel roots. In every
  reachable state of a node the reserve of each open contact is the balance of its wallet. Opening a contact,
  paying across it and adjusting a reserve each complete and leave the two sides mirrored.

  Every operation is a run of an abstract mailbox, sends under the next number and prunes; an accepted
  envelope is processed once, a refused one leaves no effect; what a running node sends its peer accepts.
  What is written as JSON is read back as the same value.

  A restart resumes the node that was saved. A file holds the old snapshot or the new one at every moment of a save; a save to
  Datastore is a compare-and-set on the version, and a process that was overtaken is refused. Over HTTP a node changes only by an
  envelope in its inbox or an authorised admin request, and delivering over HTTP is processing the envelope. On a host the books
  of every group balance in every reachable state, a removed group leaves nothing behind with the groups that were linked to it,
  the sweep spares every group with members, and an admin request is authorised or without effect.

  \<^bold>\<open>Bounds and termination.\<close> Loops over lists are structural. The reader of JSON recurses with fuel twice the
  length of its text, shown to be enough, and with the nesting limit of the decoder. The one other loop that
  is not structural (\<open>push_loop\<close>, over the outbox above a growing cursor) terminates because the cursor is bounded by the
  largest \<open>int64\<close>. The number of operations on a channel is assumed not to pass \<open>2^63\<close>.

  \<^bold>\<open>Outside the model.\<close> Parameters, with their documented behaviour as hypotheses: ed25519, URL parsing, clock texts and random bytes
  (the record \<open>lib\<close>), the network of the client, Datastore (\<open>datastore_ok\<close>) and the file system (\<open>os_ok\<close>). Of the host, what a
  group's store holds when it is opened, and what the process does while a move waits.

  \<^bold>\<open>Not modelled.\<close> The texts of error messages beyond those that envelopes carry; the text of a snapshot inside the node (the
  decoded values are the inputs of \<open>Restore\<close>) and what net/http does before its router; tickers and goroutines, which only call
  operations that are free in the step relations; flags, listeners and logging of the command-line programs; the generator of
  test vectors; the PHP implementation.
\<close>

end
